(* ===== verification/Prelude.thy ===== *)
theory Prelude
  imports Main "HOL-Library.Word"
begin

text \<open>
  Shared vocabulary of the development: machine types, C strings and byte arrays, the
  little-endian layout of 16- and 32-bit fields, and the generic list lemmas the component
  theories use.  A C \<open>char\<close> and an \<open>unsigned char\<close> are both \<open>8 word\<close>; a C string is the list
  of its bytes up to (not including) the NUL.  Message literals of the source are written with
  \<open>str\<close>, which turns an Isabelle string into bytes.
\<close>

unbundle bit_operations_syntax

type_synonym u8 = "8 word"
type_synonym u16 = "16 word"
type_synonym u32 = "32 word"
type_synonym bytes = "u8 list"

abbreviation (input) W32 :: nat where "W32 \<equiv> 4294967296"

named_theorems layout_simps \<open>reading a field back from a byte array\<close>
named_theorems frame_simps \<open>parts of the state an operation leaves alone\<close>

section \<open>C strings and arrays\<close>

definition str :: "string \<Rightarrow> bytes" where
  "str s = map (\<lambda>c. of_char c) s"

definition cstr :: "bytes \<Rightarrow> bytes" where
  "cstr b = takeWhile (\<lambda>c. c \<noteq> 0) b"

text \<open>\<open>s[i]\<close> of a NUL-terminated string: the terminator is read at (and past) its end.\<close>

definition char_at :: "bytes \<Rightarrow> nat \<Rightarrow> u8" where
  "char_at s i = (if i < length s then s ! i else 0)"

text \<open>Overwriting \<open>length src\<close> bytes of an array from offset \<open>off\<close> on.\<close>

definition put :: "nat \<Rightarrow> 'a list \<Rightarrow> 'a list \<Rightarrow> 'a list" where
  "put off src dst = take off dst @ src @ drop (off + length src) dst"

definition get :: "nat \<Rightarrow> nat \<Rightarrow> 'a list \<Rightarrow> 'a list" where
  "get off n b = take n (drop off b)"

section \<open>Little-endian fields\<close>

definition le16 :: "u16 \<Rightarrow> bytes" where
  "le16 w = [ucast w, ucast (drop_bit 8 w)]"

definition le32 :: "u32 \<Rightarrow> bytes" where
  "le32 w = [ucast w, ucast (drop_bit 8 w), ucast (drop_bit 16 w), ucast (drop_bit 24 w)]"

definition rd16 :: "bytes \<Rightarrow> nat \<Rightarrow> u16" where
  "rd16 b off = ucast (b ! off) OR push_bit 8 (ucast (b ! (off + 1)))"

definition rd32 :: "bytes \<Rightarrow> nat \<Rightarrow> u32" where
  "rd32 b off = ucast (b ! off) OR push_bit 8 (ucast (b ! (off + 1)))
     OR push_bit 16 (ucast (b ! (off + 2))) OR push_bit 24 (ucast (b ! (off + 3)))"

section \<open>Lemmas on arrays\<close>

lemma length_str [simp]: "length (str s) = length s"
  by (simp add: str_def)

lemma length_put [simp]:
  "off + length src \<le> length dst \<Longrightarrow> length (put off src dst) = length dst"
  by (simp add: put_def)

lemma length_get [simp]: "off + n \<le> length b \<Longrightarrow> length (get off n b) = n"
  by (simp add: get_def)

lemma nth_put:
  "off + length src \<le> length dst \<Longrightarrow> i < length dst \<Longrightarrow>
   put off src dst ! i =
     (if off \<le> i \<and> i < off + length src then src ! (i - off) else dst ! i)"
  by (auto simp: put_def nth_append)

lemma nth_get: "off + n \<le> length b \<Longrightarrow> i < n \<Longrightarrow> get off n b ! i = b ! (off + i)"
  by (simp add: get_def)

lemma get_put_same:
  "off + length src \<le> length dst \<Longrightarrow> get off (length src) (put off src dst) = src"
  by (simp add: get_def put_def)

lemma get_put_other:
  assumes "off + length src \<le> length dst" and "a + n \<le> length dst"
    and "a + n \<le> off \<or> off + length src \<le> a"
  shows "get a n (put off src dst) = get a n dst"
proof (rule nth_equalityI)
  show "length (get a n (put off src dst)) = length (get a n dst)"
    using assms by simp
next
  fix i
  assume "i < length (get a n (put off src dst))"
  with assms have "i < n" by simp
  with assms show "get a n (put off src dst) ! i = get a n dst ! i"
    by (auto simp: nth_get nth_put)
qed

lemma get_full: "length b = n \<Longrightarrow> get 0 n b = b"
  by (simp add: get_def)

lemma char_at_0: "char_at s 0 = 0 \<longleftrightarrow> cstr s = []"
  by (cases s) (auto simp: char_at_def cstr_def)

lemma cstr_no_zero: "0 \<notin> set (cstr b)"
  by (auto simp: cstr_def dest: set_takeWhileD)

lemma cstr_id: "0 \<notin> set b \<Longrightarrow> cstr b = b"
  by (auto simp: cstr_def takeWhile_eq_all_conv)

lemma cstr_append_zero: "0 \<notin> set b \<Longrightarrow> cstr (b @ 0 # r) = b"
  by (induction b) (auto simp: cstr_def)

lemma length_cstr_le: "length (cstr b) \<le> length b"
  by (simp add: cstr_def length_takeWhile_le)

lemma cstr_shorter: "0 \<in> set b \<Longrightarrow> length (cstr b) < length b"
  by (induction b) (auto simp: cstr_def)

section \<open>Lemmas on fields\<close>

lemma length_le16 [simp]: "length (le16 w) = 2"
  by (simp add: le16_def)

lemma length_le32 [simp]: "length (le32 w) = 4"
  by (simp add: le32_def)

lemma rd16_le16 [simp, layout_simps]: "rd16 (le16 w) 0 = w"
  unfolding rd16_def le16_def
  by (rule bit_word_eqI) (auto simp: bit_simps)

lemma rd32_le32 [simp, layout_simps]: "rd32 (le32 w) 0 = w"
proof (rule bit_word_eqI)
  fix n :: nat
  assume "n < LENGTH(32)"
  then consider "n < 8" | "8 \<le> n" "n < 16" | "16 \<le> n" "n < 24" | "24 \<le> n" "n < 32"
    by fastforce
  then show "bit (rd32 (le32 w) 0) n = bit w n"
    by cases (auto simp: rd32_def le32_def bit_simps)
qed

lemma rd16_get: "off + 2 \<le> length b \<Longrightarrow> rd16 b off = rd16 (get off 2 b) 0"
  by (simp add: rd16_def nth_get)

lemma rd32_get: "off + 4 \<le> length b \<Longrightarrow> rd32 b off = rd32 (get off 4 b) 0"
  by (simp add: rd32_def nth_get)

lemma list_all_upt: "(\<forall>i<n. P i) \<longleftrightarrow> list_all P [0..<n]"
  by (auto simp: list_all_iff)

lemma fold_upt_Cons: "k < n \<Longrightarrow> fold f [k..<n] x = fold f [Suc k..<n] (f k x)"
  by (simp add: upt_conv_Cons)

lemma fold_concat_lists: "fold f (concat xss) a = fold (fold f) xss a"
  by (induction xss arbitrary: a) simp_all

end
