(* ===== verification/Bitmap.thy ===== *)
theory Bitmap
  imports Prelude
begin

text \<open>
  Bit arrays stored in bytes, as the frame bitmap of pmm.c and the block bitmap of RexFS use
  them, and the contract of an allocator of equal units (page frames, disk blocks) that both
  implement: the locale \<open>unit_pool\<close>.
\<close>

section \<open>Bit arrays\<close>

definition set_bit_at :: "nat \<Rightarrow> bytes \<Rightarrow> bytes" where
  "set_bit_at i bm = bm[i div 8 := (bm ! (i div 8)) OR push_bit (i mod 8) 1]"

definition clear_bit_at :: "nat \<Rightarrow> bytes \<Rightarrow> bytes" where
  "clear_bit_at i bm = bm[i div 8 := (bm ! (i div 8)) AND NOT (push_bit (i mod 8) 1)]"

definition test_bit_at :: "bytes \<Rightarrow> nat \<Rightarrow> bool" where
  "test_bit_at bm i \<longleftrightarrow> (bm ! (i div 8)) AND push_bit (i mod 8) 1 \<noteq> 0"

lemma length_set_bit_at [simp]: "length (set_bit_at i bm) = length bm"
  by (simp add: set_bit_at_def)

lemma length_clear_bit_at [simp]: "length (clear_bit_at i bm) = length bm"
  by (simp add: clear_bit_at_def)

lemma and_mask_bit: "(b AND push_bit j 1 \<noteq> 0) = bit b j" if "j < 8" for b :: u8
proof
  assume "b AND push_bit j 1 \<noteq> 0"
  then obtain n where "bit (b AND push_bit j 1) n" by (auto simp: bit_eq_iff)
  then show "bit b j" by (auto simp: bit_simps)
next
  assume "bit b j"
  then have "bit (b AND push_bit j 1) j" using that by (auto simp: bit_simps)
  then show "b AND push_bit j 1 \<noteq> 0" by auto
qed

lemma test_bit_at_bit: "test_bit_at bm i = bit (bm ! (i div 8)) (i mod 8)"
  unfolding test_bit_at_def by (rule and_mask_bit) simp

lemma div_mod_8_eq: "(i div 8 = j div 8 \<and> i mod 8 = j mod 8) = (i = (j :: nat))"
  by (metis div_mult_mod_eq)

lemma test_set_bit_at:
  assumes "i < 8 * length bm" and "j < 8 * length bm"
  shows "test_bit_at (set_bit_at i bm) j \<longleftrightarrow> j = i \<or> test_bit_at bm j"
proof -
  have "i div 8 < length bm" "j div 8 < length bm" using assms by auto
  moreover have "i mod 8 < 8" "j mod 8 < 8" by auto
  ultimately show ?thesis
    using div_mod_8_eq [of i j]
    by (auto simp: test_bit_at_bit set_bit_at_def nth_list_update bit_simps)
qed

lemma test_clear_bit_at:
  assumes "i < 8 * length bm" and "j < 8 * length bm"
  shows "test_bit_at (clear_bit_at i bm) j \<longleftrightarrow> j \<noteq> i \<and> test_bit_at bm j"
proof -
  have "i div 8 < length bm" "j div 8 < length bm" using assms by auto
  moreover have "i mod 8 < 8" "j mod 8 < 8" by auto
  ultimately show ?thesis
    using div_mod_8_eq [of i j]
    by (auto simp: test_bit_at_bit clear_bit_at_def nth_list_update bit_simps)
qed

lemma byte_full: "(b = 0xFF) = (\<forall>j<8. bit b j)" for b :: u8
proof -
  have F: "bit (0xFF :: u8) j = (j < 8)" for j
    using bit_mask_iff [of 8 j, where ?'a = "8 word"] by (simp add: mask_eq_exp_minus_1)
  show ?thesis
  proof
    assume "\<forall>j<8. bit b j"
    then show "b = 0xFF" by (intro bit_word_eqI) (use F in fastforce)
  qed (use F in blast)
qed

lemma fold_set_bits:
  assumes "\<forall>i \<in> set is. i < 8 * length bm"
  shows "j < 8 * length bm \<Longrightarrow> test_bit_at (fold set_bit_at is bm) j \<longleftrightarrow> j \<in> set is \<or> test_bit_at bm j"
    and "length (fold set_bit_at is bm) = length bm"
  using assms by (induction "is" arbitrary: bm) (auto simp: test_set_bit_at)

lemma fold_clear_bits:
  assumes "\<forall>i \<in> set is. i < 8 * length bm"
  shows "j < 8 * length bm \<Longrightarrow> test_bit_at (fold clear_bit_at is bm) j \<longleftrightarrow> j \<notin> set is \<and> test_bit_at bm j"
    and "length (fold clear_bit_at is bm) = length bm"
  using assms by (induction "is" arbitrary: bm) (auto simp: test_clear_bit_at)

lemma test_replicate_full: "i < 8 * n \<Longrightarrow> test_bit_at (replicate n 0xFF) i"
proof -
  assume "i < 8 * n"
  then have "i div 8 < n" by auto
  then show ?thesis using byte_full [of "0xFF"] by (simp add: test_bit_at_bit)
qed

lemma test_replicate_zero: "i < 8 * n \<Longrightarrow> \<not> test_bit_at (replicate n 0) i"
proof -
  assume "i < 8 * n"
  then have "i div 8 < n" by auto
  then show ?thesis by (simp add: test_bit_at_bit)
qed

section \<open>Allocators of equal units\<close>

text \<open>
  \<open>pool s\<close> is what the allocator may hand out, \<open>used s\<close> what is handed out or reserved.
  0 is the result of an allocation that fails.  \<open>alloc_units\<close> is a client that asks for \<open>n\<close>
  units in a row and stops at the first failure.
\<close>

fun alloc_units :: "('s \<Rightarrow> nat \<times> 's) \<Rightarrow> nat \<Rightarrow> 's \<Rightarrow> nat list \<times> 's" where
  "alloc_units al 0 s = ([], s)"
| "alloc_units al (Suc n) s =
     (case al s of (u, s') \<Rightarrow>
        if u = 0 then ([], s') else case alloc_units al n s' of (us, s'') \<Rightarrow> (u # us, s''))"

locale unit_pool =
  fixes ok :: "'s \<Rightarrow> bool"
    and pool :: "'s \<Rightarrow> nat set"
    and used :: "'s \<Rightarrow> nat set"
    and alloc :: "'s \<Rightarrow> nat \<times> 's"
    and release :: "nat \<Rightarrow> 's \<Rightarrow> 's option"
  assumes pool_finite: "ok s \<Longrightarrow> finite (pool s)"
    and pool_nonzero: "ok s \<Longrightarrow> 0 \<notin> pool s"
    and alloc_zero: "ok s \<Longrightarrow> alloc s = (0, s') \<Longrightarrow>
      pool s \<subseteq> used s \<and> ok s' \<and> used s' = used s \<and> pool s' = pool s"
    and alloc_unit: "ok s \<Longrightarrow> alloc s = (u, s') \<Longrightarrow> u \<noteq> 0 \<Longrightarrow>
      u \<in> pool s \<and> u \<notin> used s \<and> ok s' \<and> used s' = insert u (used s) \<and> pool s' = pool s"
    and release_unit: "ok s \<Longrightarrow> u \<in> pool s \<Longrightarrow> u \<in> used s \<Longrightarrow>
      \<exists>s'. release u s = Some s' \<and> ok s' \<and> used s' = used s - {u} \<and> pool s' = pool s"
begin

lemma alloc_ok: "ok s \<Longrightarrow> alloc s = (u, s') \<Longrightarrow> ok s'"
  using alloc_zero alloc_unit by (cases "u = 0") blast+

lemma alloc_fails_iff: "ok s \<Longrightarrow> fst (alloc s) = 0 \<longleftrightarrow> pool s \<subseteq> used s"
  using alloc_zero alloc_unit pool_nonzero by (cases "alloc s") (metis fst_conv subsetD)

lemma alloc_units_spec:
  "ok s \<Longrightarrow> alloc_units alloc n s = (us, s') \<Longrightarrow>
   ok s' \<and> distinct us \<and> set us \<subseteq> pool s - used s \<and> used s' = used s \<union> set us \<and> pool s' = pool s \<and>
   length us = min n (card (pool s - used s))"
proof (induction n arbitrary: s us)
  case (Suc n)
  obtain u t where u: "alloc s = (u, t)" by (cases "alloc s")
  show ?case
  proof (cases "u = 0")
    case True
    then have "pool s - used s = {}" using alloc_zero [OF Suc.prems(1)] u by auto
    then have "card (pool s - used s) = 0" by (metis card.empty)
    then show ?thesis using Suc.prems u True alloc_zero by auto
  next
    case False
    obtain vs where vs: "alloc_units alloc n t = (vs, s')" "us = u # vs"
      using Suc.prems(2) u False by (auto split: prod.splits)
    note a = alloc_unit [OF Suc.prems(1) u False]
    then have IH: "ok s' \<and> distinct vs \<and> set vs \<subseteq> pool t - used t \<and> used s' = used t \<union> set vs \<and>
      pool s' = pool t \<and> length vs = min n (card (pool t - used t))"
      using Suc.IH [OF _ vs(1)] by blast
    have "pool t - used t = (pool s - used s) - {u}" using a by auto
    then have "card (pool s - used s) = Suc (card (pool t - used t))"
      using a pool_finite [OF Suc.prems(1)] by (metis DiffI card_Suc_Diff1 finite_Diff)
    then have "length us = min (Suc n) (card (pool s - used s))" using IH vs(2) by simp
    moreover have "set us \<subseteq> pool s - used s" "distinct us" "used s' = used s \<union> set us"
      using IH a vs(2) by auto
    ultimately show ?thesis using IH a by simp
  qed
qed simp

lemma alloc_release:
  assumes "ok s" and "alloc s = (u, s')" and "u \<noteq> 0"
  shows "\<exists>s''. release u s' = Some s'' \<and> ok s'' \<and> used s'' = used s \<and> pool s'' = pool s"
proof -
  note a = alloc_unit [OF assms]
  then obtain s'' where "release u s' = Some s''" "ok s''" "used s'' = used s' - {u}" "pool s'' = pool s'"
    using release_unit [of s' u] by auto
  with a show ?thesis by auto
qed

lemma release_then_alloc:
  assumes "ok s" and "u \<in> pool s" and "u \<in> used s" and "release u s = Some s'"
  shows "fst (alloc s') \<noteq> 0"
  using release_unit [OF assms(1-3)] assms(2,4) alloc_fails_iff [of s'] by auto

end

end
