(* ===== verification/Ring.thy ===== *)
theory Ring
  imports Prelude
begin

text \<open>
  Fixed-size circular buffers: an array of rows, the index of the next row to overwrite and the
  number of rows in use.  Both trace rings of the kernel (\<open>sys_trace\<close> of kernel.c and
  \<open>kernel_trace\<close> of trace.c) have this shape.  The locale \<open>bounded_ring\<close> is their contract: a
  push appends to the view and drops the oldest entry once the capacity is reached.
\<close>

definition last_n :: "nat \<Rightarrow> 'a list \<Rightarrow> 'a list" where
  "last_n n xs = drop (length xs - n) xs"

definition ring_view :: "'a list \<Rightarrow> nat \<Rightarrow> nat \<Rightarrow> 'a list" where
  "ring_view rows head cnt =
     map (\<lambda>i. rows ! ((head + length rows - cnt + i) mod length rows)) [0..<cnt]"

lemma length_last_n [simp]: "length (last_n n xs) = min n (length xs)"
  by (simp add: last_n_def)

lemma last_n_short: "length xs \<le> n \<Longrightarrow> last_n n xs = xs"
  by (simp add: last_n_def)

lemma last_n_map: "last_n n (map f xs) = map f (last_n n xs)"
  by (simp add: last_n_def drop_map)

lemma last_n_append_last_n: "last_n n (last_n n xs @ ys) = last_n n (xs @ ys)"
proof (cases "length xs \<le> n")
  case True
  then show ?thesis by (simp add: last_n_short)
next
  case False
  then show ?thesis
    by (simp add: last_n_def add.commute)
qed

lemma length_ring_view [simp]: "length (ring_view rows head cnt) = cnt"
  by (simp add: ring_view_def)

lemma nth_ring_view:
  "i < cnt \<Longrightarrow> ring_view rows head cnt ! i = rows ! ((head + length rows - cnt + i) mod length rows)"
  by (simp add: ring_view_def)

lemma ring_view_push_room:
  assumes "head < length rows" and "cnt < length rows"
  shows "ring_view (rows[head := x]) ((head + 1) mod length rows) (cnt + 1)
         = ring_view rows head cnt @ [x]"
proof (rule nth_equalityI)
  show "length (ring_view (rows[head := x]) ((head + 1) mod length rows) (cnt + 1))
        = length (ring_view rows head cnt @ [x])" by simp
next
  let ?n = "length rows"
  fix i
  assume "i < length (ring_view (rows[head := x]) ((head + 1) mod ?n) (cnt + 1))"
  then have i: "i \<le> cnt" by simp
  have idx: "((head + 1) mod ?n + ?n - (cnt + 1) + i) mod ?n = (head + ?n - cnt + i) mod ?n"
  proof (cases "head + 1 < ?n")
    case True
    then show ?thesis using assms by simp
  next
    case False
    with assms have h: "head + 1 = ?n" by simp
    then have "head + ?n - cnt + i = (?n - (cnt + 1) + i) + ?n" using assms by linarith
    then have "(head + ?n - cnt + i) mod ?n = (?n - (cnt + 1) + i) mod ?n"
      by (simp only: mod_add_self2)
    then show ?thesis using h by simp
  qed
  show "ring_view (rows[head := x]) ((head + 1) mod ?n) (cnt + 1) ! i
        = (ring_view rows head cnt @ [x]) ! i"
  proof (cases "i = cnt")
    case True
    then have "(head + ?n - cnt + i) mod ?n = head" using assms by simp
    with True idx show ?thesis using assms
      by (simp add: nth_ring_view nth_append del: One_nat_def)
  next
    case False
    with i have lt: "i < cnt" by simp
    have "(head + ?n - cnt + i) mod ?n \<noteq> head"
    proof (cases "head + i < cnt")
      case True
      then show ?thesis using assms lt by simp
    next
      case False
      then have "head + ?n - cnt + i = (head + i - cnt) + ?n" using assms by linarith
      then have "(head + ?n - cnt + i) mod ?n = (head + i - cnt) mod ?n"
        by (simp only: mod_add_self2)
      also have "\<dots> = head + i - cnt" using assms lt by simp
      finally show ?thesis using lt False by linarith
    qed
    with lt idx show ?thesis using assms
      by (simp add: nth_ring_view nth_append del: One_nat_def)
  qed
qed

lemma ring_view_push_full:
  assumes "head < length rows"
  shows "ring_view (rows[head := x]) ((head + 1) mod length rows) (length rows)
         = tl (ring_view rows head (length rows) @ [x])"
proof (rule nth_equalityI)
  show "length (ring_view (rows[head := x]) ((head + 1) mod length rows) (length rows))
        = length (tl (ring_view rows head (length rows) @ [x]))" by simp
next
  let ?n = "length rows"
  fix i
  assume "i < length (ring_view (rows[head := x]) ((head + 1) mod ?n) ?n)"
  then have i: "i < ?n" by simp
  have idx: "((head + 1) mod ?n + ?n - ?n + i) mod ?n = (head + (i + 1)) mod ?n"
    by (simp add: mod_add_left_eq add.assoc)
  have tl: "tl (ring_view rows head ?n @ [x]) ! i = (ring_view rows head ?n @ [x]) ! (i + 1)"
    using i by (simp add: nth_tl)
  show "ring_view (rows[head := x]) ((head + 1) mod ?n) ?n ! i
        = tl (ring_view rows head ?n @ [x]) ! i"
  proof (cases "i + 1 = ?n")
    case True
    then have "(head + (i + 1)) mod ?n = head" using assms by simp
    with True idx tl show ?thesis using assms i
      by (simp add: nth_ring_view nth_append del: One_nat_def)
  next
    case False
    with i have lt: "i + 1 < ?n" by simp
    have "(head + (i + 1)) mod ?n \<noteq> head"
    proof (cases "head + (i + 1) < ?n")
      case True
      then show ?thesis by simp
    next
      case False
      then have "(head + (i + 1)) mod ?n = head + (i + 1) - ?n"
        using assms lt by (simp add: mod_if)
      moreover have "head + (i + 1) - ?n \<noteq> head" using False lt by linarith
      ultimately show ?thesis by simp
    qed
    with lt idx tl show ?thesis using assms i
      by (simp add: nth_ring_view nth_append del: One_nat_def)
  qed
qed

lemma ring_view_push:
  assumes "head < length rows" and "cnt \<le> length rows"
  shows "ring_view (rows[head := x]) ((head + 1) mod length rows)
           (if cnt < length rows then cnt + 1 else cnt)
         = last_n (length rows) (ring_view rows head cnt @ [x])"
proof (cases "cnt < length rows")
  case True
  then show ?thesis using assms ring_view_push_room [of head rows cnt x]
    by (simp add: last_n_short)
next
  case False
  with assms(2) have c: "cnt = length rows" by simp
  have "ring_view rows head cnt \<noteq> []"
    using assms(1) c by (metis length_0_conv length_ring_view less_nat_zero_code)
  then show ?thesis using assms(1) c ring_view_push_full [of head rows x]
    by (simp add: last_n_def drop_Suc del: One_nat_def)
qed

section \<open>The contract of a trace ring\<close>

locale bounded_ring =
  fixes ok :: "'s \<Rightarrow> bool"
    and adm :: "'e \<Rightarrow> bool"
    and push :: "'e \<Rightarrow> 's \<Rightarrow> 's"
    and view :: "'s \<Rightarrow> 'v list"
    and entry :: "'e \<Rightarrow> 'v"
    and cap :: nat
  assumes ok_push: "ok s \<Longrightarrow> adm e \<Longrightarrow> ok (push e s)"
    and view_push: "ok s \<Longrightarrow> adm e \<Longrightarrow> view (push e s) = last_n cap (view s @ [entry e])"
    and view_bound: "ok s \<Longrightarrow> length (view s) \<le> cap"
begin

lemma ok_pushes: "ok s \<Longrightarrow> list_all adm es \<Longrightarrow> ok (fold push es s)"
  by (induction es arbitrary: s) (auto intro: ok_push)

lemma view_pushes:
  "ok s \<Longrightarrow> list_all adm es \<Longrightarrow>
   view (fold push es s) = last_n cap (view s @ map entry es)"
proof (induction es arbitrary: s)
  case Nil
  then show ?case by (simp add: last_n_short view_bound)
next
  case (Cons e es)
  then have "view (fold push es (push e s)) = last_n cap (view (push e s) @ map entry es)"
    by (auto intro: Cons.IH ok_push)
  with Cons.prems show ?case by (simp add: view_push last_n_append_last_n)
qed

lemma view_pushes_recent:
  "ok s \<Longrightarrow> list_all adm es \<Longrightarrow> length es \<ge> cap \<Longrightarrow>
   view (fold push es s) = map entry (last_n cap es)"
  by (simp add: view_pushes) (simp add: last_n_def drop_map)

end

end
