(* ===== verification/Console.thy ===== *)
theory Console
  imports Prelude
begin

text \<open>
  The VGA text terminal of kernel.c (sections 2 and 3): the cursor, the 80x25 text buffer at
  0xB8000, the serial mirror, and the printing and number-parsing routines on top of them.
  The state is the record \<open>console\<close>; \<open>video\<close> is indexed by the byte offset from 0xB8000 and
  \<open>serial\<close> is the sequence of bytes sent to port 0x3F8.  Offsets are C \<open>int\<close>s, so \<open>int\<close> here.
\<close>

section \<open>State\<close>

record console =
  cursor_offset :: int
  prompt_min_offset :: int
  video :: "int \<Rightarrow> u8"
  serial :: bytes

abbreviation (input) COLOR_WHITE :: u8 where "COLOR_WHITE \<equiv> 0x0F"
abbreviation (input) COLOR_LIGHT_GRAY :: u8 where "COLOR_LIGHT_GRAY \<equiv> 0x07"
abbreviation (input) COLOR_LIGHT_GREEN :: u8 where "COLOR_LIGHT_GREEN \<equiv> 0x0A"
abbreviation (input) COLOR_LIGHT_CYAN :: u8 where "COLOR_LIGHT_CYAN \<equiv> 0x0B"
abbreviation (input) COLOR_LIGHT_RED :: u8 where "COLOR_LIGHT_RED \<equiv> 0x0C"
abbreviation (input) COLOR_YELLOW :: u8 where "COLOR_YELLOW \<equiv> 0x0E"

abbreviation (input) SCREEN_MAX_BYTES :: int where "SCREEN_MAX_BYTES \<equiv> 4000"
abbreviation (input) BYTES_PER_ROW :: int where "BYTES_PER_ROW \<equiv> 160"

section \<open>Terminal operations\<close>

text \<open>
  The copy loop of \<open>check_scroll\<close> reads 160 bytes ahead of what it writes, so it moves the old
  contents up by one row; the last row is then filled with blanks.
\<close>

definition check_scroll :: "console \<Rightarrow> console" where
  "check_scroll s =
     (if cursor_offset s \<ge> SCREEN_MAX_BYTES
      then let v = video s; p = prompt_min_offset s - BYTES_PER_ROW in
        s\<lparr>video := (\<lambda>i. if 0 \<le> i \<and> i < 3840 then v (i + BYTES_PER_ROW)
                         else if 3840 \<le> i \<and> i < SCREEN_MAX_BYTES
                              then (if even i then 32 else COLOR_LIGHT_GRAY)
                         else v i),
          cursor_offset := 3840,
          prompt_min_offset := (if p < 0 then 0 else p)\<rparr>
      else s)"

definition write_serial :: "u8 \<Rightarrow> console \<Rightarrow> console" where
  "write_serial a s = s\<lparr>serial := serial s @ [a]\<rparr>"

definition serial_bytes :: "u8 \<Rightarrow> bytes" where
  "serial_bytes c = (if c = 10 then [13, 10] else if c \<noteq> 8 then [c] else [8, 32, 8])"

definition print_char_color :: "u8 \<Rightarrow> u8 \<Rightarrow> console \<Rightarrow> console" where
  "print_char_color c attr s0 =
     (let s = fold write_serial (serial_bytes c) s0 in
      if c = 10 then
        check_scroll (s\<lparr>cursor_offset := (cursor_offset s div BYTES_PER_ROW + 1) * BYTES_PER_ROW\<rparr>)
      else if c = 8 then
        (if cursor_offset s > prompt_min_offset s
         then let o1 = cursor_offset s - 2 in
           s\<lparr>cursor_offset := o1,
             video := (video s)(o1 := 32, o1 + 1 := COLOR_LIGHT_GRAY)\<rparr>
         else s)
      else
        check_scroll
          (if cursor_offset s < SCREEN_MAX_BYTES
           then s\<lparr>video := (video s)(cursor_offset s := c, cursor_offset s + 1 := attr),
                  cursor_offset := cursor_offset s + 2\<rparr>
           else s))"

definition print_char :: "u8 \<Rightarrow> console \<Rightarrow> console" where
  "print_char c s = print_char_color c COLOR_WHITE s"

definition print_string_color :: "bytes \<Rightarrow> u8 \<Rightarrow> console \<Rightarrow> console" where
  "print_string_color t attr s = fold (\<lambda>c. print_char_color c attr) (cstr t) s"

definition print_string :: "bytes \<Rightarrow> console \<Rightarrow> console" where
  "print_string t s = print_string_color t COLOR_WHITE s"

definition clear_screen :: "console \<Rightarrow> console" where
  "clear_screen s =
     s\<lparr>video := (\<lambda>i. if 0 \<le> i \<and> i < SCREEN_MAX_BYTES
                      then (if even i then 32 else COLOR_LIGHT_GRAY) else video s i),
       cursor_offset := 0\<rparr>"

definition klog :: "bytes \<Rightarrow> bytes \<Rightarrow> u8 \<Rightarrow> console \<Rightarrow> console" where
  "klog status msg color s =
     print_char 10 (print_string msg (print_string_color (str ''] '') COLOR_WHITE
       (print_string_color status color (print_string_color (str ''['') COLOR_WHITE s))))"

text \<open>\<open>kernel_panic\<close> paints the red screen and halts; the result is the console it halts with.\<close>

definition kernel_panic :: "bytes \<Rightarrow> console \<Rightarrow> console" where
  "kernel_panic msg s =
     (let bar = replicate 80 61 @ [10];
          s1 = s\<lparr>video := (\<lambda>i. if 0 \<le> i \<and> i < SCREEN_MAX_BYTES
                                then (if even i then 32 else 0x4F) else video s i),
                 cursor_offset := 0\<rparr>;
          s2 = print_string_color bar 0x4F s1;
          s3 = print_string_color
                 (replicate 32 32 @ str ''[ KERNEL PANIC ]'' @ replicate 32 32 @ [10]) 0x4F s2;
          s4 = print_string_color (bar @ [10]) 0x4F s3;
          s5 = print_string_color (str ''FATAL EXCEPTION: '') 0x4F s4;
          s6 = print_string_color msg 0x4F s5
      in print_string_color
           (10 # 10 # str ''System halted. Please manually reset the machine.'') 0x4F s6)"

section \<open>Numbers\<close>

text \<open>The digit loop of \<open>print_int\<close>: the buffer, least significant digit first.\<close>

function int_digits :: "int \<Rightarrow> bytes" where
  "int_digits n = (if n > 0 then (of_int (n mod 10) + 48) # int_digits (n div 10) else [])"
  by pat_completeness auto
termination
  by (relation "measure nat") (auto simp: nat_mono_iff intro: int_div_less_self)

declare int_digits.simps [simp del]

definition print_int :: "int \<Rightarrow> console \<Rightarrow> console" where
  "print_int num s =
     (if num = 0 then print_char 48 s else fold print_char (rev (int_digits num)) s)"

definition print_int_padded :: "int \<Rightarrow> console \<Rightarrow> console" where
  "print_int_padded num s = print_int num (if num < 10 then print_char 48 s else s)"

definition print_number :: "u32 \<Rightarrow> console \<Rightarrow> console" where
  "print_number num s = print_int (sint num) s"

definition hex_char :: "nat \<Rightarrow> u8" where
  "hex_char d = str ''0123456789ABCDEF'' ! d"

function hex_digits :: "nat \<Rightarrow> bytes" where
  "hex_digits n = (if n > 0 then hex_char (n mod 16) # hex_digits (n div 16) else [])"
  by pat_completeness auto
termination
  by (relation "measure id") auto

declare hex_digits.simps [simp del]

definition hex_text :: "u32 \<Rightarrow> bytes" where
  "hex_text num = (if num = 0 then [48] else rev (hex_digits (unat num)))"

definition print_hex_no_prefix :: "u32 \<Rightarrow> console \<Rightarrow> console" where
  "print_hex_no_prefix num s = fold (\<lambda>c. print_char_color c COLOR_YELLOW) (hex_text num) s"

definition print_hex :: "u32 \<Rightarrow> console \<Rightarrow> console" where
  "print_hex num s =
     fold (\<lambda>c. print_char_color c COLOR_YELLOW) (hex_text num)
       (print_string_color (str ''0x'') COLOR_YELLOW s)"

definition print_hex_no_prefix_padded :: "u32 \<Rightarrow> console \<Rightarrow> console" where
  "print_hex_no_prefix_padded num s =
     fold (\<lambda>c. print_char_color c COLOR_YELLOW)
       (map (\<lambda>i. hex_char (unat (drop_bit (4 * (7 - i)) num AND 0x0F))) [0..<8]) s"

definition print_binary_byte :: "u8 \<Rightarrow> console \<Rightarrow> console" where
  "print_binary_byte value s =
     print_string (map (\<lambda>i. if bit value (7 - i) then 49 else 48) [0..<8]) s"

definition hex_value :: "u8 \<Rightarrow> u32 option" where
  "hex_value c =
     (if 48 \<le> c \<and> c \<le> 57 then Some (ucast (c - 48))
      else if 97 \<le> c \<and> c \<le> 102 then Some (ucast (c - 97 + 10))
      else if 65 \<le> c \<and> c \<le> 70 then Some (ucast (c - 65 + 10))
      else None)"

text \<open>The loop of \<open>parse_hex\<close> stops at the NUL (the end of the list) or at a non-hex character.\<close>

fun parse_hex_loop :: "bytes \<Rightarrow> u32 \<Rightarrow> u32" where
  "parse_hex_loop [] result = result"
| "parse_hex_loop (c # cs) result =
     (if c = 0 then result
      else case hex_value c of
             None \<Rightarrow> result
           | Some val \<Rightarrow> parse_hex_loop cs (push_bit 4 result OR val))"

definition parse_hex :: "bytes \<Rightarrow> u32" where
  "parse_hex s =
     (if char_at s 0 = 48 \<and> (char_at s 1 = 120 \<or> char_at s 1 = 88)
      then parse_hex_loop (drop 2 s) 0 else parse_hex_loop s 0)"

fun parse_int_loop :: "bytes \<Rightarrow> u32 \<Rightarrow> u32" where
  "parse_int_loop [] res = res"
| "parse_int_loop (c # cs) res =
     (if 48 \<le> c \<and> c \<le> 57 then parse_int_loop cs (res * 10 + ucast (c - 48)) else res)"

definition parse_int :: "bytes \<Rightarrow> u32" where
  "parse_int s = parse_int_loop (dropWhile (\<lambda>c. c = 32) s) 0"

section \<open>Strings\<close>

fun strcmp :: "bytes \<Rightarrow> bytes \<Rightarrow> int" where
  "strcmp [] [] = 0"
| "strcmp [] (d # ds) = - sint d"
| "strcmp (c # cs) [] = sint c"
| "strcmp (c # cs) (d # ds) = (if c = d then (if c = 0 then 0 else strcmp cs ds) else sint c - sint d)"

fun starts_with :: "bytes \<Rightarrow> bytes \<Rightarrow> bool" where
  "starts_with t [] = True"
| "starts_with [] (p # ps) = (p = 0)"
| "starts_with (c # cs) (p # ps) = (if p = 0 then True else c = p \<and> starts_with cs ps)"

section \<open>The terminal invariant\<close>

definition console_ok :: "console \<Rightarrow> bool" where
  "console_ok s \<longleftrightarrow> 0 \<le> cursor_offset s \<and> cursor_offset s < SCREEN_MAX_BYTES \<and>
     even (cursor_offset s) \<and> 0 \<le> prompt_min_offset s \<and> even (prompt_min_offset s)"

lemma fold_write_serial: "fold write_serial bs s = s\<lparr>serial := serial s @ bs\<rparr>"
  by (induction bs arbitrary: s) (auto simp: write_serial_def)

lemma check_scroll_id: "cursor_offset s < SCREEN_MAX_BYTES \<Longrightarrow> check_scroll s = s"
  by (simp add: check_scroll_def)

lemma check_scroll_ok:
  "0 \<le> cursor_offset s \<Longrightarrow> even (cursor_offset s) \<Longrightarrow> 0 \<le> prompt_min_offset s \<Longrightarrow>
   even (prompt_min_offset s) \<Longrightarrow> console_ok (check_scroll s)"
  by (auto simp: check_scroll_def console_ok_def Let_def)

lemma console_ok_serial: "console_ok (s\<lparr>serial := x\<rparr>) = console_ok s"
  by (simp add: console_ok_def)

lemma print_char_color_newline:
  "print_char_color 10 attr s =
     check_scroll (s\<lparr>serial := serial s @ [13, 10],
                      cursor_offset := (cursor_offset s div 160 + 1) * 160\<rparr>)"
  by (simp add: print_char_color_def fold_write_serial serial_bytes_def write_serial_def)

lemma print_char_color_backspace:
  "print_char_color 8 attr s =
     (if cursor_offset s > prompt_min_offset s
      then s\<lparr>serial := serial s @ [8, 32, 8], cursor_offset := cursor_offset s - 2,
             video := (video s)(cursor_offset s - 2 := 32, cursor_offset s - 1 := 7)\<rparr>
      else s\<lparr>serial := serial s @ [8, 32, 8]\<rparr>)"
  by (simp add: print_char_color_def fold_write_serial serial_bytes_def write_serial_def Let_def)

lemma print_char_color_glyph:
  "c \<noteq> 10 \<Longrightarrow> c \<noteq> 8 \<Longrightarrow> cursor_offset s < 4000 \<Longrightarrow>
   print_char_color c attr s =
     check_scroll (s\<lparr>serial := serial s @ [c],
       video := (video s)(cursor_offset s := c, cursor_offset s + 1 := attr),
       cursor_offset := cursor_offset s + 2\<rparr>)"
  by (simp add: print_char_color_def serial_bytes_def write_serial_def Let_def)

lemmas print_char_color_cases =
  print_char_color_newline print_char_color_backspace print_char_color_glyph

lemma print_char_color_ok:
  assumes "console_ok s"
  shows "console_ok (print_char_color c attr s)"
proof -
  have row: "0 \<le> (cursor_offset s div 160 + 1) * 160"
    using assms by (simp add: console_ok_def pos_imp_zdiv_nonneg_iff)
  have lt: "cursor_offset s < 4000" using assms by (simp add: console_ok_def)
  consider "c = 10" | "c = 8" | "c \<noteq> 10" "c \<noteq> 8" by blast
  then show ?thesis
  proof cases
    case 1
    then show ?thesis using assms row
      by (simp only: print_char_color_newline) (rule check_scroll_ok; simp add: console_ok_def)
  next
    case 2
    then show ?thesis using assms
      by (auto simp: print_char_color_backspace console_ok_def elim!: evenE)
  next
    case 3
    show ?thesis using assms unfolding print_char_color_glyph [OF 3 lt]
      by (intro check_scroll_ok) (auto simp: console_ok_def)
  qed
qed

lemma fold_print_char_color_ok:
  "console_ok s \<Longrightarrow> console_ok (fold (\<lambda>c. print_char_color c attr) t s)"
  by (induction t arbitrary: s) (auto intro: print_char_color_ok)

lemma console_ok_cursor_even: "console_ok s \<Longrightarrow> cursor_offset s + 1 < 4000"
  by (auto simp: console_ok_def elim!: evenE)

lemma check_scroll_outside:
  "i < 0 \<or> 4000 \<le> i \<Longrightarrow> video (check_scroll s) i = video s i"
  by (auto simp: check_scroll_def Let_def)

lemma print_char_color_outside:
  assumes "console_ok s" and "i < 0 \<or> SCREEN_MAX_BYTES \<le> i"
  shows "video (print_char_color c attr s) i = video s i"
proof -
  have b: "cursor_offset s > prompt_min_offset s \<Longrightarrow> 2 \<le> cursor_offset s"
    using assms(1) by (auto simp: console_ok_def elim!: evenE)
  have lt: "0 \<le> cursor_offset s" "cursor_offset s < 4000" using assms by (simp_all add: console_ok_def)
  consider "c = 10" | "c = 8" | "c \<noteq> 10" "c \<noteq> 8" by blast
  then show ?thesis
    using assms(2) b lt console_ok_cursor_even [OF assms(1)]
    by cases (auto simp: print_char_color_cases check_scroll_outside)
qed

lemma fold_print_char_color_outside:
  "console_ok s \<Longrightarrow> i < 0 \<or> SCREEN_MAX_BYTES \<le> i \<Longrightarrow>
   video (fold (\<lambda>c. print_char_color c attr) t s) i = video s i"
  by (induction t arbitrary: s) (auto simp: print_char_color_outside print_char_color_ok)

lemma print_char_color_plain:
  "c \<noteq> 10 \<Longrightarrow> c \<noteq> 8 \<Longrightarrow> cursor_offset s + 2 < SCREEN_MAX_BYTES \<Longrightarrow>
   print_char_color c attr s =
     s\<lparr>serial := serial s @ [c],
       video := (video s)(cursor_offset s := c, cursor_offset s + 1 := attr),
       cursor_offset := cursor_offset s + 2\<rparr>"
  by (simp add: print_char_color_glyph check_scroll_id)

lemma fold_print_plain_cursor:
  assumes "\<And>c. c \<in> set t \<Longrightarrow> c \<noteq> 10 \<and> c \<noteq> 8"
    and "cursor_offset s + 2 * int (length t) < SCREEN_MAX_BYTES"
  shows "cursor_offset (fold (\<lambda>c. print_char_color c attr) t s) = cursor_offset s + 2 * int (length t)"
  using assms
proof (induction t arbitrary: s)
  case Nil
  then show ?case by simp
next
  case (Cons c t)
  then show ?case by (simp add: print_char_color_plain)
qed

lemma fold_print_plain_before:
  assumes "\<And>c. c \<in> set t \<Longrightarrow> c \<noteq> 10 \<and> c \<noteq> 8"
    and "cursor_offset s + 2 * int (length t) < SCREEN_MAX_BYTES" and "i < cursor_offset s"
  shows "video (fold (\<lambda>c. print_char_color c attr) t s) i = video s i"
  using assms
proof (induction t arbitrary: s)
  case Nil
  then show ?case by simp
next
  case (Cons c t)
  then show ?case by (simp add: print_char_color_plain)
qed

lemma fold_print_plain_video:
  assumes "\<And>c. c \<in> set t \<Longrightarrow> c \<noteq> 10 \<and> c \<noteq> 8"
    and "cursor_offset s + 2 * int (length t) < SCREEN_MAX_BYTES" and "k < length t"
  shows "video (fold (\<lambda>c. print_char_color c attr) t s) (cursor_offset s + 2 * int k) = t ! k"
  using assms
proof (induction t arbitrary: s k)
  case Nil
  then show ?case by simp
next
  case (Cons c t)
  let ?s = "print_char_color c attr s"
  have plain: "c \<noteq> 10" "c \<noteq> 8" "cursor_offset s + 2 < 4000" using Cons.prems by auto
  then have cur: "cursor_offset ?s = cursor_offset s + 2" by (simp add: print_char_color_plain)
  show ?case
  proof (cases k)
    case 0
    have "video (fold (\<lambda>c. print_char_color c attr) t ?s) (cursor_offset s)
          = video ?s (cursor_offset s)"
      using Cons.prems by (intro fold_print_plain_before) (auto simp: cur)
    then show ?thesis using 0 plain by (simp add: print_char_color_plain)
  next
    case (Suc j)
    then have "video (fold (\<lambda>c. print_char_color c attr) t ?s) (cursor_offset ?s + 2 * int j) = t ! j"
      using Cons.prems by (intro Cons.IH) (auto simp: cur)
    then show ?thesis using Suc by (simp add: cur algebra_simps)
  qed
qed

section \<open>Numbers print and parse back\<close>

lemma hex_char_table:
  "list_all (\<lambda>d. hex_value (hex_char d) = Some (of_nat d) \<and> hex_char d \<noteq> 0) [0..<16]"
  by code_simp

lemma hex_char_value: "d < 16 \<Longrightarrow> hex_value (hex_char d) = Some (of_nat d)"
  and hex_char_nonzero: "d < 16 \<Longrightarrow> hex_char d \<noteq> 0"
  using hex_char_table by (simp_all only: list_all_iff set_upt) auto

lemma parse_hex_loop_append:
  "list_all (\<lambda>c. c \<noteq> 0 \<and> hex_value c \<noteq> None) xs \<Longrightarrow>
   parse_hex_loop (xs @ ys) r = parse_hex_loop ys (parse_hex_loop xs r)"
  by (induction xs arbitrary: r) auto

lemma hex_digits_hex: "list_all (\<lambda>c. c \<noteq> 0 \<and> hex_value c \<noteq> None) (hex_digits n)"
proof (induction n rule: hex_digits.induct)
  case (1 n)
  then show ?case
    by (subst hex_digits.simps) (auto simp: hex_char_value hex_char_nonzero)
qed

lemma shift_or_nibble:
  assumes "d < 16"
  shows "push_bit 4 (w :: u32) OR of_nat d = w * 16 + of_nat d"
proof -
  have d: "take_bit 4 d = d" using assms by (simp add: take_bit_nat_eq_self)
  have "push_bit 4 w AND of_nat d = 0"
    by (rule bit_word_eqI, subst d [symmetric]) (auto simp: bit_simps)
  then have "push_bit 4 w + of_nat d = push_bit 4 w OR of_nat d"
    by (rule disjunctive_add_eq_or)
  then show ?thesis by (simp add: push_bit_eq_mult)
qed

lemma parse_hex_loop_digits: "parse_hex_loop (rev (hex_digits n)) 0 = of_nat n"
proof (induction n rule: hex_digits.induct)
  case (1 n)
  show ?case
  proof (cases "n > 0")
    case True
    have "list_all (\<lambda>c. c \<noteq> 0 \<and> hex_value c \<noteq> None) (rev (hex_digits (n div 16)))"
      using hex_digits_hex [of "n div 16"] by (simp add: list_all_iff)
    then have "parse_hex_loop (rev (hex_digits n)) 0
        = push_bit 4 (of_nat (n div 16)) OR of_nat (n mod 16)"
      using True 1 hex_char_value [of "n mod 16"] hex_char_nonzero [of "n mod 16"]
      by (subst hex_digits.simps) (simp add: parse_hex_loop_append)
    also have "\<dots> = of_nat (n div 16) * 16 + of_nat (n mod 16)"
      by (rule shift_or_nibble) simp
    also have "\<dots> = of_nat (n div 16 * 16 + n mod 16)"
      by (simp only: of_nat_add of_nat_mult of_nat_numeral)
    finally show ?thesis by simp
  next
    case False
    then show ?thesis by (simp add: hex_digits.simps)
  qed
qed

lemma parse_hex_loop_hex_text: "parse_hex_loop (hex_text num) 0 = num"
  by (simp add: hex_text_def parse_hex_loop_digits hex_value_def)

text \<open>Decimal.\<close>

lemma parse_int_loop_append:
  "list_all (\<lambda>c. 48 \<le> c \<and> c \<le> 57) xs \<Longrightarrow>
   parse_int_loop (xs @ ys) r = parse_int_loop ys (parse_int_loop xs r)"
  by (induction xs arbitrary: r) auto

lemma digit_byte:
  assumes "0 \<le> d" and "d < 10"
  shows "48 \<le> of_int d + (48 :: u8) \<and> of_int d + (48 :: u8) \<le> 57"
    and "ucast (of_int d + (48 :: u8) - 48) = (of_int d :: u32)"
    and "of_int d + (48 :: u8) \<noteq> 0"
proof -
  from assms have "d \<in> set [0..9]" by simp
  then have "d \<in> {0,1,2,3,4,5,6,7,8,9}" by (simp add: upto.simps)
  then show "48 \<le> of_int d + (48 :: u8) \<and> of_int d + (48 :: u8) \<le> 57"
    and "ucast (of_int d + (48 :: u8) - 48) = (of_int d :: u32)"
    and "of_int d + (48 :: u8) \<noteq> 0" by auto
qed

lemma int_digits_digits: "list_all (\<lambda>c. 48 \<le> c \<and> c \<le> 57) (int_digits n)"
proof (induction n rule: int_digits.induct)
  case (1 n)
  then show ?case
    by (subst int_digits.simps) (simp add: digit_byte)
qed

lemma parse_int_loop_digits: "0 \<le> n \<Longrightarrow> parse_int_loop (rev (int_digits n)) 0 = of_int n"
proof (induction n rule: int_digits.induct)
  case (1 n)
  show ?case
  proof (cases "n > 0")
    case True
    have "list_all (\<lambda>c. 48 \<le> c \<and> c \<le> 57) (rev (int_digits (n div 10)))"
      using int_digits_digits [of "n div 10"] by (simp add: list_all_iff)
    then have "parse_int_loop (rev (int_digits n)) 0 = of_int (n div 10) * 10 + of_int (n mod 10)"
      using True 1 digit_byte [of "n mod 10"]
      by (subst int_digits.simps) (simp add: parse_int_loop_append pos_imp_zdiv_nonneg_iff)
    also have "\<dots> = of_int (n div 10 * 10 + n mod 10)"
      by (simp only: of_int_add of_int_mult of_int_numeral)
    finally show ?thesis by simp
  next
    case False
    with 1 show ?thesis by (simp add: int_digits.simps)
  qed
qed

section \<open>Strings compare as their contents\<close>

lemma sint_diff_zero: "sint (c :: u8) - sint d = 0 \<longleftrightarrow> c = d"
  by (auto simp: signed_word_eqI)

lemma strcmp_cstr: "strcmp s t = 0 \<longleftrightarrow> cstr s = cstr t"
  by (induction s t rule: strcmp.induct) (auto simp: cstr_def sint_diff_zero signed_word_eqI)

lemma starts_with_prefix: "0 \<notin> set p \<Longrightarrow> starts_with t p \<longleftrightarrow> take (length p) t = p"
  by (induction t p rule: starts_with.induct) auto

end
