(* ===== verification/Ktrace.thy ===== *)
theory Ktrace
  imports Ring Console
begin

text \<open>
  The global state every kernel component shares (the terminal, the telemetry counters and the
  \<open>sys_trace\<close> ring of kernel.c), the \<open>trace\<close> shell command, and the second, unconnected trace
  ring of trace.c.  Larger component states extend the record \<open>kworld\<close>.
\<close>

section \<open>Shared state and the sys\_trace ring\<close>

record kworld =
  con :: console
  trace_ring :: "bytes list"
  trace_idx :: nat
  trace_count :: nat
  total_bytes_allocated :: u32
  total_disk_reads :: u32
  total_disk_writes :: u32

text \<open>The values the globals have when the kernel image is loaded.\<close>

definition console0 :: "(int \<Rightarrow> u8) \<Rightarrow> console" where
  "console0 vram = \<lparr>cursor_offset = 0, prompt_min_offset = 0, video = vram, serial = []\<rparr>"

definition kworld0 :: "(int \<Rightarrow> u8) \<Rightarrow> kworld" where
  "kworld0 vram =
     \<lparr>con = console0 vram, trace_ring = replicate 12 (replicate 64 0), trace_idx = 0, trace_count = 0,
      total_bytes_allocated = 0, total_disk_reads = 0, total_disk_writes = 0\<rparr>"

abbreviation (input) TRACE_MAX :: nat where "TRACE_MAX \<equiv> 12"

text \<open>Printing acts on the terminal component of the state.\<close>

abbreviation kputc :: "u8 \<Rightarrow> 'a kworld_scheme \<Rightarrow> 'a kworld_scheme" where
  "kputc c \<equiv> con_update (print_char c)"

abbreviation kprint :: "bytes \<Rightarrow> 'a kworld_scheme \<Rightarrow> 'a kworld_scheme" where
  "kprint t \<equiv> con_update (print_string t)"

abbreviation kprint_color :: "bytes \<Rightarrow> u8 \<Rightarrow> 'a kworld_scheme \<Rightarrow> 'a kworld_scheme" where
  "kprint_color t a \<equiv> con_update (print_string_color t a)"

abbreviation kprint_int :: "int \<Rightarrow> 'a kworld_scheme \<Rightarrow> 'a kworld_scheme" where
  "kprint_int n \<equiv> con_update (print_int n)"

abbreviation kprint_hex :: "u32 \<Rightarrow> 'a kworld_scheme \<Rightarrow> 'a kworld_scheme" where
  "kprint_hex n \<equiv> con_update (print_hex n)"

text \<open>
  A row is the whole 64-byte array \<open>trace_ring[i]\<close>: the copy loop stores at most 63 characters
  of the event and then a NUL, and leaves the bytes behind it.
\<close>

definition sys_trace :: "bytes \<Rightarrow> 'a kworld_scheme \<Rightarrow> 'a kworld_scheme" where
  "sys_trace event w =
     w\<lparr>trace_ring := (trace_ring w)[trace_idx w :=
           put 0 (take 63 (cstr event) @ [0]) (trace_ring w ! trace_idx w)],
       trace_idx := (trace_idx w + 1) mod TRACE_MAX,
       trace_count := (if trace_count w < TRACE_MAX then trace_count w + 1 else trace_count w)\<rparr>"

text \<open>The rows the \<open>trace\<close> command prints, in its order.\<close>

definition trace_rows_shown :: "'a kworld_scheme \<Rightarrow> bytes list" where
  "trace_rows_shown w =
     (let start = (if trace_idx w < trace_count w then 0 else trace_idx w)
      in map (\<lambda>i. trace_ring w ! ((start + i) mod TRACE_MAX)) [0..<trace_count w])"

definition cmd_trace :: "'a kworld_scheme \<Rightarrow> 'a kworld_scheme" where
  "cmd_trace w =
     fold (\<lambda>row v. kputc 10 (kprint_color row COLOR_LIGHT_GREEN (kprint (str '' > '') v)))
       (trace_rows_shown w)
       (kprint_color (str ''--- RECENT INTERNAL KERNEL EVENTS ---'' @ [10]) COLOR_LIGHT_CYAN w)"

definition trace_ok :: "'a kworld_scheme \<Rightarrow> bool" where
  "trace_ok w \<longleftrightarrow> length (trace_ring w) = TRACE_MAX \<and>
     (\<forall>row \<in> set (trace_ring w). length row = 64) \<and>
     trace_idx w < TRACE_MAX \<and> trace_count w \<le> TRACE_MAX \<and>
     (trace_count w < TRACE_MAX \<longrightarrow> trace_idx w = trace_count w)"

text \<open>The abstract content of the ring: the recorded events, oldest first.\<close>

definition trace_events :: "'a kworld_scheme \<Rightarrow> bytes list" where
  "trace_events w = map cstr (ring_view (trace_ring w) (trace_idx w) (trace_count w))"

section \<open>The ring of trace.c\<close>

text \<open>
  \<open>trace_buffer[32][64]\<close> is one block of 2048 bytes, so a row that overflows runs into the next
  one.  \<open>None\<close> is a write (or a search for the NUL) that leaves the block.
\<close>

record tracebuf =
  trace_buffer :: bytes
  trace_head :: nat
  tb_count :: nat

abbreviation (input) MAX_TRACE_ENTRIES :: nat where "MAX_TRACE_ENTRIES \<equiv> 32"
abbreviation (input) MAX_TRACE_LENGTH :: nat where "MAX_TRACE_LENGTH \<equiv> 64"

definition trace_strcat :: "nat \<Rightarrow> bytes \<Rightarrow> bytes \<Rightarrow> bytes option" where
  "trace_strcat dest src buf =
     (let d = dest + length (cstr (drop dest buf)) in
      if d + length (cstr src) < length buf
      then Some (put d (cstr src @ [0]) buf) else None)"

definition trace_strcpy :: "nat \<Rightarrow> bytes \<Rightarrow> bytes \<Rightarrow> bytes option" where
  "trace_strcpy dest src buf =
     (if dest < length buf then trace_strcat dest src (buf[dest := 0]) else None)"

definition kernel_trace :: "bytes \<Rightarrow> bytes \<Rightarrow> tracebuf \<Rightarrow> tracebuf option" where
  "kernel_trace module message t =
     (let e = trace_head t * MAX_TRACE_LENGTH in
      case trace_strcpy e (str ''['') (trace_buffer t) of None \<Rightarrow> None | Some b1 \<Rightarrow>
      case trace_strcat e module b1 of None \<Rightarrow> None | Some b2 \<Rightarrow>
      case trace_strcat e (str ''] '') b2 of None \<Rightarrow> None | Some b3 \<Rightarrow>
      case trace_strcat e message b3 of None \<Rightarrow> None | Some b4 \<Rightarrow>
        Some (t\<lparr>trace_buffer := b4,
                trace_head := (trace_head t + 1) mod MAX_TRACE_ENTRIES,
                tb_count := (if tb_count t < MAX_TRACE_ENTRIES then tb_count t + 1
                             else tb_count t)\<rparr>))"

definition init_trace :: "tracebuf \<Rightarrow> tracebuf option" where
  "init_trace t =
     kernel_trace (str ''BOOT'') (str ''Trace system initialized'')
       (t\<lparr>trace_head := 0, tb_count := 0,
          trace_buffer := fold (\<lambda>i b. b[i * MAX_TRACE_LENGTH := 0]) [0..<MAX_TRACE_ENTRIES]
            (trace_buffer t)\<rparr>)"

text \<open>The order in which \<open>dump_trace_log\<close> visits the rows (it prints none of them).\<close>

definition dump_trace_log :: "tracebuf \<Rightarrow> nat list" where
  "dump_trace_log t =
     (let start = (if tb_count t = MAX_TRACE_ENTRIES then trace_head t else 0)
      in map (\<lambda>i. (start + i) mod MAX_TRACE_ENTRIES) [0..<tb_count t])"

definition trace_row :: "bytes \<Rightarrow> nat \<Rightarrow> bytes" where
  "trace_row buf i = get (i * MAX_TRACE_LENGTH) MAX_TRACE_LENGTH buf"

definition trace_entry :: "bytes \<Rightarrow> bytes \<Rightarrow> bytes" where
  "trace_entry module message = str ''['' @ cstr module @ str ''] '' @ cstr message"

definition tracebuf_ok :: "tracebuf \<Rightarrow> bool" where
  "tracebuf_ok t \<longleftrightarrow> length (trace_buffer t) = MAX_TRACE_ENTRIES * MAX_TRACE_LENGTH \<and>
     trace_head t < MAX_TRACE_ENTRIES \<and> tb_count t \<le> MAX_TRACE_ENTRIES \<and>
     (tb_count t < MAX_TRACE_ENTRIES \<longrightarrow> trace_head t = tb_count t)"

section \<open>Facts on sys\_trace\<close>

lemma cstr_row:
  "length row = 64 \<Longrightarrow> cstr (put 0 (take 63 (cstr e) @ [0]) row) = take 63 (cstr e)"
  using cstr_no_zero [of e]
  by (auto simp: put_def intro!: cstr_append_zero dest: in_set_takeD)

lemma sys_trace_ok: "trace_ok w \<Longrightarrow> trace_ok (sys_trace e w)"
  by (auto simp: trace_ok_def sys_trace_def mod_Suc dest!: set_update_subset_insert [THEN subsetD])

lemma trace_events_sys_trace:
  assumes "trace_ok w"
  shows "trace_events (sys_trace e w) = last_n TRACE_MAX (trace_events w @ [take 63 (cstr e)])"
proof -
  let ?row = "put 0 (take 63 (cstr e) @ [0]) (trace_ring w ! trace_idx w)"
  have "length (trace_ring w ! trace_idx w) = 64" using assms by (auto simp: trace_ok_def)
  then have row: "cstr ?row = take 63 (cstr e)" by (rule cstr_row)
  have "ring_view ((trace_ring w)[trace_idx w := ?row]) ((trace_idx w + 1) mod length (trace_ring w))
          (if trace_count w < length (trace_ring w) then trace_count w + 1 else trace_count w)
        = last_n (length (trace_ring w)) (ring_view (trace_ring w) (trace_idx w) (trace_count w) @ [?row])"
    using assms by (intro ring_view_push) (auto simp: trace_ok_def)
  then have "ring_view (trace_ring (sys_trace e w)) (trace_idx (sys_trace e w)) (trace_count (sys_trace e w))
        = last_n 12 (ring_view (trace_ring w) (trace_idx w) (trace_count w) @ [?row])"
    using assms by (simp add: trace_ok_def sys_trace_def)
  then have "trace_events (sys_trace e w) = last_n 12 (map cstr (ring_view (trace_ring w) (trace_idx w) (trace_count w) @ [?row]))"
    by (simp only: trace_events_def last_n_map)
  then show ?thesis by (simp add: row trace_events_def)
qed

lemma length_trace_events: "length (trace_events w) = trace_count w"
  by (simp add: trace_events_def)

interpretation st: bounded_ring trace_ok "\<lambda>e. True" sys_trace trace_events
  "\<lambda>e. take 63 (cstr e)" TRACE_MAX
proof unfold_locales
  show "length (trace_events w) \<le> 12" if "trace_ok w" for w :: "'a kworld_scheme"
    using that by (simp add: length_trace_events trace_ok_def)
qed (simp_all add: sys_trace_ok trace_events_sys_trace)

lemma sys_trace_frame [frame_simps, simp]:
  "con (sys_trace e w) = con w"
  "total_bytes_allocated (sys_trace e w) = total_bytes_allocated w"
  "total_disk_reads (sys_trace e w) = total_disk_reads w"
  "total_disk_writes (sys_trace e w) = total_disk_writes w"
  "kworld.more (sys_trace e w) = kworld.more w"
  by (simp_all add: sys_trace_def)

section \<open>What the trace command shows\<close>

text \<open>
  \<open>trace_idx < trace_count\<close> selects the wrong start: before the ring has wrapped the command
  starts behind the last recorded row, afterwards it starts at row 0.
\<close>

lemma trace_rows_shown_not_full:
  assumes "trace_ok w" and "trace_count w < TRACE_MAX"
  shows "trace_rows_shown w
    = map (\<lambda>i. trace_ring w ! ((trace_count w + i) mod TRACE_MAX)) [0..<trace_count w]"
  using assms by (simp add: trace_rows_shown_def trace_ok_def)

lemma trace_rows_shown_full:
  assumes "trace_ok w" and "trace_count w = TRACE_MAX"
  shows "trace_rows_shown w = trace_ring w"
proof -
  have "trace_rows_shown w = map (\<lambda>i. trace_ring w ! (i mod 12)) [0..<12]"
    using assms by (simp add: trace_rows_shown_def trace_ok_def)
  also have "\<dots> = map (\<lambda>i. trace_ring w ! i) [0..<length (trace_ring w)]"
    using assms by (intro map_cong) (auto simp: trace_ok_def)
  finally show ?thesis by (simp only: map_nth)
qed

section \<open>Facts on the ring of trace.c\<close>

lemma put_put_append:
  assumes "off + length a + length b \<le> length dst" and "length z \<le> length b"
  shows "put (off + length a) b (put off (a @ z) dst) = put off (a @ b) dst"
proof (rule nth_equalityI)
  show "length (put (off + length a) b (put off (a @ z) dst)) = length (put off (a @ b) dst)"
    using assms by (simp add: put_def)
next
  fix i
  assume "i < length (put (off + length a) b (put off (a @ z) dst))"
  then have "i < length dst" using assms by simp
  then show "put (off + length a) b (put off (a @ z) dst) ! i = put off (a @ b) dst ! i"
    using assms by (auto simp: nth_put nth_append)
qed

lemma trace_strcat_append:
  assumes "0 \<notin> set acc" and "e + length acc + length (cstr src) < length buf"
  shows "trace_strcat e src (put e (acc @ [0]) buf) = Some (put e (acc @ cstr src @ [0]) buf)"
proof -
  have "drop e (put e (acc @ [0]) buf) = acc @ 0 # drop (e + length acc + 1) buf"
    using assms(2) by (simp add: put_def)
  then have "cstr (drop e (put e (acc @ [0]) buf)) = acc"
    using assms(1) by (simp add: cstr_append_zero)
  then show ?thesis
    using assms(2) put_put_append [of e acc "cstr src @ [0]" buf "[0]"]
    by (simp add: trace_strcat_def Let_def)
qed

lemma trace_strcpy_bracket:
  assumes "e + 1 < length buf"
  shows "trace_strcpy e (str ''['') buf = Some (put e (str ''['' @ [0]) buf)"
proof -
  have "buf[e := 0] = put e ([] @ [0]) buf"
    using assms by (simp add: put_def upd_conv_take_nth_drop)
  moreover have c: "cstr (str ''['') = str ''[''" by (rule cstr_id) (simp add: str_def)
  ultimately show ?thesis
    using assms trace_strcat_append [of "[]" e "str ''[''" buf]
    by (simp add: trace_strcpy_def c)
qed

lemma bracket_no_zero: "0 \<notin> set (str ''['')" "0 \<notin> set (str ''] '')"
  by (simp_all add: str_def)

lemma kernel_trace_flat:
  assumes "trace_head t * 64 + length (trace_entry m msg) < length (trace_buffer t)"
  shows "kernel_trace m msg t = Some (t\<lparr>
     trace_buffer := put (trace_head t * 64) (trace_entry m msg @ [0]) (trace_buffer t),
     trace_head := (trace_head t + 1) mod 32,
     tb_count := (if tb_count t < 32 then tb_count t + 1 else tb_count t)\<rparr>)"
proof -
  let ?e = "trace_head t * 64" and ?b = "trace_buffer t"
  note nz = bracket_no_zero cstr_no_zero
  have s: "cstr (str ''] '') = str ''] ''" using bracket_no_zero by (simp add: cstr_id)
  have len: "?e + (3 + length (cstr m) + length (cstr msg)) < length ?b"
    using assms by (simp add: trace_entry_def)
  have 1: "trace_strcpy ?e (str ''['') ?b = Some (put ?e (str ''['' @ [0]) ?b)"
    using len by (intro trace_strcpy_bracket) simp
  have 2: "trace_strcat ?e m (put ?e (str ''['' @ [0]) ?b)
      = Some (put ?e ((str ''['' @ cstr m) @ [0]) ?b)"
    using len nz trace_strcat_append [of "str ''[''" ?e m ?b] by simp
  have 3: "trace_strcat ?e (str ''] '') (put ?e ((str ''['' @ cstr m) @ [0]) ?b)
      = Some (put ?e ((str ''['' @ cstr m @ str ''] '') @ [0]) ?b)"
    using len nz trace_strcat_append [of "str ''['' @ cstr m" ?e "str ''] ''" ?b] by (simp add: s)
  have 4: "trace_strcat ?e msg (put ?e ((str ''['' @ cstr m @ str ''] '') @ [0]) ?b)
      = Some (put ?e (trace_entry m msg @ [0]) ?b)"
    using len nz trace_strcat_append [of "str ''['' @ cstr m @ str ''] ''" ?e msg ?b]
    by (simp add: trace_entry_def)
  show ?thesis by (simp only: kernel_trace_def Let_def 1 2 3 4 option.case)
qed

definition tracebuf_rows :: "tracebuf \<Rightarrow> bytes list" where
  "tracebuf_rows t = map (trace_row (trace_buffer t)) [0..<MAX_TRACE_ENTRIES]"

definition tracebuf_events :: "tracebuf \<Rightarrow> bytes list" where
  "tracebuf_events t = map cstr (ring_view (tracebuf_rows t) (trace_head t) (tb_count t))"

text \<open>An event whose text fits a row, and \<open>kernel_trace\<close> on such events as a total operation.\<close>

definition event_fits :: "bytes \<times> bytes \<Rightarrow> bool" where
  "event_fits e \<longleftrightarrow> length (trace_entry (fst e) (snd e)) < MAX_TRACE_LENGTH"

definition kernel_trace_step :: "bytes \<times> bytes \<Rightarrow> tracebuf \<Rightarrow> tracebuf" where
  "kernel_trace_step e t =
     (case kernel_trace (fst e) (snd e) t of Some t' \<Rightarrow> t' | None \<Rightarrow> t)"

lemma trace_entry_no_zero: "0 \<notin> set (trace_entry m msg)"
  by (simp add: trace_entry_def bracket_no_zero cstr_no_zero)

lemma kernel_trace_fits:
  assumes "tracebuf_ok t" and "event_fits e"
  shows "kernel_trace (fst e) (snd e) t = Some (t\<lparr>
     trace_buffer := put (trace_head t * 64) (trace_entry (fst e) (snd e) @ [0]) (trace_buffer t),
     trace_head := (trace_head t + 1) mod 32,
     tb_count := (if tb_count t < 32 then tb_count t + 1 else tb_count t)\<rparr>)"
  using assms by (intro kernel_trace_flat) (auto simp: tracebuf_ok_def event_fits_def)

lemma tracebuf_ok_step:
  "tracebuf_ok t \<Longrightarrow> event_fits e \<Longrightarrow> tracebuf_ok (kernel_trace_step e t)"
  by (auto simp: kernel_trace_step_def kernel_trace_fits) (auto simp: tracebuf_ok_def event_fits_def mod_Suc)

lemma tracebuf_rows_put:
  assumes "length buf = 2048" and "h < 32" and "length e < 64" and "0 \<notin> set e" and "i < 32"
  shows "cstr (trace_row (put (h * 64) (e @ [0]) buf) i) = (if i = h then e else cstr (trace_row buf i))"
proof (cases "i = h")
  case True
  have n: "64 - length e = Suc (63 - length e)" using assms(3) by simp
  have "trace_row (put (h * 64) (e @ [0]) buf) h = e @ 0 # get (h * 64 + length e + 1) (63 - length e) buf"
    using assms by (auto simp: n trace_row_def get_def put_def)
  with True show ?thesis using assms(4) by (simp add: cstr_append_zero)
next
  case False
  then have "i * 64 + 64 \<le> h * 64 \<or> h * 64 + length (e @ [0]) \<le> i * 64"
    using assms(3) by auto
  then have "trace_row (put (h * 64) (e @ [0]) buf) i = trace_row buf i"
    unfolding trace_row_def using assms by (intro get_put_other) auto
  with False show ?thesis by simp
qed

lemma tracebuf_events_step:
  assumes "tracebuf_ok t" and "event_fits e"
  shows "tracebuf_events (kernel_trace_step e t)
    = last_n 32 (tracebuf_events t @ [trace_entry (fst e) (snd e)])"
proof -
  let ?t = "kernel_trace_step e t" and ?x = "trace_entry (fst e) (snd e)"
  have lt: "trace_head t < 32" "tb_count t \<le> 32" "length (trace_buffer t) = 2048"
    using assms(1) by (simp_all add: tracebuf_ok_def)
  have rows: "map cstr (tracebuf_rows ?t) = (map cstr (tracebuf_rows t))[trace_head t := ?x]"
    using assms lt trace_entry_no_zero
    by (intro nth_equalityI)
      (auto simp: tracebuf_rows_def kernel_trace_step_def kernel_trace_fits event_fits_def
        tracebuf_rows_put nth_list_update)
  have view: "tracebuf_events u = ring_view (map cstr (tracebuf_rows u)) (trace_head u) (tb_count u)"
    if "tracebuf_ok u" for u
    using that by (auto simp: tracebuf_events_def ring_view_def tracebuf_rows_def)
  have "tracebuf_events ?t = ring_view ((map cstr (tracebuf_rows t))[trace_head t := ?x])
      ((trace_head t + 1) mod length (map cstr (tracebuf_rows t)))
      (if tb_count t < length (map cstr (tracebuf_rows t)) then tb_count t + 1 else tb_count t)"
    using view [OF tracebuf_ok_step [OF assms]] rows assms
    by (simp add: kernel_trace_step_def kernel_trace_fits tracebuf_rows_def)
  also have "\<dots> = last_n (length (map cstr (tracebuf_rows t)))
      (ring_view (map cstr (tracebuf_rows t)) (trace_head t) (tb_count t) @ [?x])"
    using lt by (intro ring_view_push) (simp_all add: tracebuf_rows_def)
  also have "\<dots> = last_n 32 (tracebuf_events t @ [?x])"
    using view [OF assms(1)] by (simp add: tracebuf_rows_def)
  finally show ?thesis .
qed

interpretation tb: bounded_ring tracebuf_ok event_fits kernel_trace_step tracebuf_events
  "\<lambda>e. trace_entry (fst e) (snd e)" MAX_TRACE_ENTRIES
proof unfold_locales
  show "length (tracebuf_events t) \<le> 32" if "tracebuf_ok t" for t
    using that by (simp add: tracebuf_events_def tracebuf_ok_def)
qed (simp_all add: tracebuf_ok_step tracebuf_events_step)

end
