(* ===== verification/Pmm.thy ===== *)
theory Pmm
  imports Bitmap Ktrace
begin

text \<open>
  The physical memory manager (mm/pmm.c): a bitmap of 8192 page frames, built from the memory map
  the boot loader leaves in memory, with first-fit allocation above the 4 MB reserve.

  \<open>unsigned int\<close> values are naturals with the wrap-around at \<open>2 ^ 32\<close> written out.  The memory
  the boot loader wrote is the parameter \<open>mem\<close>, a function from an address to the 32-bit word
  stored there.  The walk over the memory map follows sizes found in that memory, so it need not
  end; it is a partial function.
\<close>

section \<open>State\<close>

abbreviation (input) PAGE_SIZE :: nat where "PAGE_SIZE \<equiv> 4096"
abbreviation (input) PMM_CONSERVATIVE_RESERVE_FRAMES :: nat where
  "PMM_CONSERVATIVE_RESERVE_FRAMES \<equiv> 1024"

record pmm =
  memory_bitmap :: bytes
  max_blocks :: nat
  used_blocks :: nat

record multiboot_info =
  mbi_flags :: u32
  mem_lower :: nat
  mem_upper :: nat
  mmap_length :: nat
  mmap_addr :: nat

record multiboot_memory_map =
  me_size :: nat
  base_addr_low :: nat
  base_addr_high :: nat
  length_low :: nat
  length_high :: nat
  me_type :: nat

text \<open>The values the globals have when the kernel image is loaded.\<close>

definition pmm0 :: pmm where
  "pmm0 = \<lparr>memory_bitmap = replicate 1024 0, max_blocks = 8192, used_blocks = 0\<rparr>"

definition word_at :: "(nat \<Rightarrow> u32) \<Rightarrow> nat \<Rightarrow> nat" where
  "word_at mem a = unat (mem (a mod W32))"

definition mbi_at :: "(nat \<Rightarrow> u32) \<Rightarrow> nat \<Rightarrow> multiboot_info" where
  "mbi_at mem p =
     \<lparr>mbi_flags = mem p, mem_lower = word_at mem (p + 4), mem_upper = word_at mem (p + 8),
      mmap_length = word_at mem (p + 44), mmap_addr = word_at mem (p + 48)\<rparr>"

definition mmap_entry_at :: "(nat \<Rightarrow> u32) \<Rightarrow> nat \<Rightarrow> multiboot_memory_map" where
  "mmap_entry_at mem a =
     \<lparr>me_size = word_at mem a, base_addr_low = word_at mem (a + 4), base_addr_high = word_at mem (a + 8),
      length_low = word_at mem (a + 12), length_high = word_at mem (a + 16), me_type = word_at mem (a + 20)\<rparr>"

section \<open>Operations\<close>

definition pmm_set_bit :: "nat \<Rightarrow> pmm \<Rightarrow> pmm" where
  "pmm_set_bit b p = p\<lparr>memory_bitmap := set_bit_at b (memory_bitmap p)\<rparr>"

definition pmm_clear_bit :: "nat \<Rightarrow> pmm \<Rightarrow> pmm" where
  "pmm_clear_bit b p = p\<lparr>memory_bitmap := clear_bit_at b (memory_bitmap p)\<rparr>"

definition pmm_test_bit :: "pmm \<Rightarrow> nat \<Rightarrow> bool" where
  "pmm_test_bit p b = test_bit_at (memory_bitmap p) b"

definition mark_frames :: "nat \<Rightarrow> nat \<Rightarrow> bool \<Rightarrow> pmm \<Rightarrow> pmm" where
  "mark_frames base len used p =
     (let en = (base + len) mod W32;
          last_frame = ((en + PAGE_SIZE - 1) mod W32) div PAGE_SIZE
      in fold (if used then pmm_set_bit else pmm_clear_bit) [base div PAGE_SIZE..<min last_frame (max_blocks p)] p)"

definition reserve_conservative_region :: "pmm \<Rightarrow> pmm" where
  "reserve_conservative_region p =
     fold pmm_set_bit [0..<min PMM_CONSERVATIVE_RESERVE_FRAMES (max_blocks p)] p"

definition recount_used_blocks :: "pmm \<Rightarrow> pmm" where
  "recount_used_blocks p =
     p\<lparr>used_blocks := fold (\<lambda>i n. if pmm_test_bit p i then (n + 1) mod W32 else n) [0..<max_blocks p] 0\<rparr>"

text \<open>The inner loop over the bits of byte \<open>i\<close>: \<open>None\<close> if it runs through, else the result returned.\<close>

fun find_in_byte :: "pmm \<Rightarrow> nat \<Rightarrow> nat list \<Rightarrow> int option" where
  "find_in_byte p i [] = None"
| "find_in_byte p i (j # js) =
     (let b = i * 8 + j in
      if b < PMM_CONSERVATIVE_RESERVE_FRAMES then find_in_byte p i js
      else if b \<ge> max_blocks p then Some (- 1)
      else if \<not> pmm_test_bit p b then Some (int b)
      else find_in_byte p i js)"

fun find_in_bytes :: "pmm \<Rightarrow> nat list \<Rightarrow> int" where
  "find_in_bytes p [] = - 1"
| "find_in_bytes p (i # is) =
     (if memory_bitmap p ! i \<noteq> 0xFF
      then case find_in_byte p i [0..<8] of Some r \<Rightarrow> r | None \<Rightarrow> find_in_bytes p is
      else find_in_bytes p is)"

definition find_first_free_block :: "pmm \<Rightarrow> int" where
  "find_first_free_block p =
     find_in_bytes p [PMM_CONSERVATIVE_RESERVE_FRAMES div 8..<max_blocks p div 8]"

definition bitmap_mark_all_used :: "pmm \<Rightarrow> pmm" where
  "bitmap_mark_all_used p = p\<lparr>memory_bitmap := replicate 1024 0xFF\<rparr>"

text \<open>The loop \<open>while (mmap_addr < mmap_end)\<close>, with the loop body as a parameter.\<close>

partial_function (option) mmap_walk ::
    "(nat \<Rightarrow> u32) \<Rightarrow> (multiboot_memory_map \<Rightarrow> 'a \<Rightarrow> 'a) \<Rightarrow> nat \<Rightarrow> nat \<Rightarrow> 'a \<Rightarrow> 'a option" where
  "mmap_walk mem body a en acc =
     (if a < en
      then let e = mmap_entry_at mem a
           in mmap_walk mem body ((a + (me_size e + 4)) mod W32) en (body e acc)
      else Some acc)"

definition compute_max_blocks_from_mmap :: "(nat \<Rightarrow> u32) \<Rightarrow> multiboot_info \<Rightarrow> nat option" where
  "compute_max_blocks_from_mmap mem mbi =
     (case (if bit (mbi_flags mbi) 6
            then mmap_walk mem
              (\<lambda>e highest.
                 let region_end = (base_addr_low e + length_low e) mod W32
                 in if base_addr_high e = 0 \<and> region_end > highest then region_end else highest)
              (mmap_addr mbi) ((mmap_addr mbi + mmap_length mbi) mod W32) 0
            else if bit (mbi_flags mbi) 0
            then Some (((mem_lower mbi + mem_upper mbi + 1024) * 1024) mod W32)
            else Some 0) of
        None \<Rightarrow> None
      | Some highest \<Rightarrow>
          let blocks = highest div PAGE_SIZE;
              blocks = (if blocks < PMM_CONSERVATIVE_RESERVE_FRAMES
                        then PMM_CONSERVATIVE_RESERVE_FRAMES else blocks)
          in Some (if blocks > 8192 then 8192 else blocks))"

text \<open>\<open>None\<close>: the loop over the kernel's frames writes behind the end of the bitmap.\<close>

definition pmm_init :: "nat \<Rightarrow> nat \<Rightarrow> pmm \<Rightarrow> pmm option" where
  "pmm_init kernel_size available_memory p =
     (let p1 = bitmap_mark_all_used p;
          mb = ((available_memory * 1024) mod W32) div PAGE_SIZE;
          p2 = p1\<lparr>max_blocks := (if mb > 8192 then 8192 else mb)\<rparr>;
          p3 = fold pmm_clear_bit [0..<max_blocks p2] p2;
          kernel_blocks = ((kernel_size * 1024) mod W32) div PAGE_SIZE
      in if kernel_blocks > 8192 then None
         else Some (recount_used_blocks (reserve_conservative_region (fold pmm_set_bit [0..<kernel_blocks] p3))))"

definition pmm_init_from_mmap :: "(nat \<Rightarrow> u32) \<Rightarrow> nat \<Rightarrow> pmm \<Rightarrow> pmm option" where
  "pmm_init_from_mmap mem multiboot_info_ptr p =
     (if multiboot_info_ptr = 0 then Some p
      else let mbi = mbi_at mem multiboot_info_ptr; p1 = bitmap_mark_all_used p in
        case compute_max_blocks_from_mmap mem mbi of
          None \<Rightarrow> None
        | Some mb \<Rightarrow>
            let p2 = p1\<lparr>max_blocks := mb\<rparr> in
            case (if bit (mbi_flags mbi) 6
                  then mmap_walk mem
                    (\<lambda>e q. if base_addr_high e = 0
                           then mark_frames (base_addr_low e) (length_low e) (me_type e \<noteq> 1) q else q)
                    (mmap_addr mbi) ((mmap_addr mbi + mmap_length mbi) mod W32) p2
                  else if bit (mbi_flags mbi) 0
                  then Some (mark_frames 0 (((mem_lower mbi + mem_upper mbi + 1024) * 1024) mod W32) False p2)
                  else Some p2) of
              None \<Rightarrow> None
            | Some p3 \<Rightarrow> Some (recount_used_blocks (reserve_conservative_region p3)))"

definition pmm_alloc_block :: "pmm \<Rightarrow> nat \<times> pmm" where
  "pmm_alloc_block p =
     (if used_blocks p \<ge> max_blocks p then (0, p)
      else let frame = find_first_free_block p in
        if frame = - 1 then (0, p)
        else ((nat frame * PAGE_SIZE) mod W32,
              (pmm_set_bit (nat frame) p)\<lparr>used_blocks := (used_blocks p + 1) mod W32\<rparr>))"

definition pmm_free_block :: "nat \<Rightarrow> pmm \<Rightarrow> pmm" where
  "pmm_free_block physical p =
     (let frame = physical div PAGE_SIZE in
      if frame < PMM_CONSERVATIVE_RESERVE_FRAMES then p
      else if frame \<ge> max_blocks p then p
      else (pmm_clear_bit frame p)\<lparr>used_blocks := (used_blocks p + W32 - 1) mod W32\<rparr>)"

definition pmm_dump_info :: "pmm \<Rightarrow> 'a kworld_scheme \<Rightarrow> 'a kworld_scheme" where
  "pmm_dump_info p w =
     kprint (str '')'' @ [10] @ str ''Bitmap capacity   : 32 MB (8192 frames)'' @ [10])
     (kprint_int (int (PMM_CONSERVATIVE_RESERVE_FRAMES - 1)) (kprint (str '' MB (frames 0-'')
     (kprint_int (int (PMM_CONSERVATIVE_RESERVE_FRAMES * PAGE_SIZE div (1024 * 1024)))
     (kprint (str '' MB'' @ [10] @ str ''Low reserve       : '')
     (kprint_int (int ((max_blocks p * PAGE_SIZE) mod W32 div (1024 * 1024)))
     (kprint ([10] @ str ''Tracked RAM       : '')
     (kprint_int (sint (of_nat (max_blocks p) - of_nat (used_blocks p) :: u32)) (kprint ([10] @ str ''Free frames       : '')
     (kprint_int (sint (of_nat (used_blocks p) :: u32)) (kprint ([10] @ str ''Used frames       : '')
     (kprint_int (int (max_blocks p)) (kprint (str ''Tracked frames    : '')
     (kprint_color (str ''--- PHYSICAL MEMORY MANAGER ---'' @ [10]) 0x0E w)))))))))))))"

section \<open>Invariant and abstraction\<close>

definition pmm_ok :: "pmm \<Rightarrow> bool" where
  "pmm_ok p \<longleftrightarrow> length (memory_bitmap p) = 1024 \<and> max_blocks p \<le> 8192 \<and>
     used_blocks p = card {i. i < max_blocks p \<and> pmm_test_bit p i} \<and>
     (\<forall>i<8192. i < PMM_CONSERVATIVE_RESERVE_FRAMES \<or> max_blocks p \<le> i \<longrightarrow> pmm_test_bit p i)"

definition frame_pool :: "pmm \<Rightarrow> nat set" where
  "frame_pool p = (\<lambda>f. f * PAGE_SIZE) ` {PMM_CONSERVATIVE_RESERVE_FRAMES..<8 * (max_blocks p div 8)}"

definition frame_used :: "pmm \<Rightarrow> nat set" where
  "frame_used p = (\<lambda>f. f * PAGE_SIZE) ` {f. f < 8192 \<and> pmm_test_bit p f}"

text \<open>The frames a memory-map entry covers, as \<open>mark_frames\<close> counts them.\<close>

definition covers :: "multiboot_memory_map \<Rightarrow> nat \<Rightarrow> bool" where
  "covers e f \<longleftrightarrow> base_addr_high e = 0 \<and> base_addr_low e div PAGE_SIZE \<le> f \<and>
     f < (((base_addr_low e + length_low e) mod W32 + PAGE_SIZE - 1) mod W32) div PAGE_SIZE"

text \<open>The memory map in memory between two addresses, as the list of its entries.\<close>

fun mmap_laid :: "(nat \<Rightarrow> u32) \<Rightarrow> nat \<Rightarrow> nat \<Rightarrow> multiboot_memory_map list \<Rightarrow> bool" where
  "mmap_laid mem a en [] \<longleftrightarrow> \<not> a < en"
| "mmap_laid mem a en (e # es) \<longleftrightarrow>
     a < en \<and> mmap_entry_at mem a = e \<and> mmap_laid mem ((a + (me_size e + 4)) mod W32) en es"

section \<open>Lemmas\<close>

lemma pmm_bit_simps [simp]:
  "max_blocks (pmm_set_bit i p) = max_blocks p" "used_blocks (pmm_set_bit i p) = used_blocks p"
  "max_blocks (pmm_clear_bit i p) = max_blocks p" "used_blocks (pmm_clear_bit i p) = used_blocks p"
  "length (memory_bitmap (pmm_set_bit i p)) = length (memory_bitmap p)"
  "length (memory_bitmap (pmm_clear_bit i p)) = length (memory_bitmap p)"
  by (simp_all add: pmm_set_bit_def pmm_clear_bit_def)

lemma fold_pmm_set_bit:
  "fold pmm_set_bit is p = p\<lparr>memory_bitmap := fold set_bit_at is (memory_bitmap p)\<rparr>"
  by (induction "is" arbitrary: p) (simp_all add: pmm_set_bit_def)

lemma fold_pmm_clear_bit:
  "fold pmm_clear_bit is p = p\<lparr>memory_bitmap := fold clear_bit_at is (memory_bitmap p)\<rparr>"
  by (induction "is" arbitrary: p) (simp_all add: pmm_clear_bit_def)

lemma mark_frames_spec:
  assumes "length (memory_bitmap p) = 1024" and "max_blocks p \<le> 8192"
  shows "f < 8192 \<Longrightarrow> pmm_test_bit (mark_frames base len used p) f =
      (if base div PAGE_SIZE \<le> f \<and> f < (((base + len) mod W32 + PAGE_SIZE - 1) mod W32) div PAGE_SIZE \<and>
          f < max_blocks p
       then used else pmm_test_bit p f)"
    and "max_blocks (mark_frames base len used p) = max_blocks p"
    and "length (memory_bitmap (mark_frames base len used p)) = 1024"
  using assms
  by (auto simp: mark_frames_def Let_def fold_pmm_set_bit fold_pmm_clear_bit pmm_test_bit_def
      fold_set_bits fold_clear_bits)

lemma reserve_spec:
  assumes "length (memory_bitmap p) = 1024" and "max_blocks p \<le> 8192"
  shows "f < 8192 \<Longrightarrow> pmm_test_bit (reserve_conservative_region p) f \<longleftrightarrow>
      f < PMM_CONSERVATIVE_RESERVE_FRAMES \<and> f < max_blocks p \<or> pmm_test_bit p f"
    and "max_blocks (reserve_conservative_region p) = max_blocks p"
    and "length (memory_bitmap (reserve_conservative_region p)) = 1024"
  using assms
  by (auto simp: reserve_conservative_region_def fold_pmm_set_bit pmm_test_bit_def fold_set_bits)

lemma recount_fold:
  "n + k < W32 \<Longrightarrow> fold (\<lambda>i n. if P i then (n + 1) mod W32 else n) [0..<k] n = n + card {i. i < k \<and> P i}"
proof (induction k)
  case (Suc k)
  have le: "card {i. i < k \<and> P i} \<le> k"
    by (metis (no_types, lifting) card_Collect_less_nat card_mono finite_Collect_less_nat mem_Collect_eq subsetI)
  have "{i. i < Suc k \<and> P i} = (if P k then insert k {i. i < k \<and> P i} else {i. i < k \<and> P i})"
    by (auto simp: less_Suc_eq)
  then show ?case using Suc le by simp
qed simp

lemma recount_ok:
  assumes "length (memory_bitmap p) = 1024" and "max_blocks p \<le> 8192"
    and "\<forall>i<8192. i < PMM_CONSERVATIVE_RESERVE_FRAMES \<or> max_blocks p \<le> i \<longrightarrow> pmm_test_bit p i"
  shows "pmm_ok (recount_used_blocks p)"
proof -
  have "pmm_test_bit (recount_used_blocks p) = pmm_test_bit p"
    by (simp add: recount_used_blocks_def pmm_test_bit_def fun_eq_iff)
  then show ?thesis using assms recount_fold [of 0 "max_blocks p" "pmm_test_bit p"]
    by (simp add: pmm_ok_def recount_used_blocks_def)
qed

lemma find_in_byte_spec:
  assumes "PMM_CONSERVATIVE_RESERVE_FRAMES \<le> i * 8" and "\<forall>j \<in> set js. i * 8 + j < max_blocks p"
  shows "find_in_byte p i js = map_option (\<lambda>j. int (i * 8 + j)) (find (\<lambda>j. \<not> pmm_test_bit p (i * 8 + j)) js)"
  using assms by (induction js) (auto simp: Let_def)

lemma byte_bits: "j < 8 \<Longrightarrow> pmm_test_bit p (i * 8 + j) = bit (memory_bitmap p ! i) j"
  by (simp add: pmm_test_bit_def test_bit_at_bit)

lemma find_in_bytes_spec:
  assumes "\<forall>i \<in> set is. PMM_CONSERVATIVE_RESERVE_FRAMES \<le> i * 8 \<and> i * 8 + 8 \<le> max_blocks p"
  shows "(find_in_bytes p is = - 1 \<and> (\<forall>i \<in> set is. \<forall>j<8. pmm_test_bit p (i * 8 + j))) \<or>
    (\<exists>i \<in> set is. \<exists>j<8. find_in_bytes p is = int (i * 8 + j) \<and> \<not> pmm_test_bit p (i * 8 + j))"
  using assms
proof (induction "is")
  case (Cons i "is")
  have fb: "find_in_byte p i [0..<8] =
      map_option (\<lambda>j. int (i * 8 + j)) (find (\<lambda>j. \<not> pmm_test_bit p (i * 8 + j)) [0..<8])"
    using Cons.prems by (intro find_in_byte_spec) auto
  show ?case
  proof (cases "find (\<lambda>j. \<not> pmm_test_bit p (i * 8 + j)) [0..<8]")
    case None
    then have all: "\<forall>j<8. pmm_test_bit p (i * 8 + j)" by (auto simp: find_None_iff)
    then have "find_in_bytes p (i # is) = find_in_bytes p is" using fb None by simp
    then show ?thesis using Cons all by auto
  next
    case (Some j)
    then have j: "j < 8" "\<not> pmm_test_bit p (i * 8 + j)" by (auto simp: find_Some_iff)
    then have "memory_bitmap p ! i \<noteq> 0xFF" using byte_bits byte_full by blast
    then show ?thesis using j fb Some by auto
  qed
qed simp

lemma find_first_free_block_spec:
  "(find_first_free_block p = - 1 \<and>
      (\<forall>f. PMM_CONSERVATIVE_RESERVE_FRAMES \<le> f \<and> f < 8 * (max_blocks p div 8) \<longrightarrow> pmm_test_bit p f)) \<or>
   (\<exists>f. find_first_free_block p = int f \<and> PMM_CONSERVATIVE_RESERVE_FRAMES \<le> f \<and>
      f < 8 * (max_blocks p div 8) \<and> \<not> pmm_test_bit p f)"
proof -
  let ?is = "[128..<max_blocks p div 8]"
  have "\<forall>i \<in> set ?is. 1024 \<le> i * 8 \<and> i * 8 + 8 \<le> max_blocks p" by auto
  from find_in_bytes_spec [OF this]
  consider (full) "find_in_bytes p ?is = - 1" "\<forall>i \<in> set ?is. \<forall>j<8. pmm_test_bit p (i * 8 + j)"
    | (free) i j where "i \<in> set ?is" "j < 8" "find_in_bytes p ?is = int (i * 8 + j)"
      "\<not> pmm_test_bit p (i * 8 + j)" by blast
  then show ?thesis
  proof cases
    case full
    have "pmm_test_bit p f" if "1024 \<le> f" "f < 8 * (max_blocks p div 8)" for f
    proof -
      have "128 \<le> f div 8" "f div 8 < max_blocks p div 8" using that by linarith+
      then show ?thesis using full(2) [rule_format, of "f div 8" "f mod 8"] by auto
    qed
    then show ?thesis using full(1) by (simp add: find_first_free_block_def)
  next
    case free
    then show ?thesis by (intro disjI2 exI [of _ "i * 8 + j"]) (auto simp: find_first_free_block_def)
  qed
qed

section \<open>The frame allocator is a unit pool\<close>

lemma card_frames_insert:
  assumes "f < m" and "\<not> P f"
  shows "card {i. i < m \<and> (i = f \<or> P i)} = Suc (card {i. i < (m :: nat) \<and> P i})"
proof -
  have "{i. i < m \<and> (i = f \<or> P i)} = insert f {i. i < m \<and> P i}" using assms by auto
  then show ?thesis using assms by simp
qed

lemma pmm_ok_set:
  assumes "pmm_ok p" and "PMM_CONSERVATIVE_RESERVE_FRAMES \<le> f" and "f < max_blocks p" and "\<not> pmm_test_bit p f"
  shows "pmm_ok ((pmm_set_bit f p)\<lparr>used_blocks := (used_blocks p + 1) mod W32\<rparr>)"
    and "frame_used ((pmm_set_bit f p)\<lparr>used_blocks := n\<rparr>) = insert (f * PAGE_SIZE) (frame_used p)"
proof -
  let ?q = "\<lambda>n. (pmm_set_bit f p)\<lparr>used_blocks := n\<rparr>"
  have len: "length (memory_bitmap p) = 1024" and mb: "max_blocks p \<le> 8192" using assms(1) by (auto simp: pmm_ok_def)
  have t: "pmm_test_bit (?q n) i \<longleftrightarrow> i = f \<or> pmm_test_bit p i" if "i < 8192" for i n
    using that len mb assms(3) by (simp add: pmm_test_bit_def pmm_set_bit_def test_set_bit_at)
  then have "{i. i < max_blocks p \<and> pmm_test_bit (?q n) i} =
      {i. i < max_blocks p \<and> (i = f \<or> pmm_test_bit p i)}" for n
    using mb by auto
  then have c: "card {i. i < max_blocks p \<and> pmm_test_bit (?q n) i} = Suc (used_blocks p)" for n
    using card_frames_insert [of f "max_blocks p" "pmm_test_bit p"] assms by (simp add: pmm_ok_def)
  have "card {i. i < max_blocks p \<and> pmm_test_bit p i} \<le> card {i. i < max_blocks p}"
    by (rule card_mono) auto
  then have "used_blocks p \<le> 8192" using assms(1) mb by (simp add: pmm_ok_def)
  then show "pmm_ok (?q ((used_blocks p + 1) mod W32))"
    using c t len mb assms(1) by (simp add: pmm_ok_def)
  show "frame_used (?q n) = insert (f * PAGE_SIZE) (frame_used p)"
    using t [of _ n] assms(3) mb by (auto simp: frame_used_def)
qed

lemma dec_wrap: "n < W32 \<Longrightarrow> (n + W32 - 1) mod W32 = (if n = 0 then W32 - 1 else n - 1)"
  by (simp add: mod_if)

lemma pmm_ok_used_lt: "pmm_ok p \<Longrightarrow> used_blocks p < W32"
proof -
  assume "pmm_ok p"
  moreover have "card {i. i < max_blocks p \<and> pmm_test_bit p i} \<le> card {i. i < max_blocks p}"
    by (rule card_mono) auto
  ultimately show ?thesis by (simp add: pmm_ok_def)
qed

lemma pmm_ok_clear:
  assumes "pmm_ok p" and "PMM_CONSERVATIVE_RESERVE_FRAMES \<le> f" and "f < max_blocks p" and "pmm_test_bit p f"
  shows "pmm_ok ((pmm_clear_bit f p)\<lparr>used_blocks := (used_blocks p + W32 - 1) mod W32\<rparr>)"
    and "frame_used ((pmm_clear_bit f p)\<lparr>used_blocks := n\<rparr>) = frame_used p - {f * PAGE_SIZE}"
proof -
  let ?q = "\<lambda>n. (pmm_clear_bit f p)\<lparr>used_blocks := n\<rparr>"
  have len: "length (memory_bitmap p) = 1024" and mb: "max_blocks p \<le> 8192" using assms(1) by (auto simp: pmm_ok_def)
  have t: "pmm_test_bit (?q n) i \<longleftrightarrow> i \<noteq> f \<and> pmm_test_bit p i" if "i < 8192" for i n
    using that len mb assms(3) by (simp add: pmm_test_bit_def pmm_clear_bit_def test_clear_bit_at)
  let ?S = "{i. i < max_blocks p \<and> pmm_test_bit p i}"
  have "{i. i < max_blocks p \<and> pmm_test_bit (?q n) i} = ?S - {f}" for n
    using t mb by auto
  then have c: "card {i. i < max_blocks p \<and> pmm_test_bit (?q n) i} = used_blocks p - 1" for n
    using assms by (simp add: pmm_ok_def)
  have "f \<in> ?S" using assms by simp
  then have "0 < card ?S" using card_gt_0_iff by fastforce
  then have "0 < used_blocks p" using assms(1) by (auto simp: pmm_ok_def)
  then have "(used_blocks p + W32 - 1) mod W32 = used_blocks p - 1"
    using dec_wrap [OF pmm_ok_used_lt [OF assms(1)]] by simp
  then show "pmm_ok (?q ((used_blocks p + W32 - 1) mod W32))"
    using c t len mb assms(1,2,3) by (auto simp: pmm_ok_def)
  show "frame_used (?q n) = frame_used p - {f * PAGE_SIZE}"
    using t [of _ n] by (auto simp: frame_used_def)
qed

lemma pmm_alloc_cases:
  assumes "pmm_ok p"
  shows "(pmm_alloc_block p = (0, p) \<and> frame_pool p \<subseteq> frame_used p) \<or>
    (\<exists>f. PMM_CONSERVATIVE_RESERVE_FRAMES \<le> f \<and> f < 8 * (max_blocks p div 8) \<and> \<not> pmm_test_bit p f \<and>
      pmm_alloc_block p =
        (f * PAGE_SIZE, (pmm_set_bit f p)\<lparr>used_blocks := (used_blocks p + 1) mod W32\<rparr>))"
proof (cases "used_blocks p \<ge> max_blocks p")
  case True
  let ?S = "{i. i < max_blocks p \<and> pmm_test_bit p i}"
  have "card {i. i < max_blocks p} \<le> card ?S" using True assms by (simp add: pmm_ok_def)
  then have "?S = {i. i < max_blocks p}" by (intro card_seteq) auto
  then have "\<forall>f<max_blocks p. pmm_test_bit p f" by blast
  then have "frame_pool p \<subseteq> frame_used p"
    using assms by (auto simp: frame_pool_def frame_used_def pmm_ok_def)
  then show ?thesis using True by (simp add: pmm_alloc_block_def)
next
  case False
  have mb: "max_blocks p \<le> 8192" using assms by (simp add: pmm_ok_def)
  from find_first_free_block_spec [of p] show ?thesis
  proof (elim disjE exE conjE)
    fix f
    assume f: "find_first_free_block p = int f" "1024 \<le> f" "f < 8 * (max_blocks p div 8)" "\<not> pmm_test_bit p f"
    then have "(f * 4096) mod 4294967296 = f * 4096" using mb by simp
    then show ?thesis using f False by (intro disjI2 exI [of _ f]) (simp add: pmm_alloc_block_def)
  next
    assume "find_first_free_block p = - 1"
      "\<forall>f. 1024 \<le> f \<and> f < 8 * (max_blocks p div 8) \<longrightarrow> pmm_test_bit p f"
    then show ?thesis using False mb by (auto simp: pmm_alloc_block_def frame_pool_def frame_used_def)
  qed
qed

lemma frame_pool_simps [simp]:
  "frame_pool ((pmm_set_bit f p)\<lparr>used_blocks := n\<rparr>) = frame_pool p"
  "frame_pool ((pmm_clear_bit f p)\<lparr>used_blocks := n\<rparr>) = frame_pool p"
  by (simp_all add: frame_pool_def)

interpretation pm: unit_pool pmm_ok frame_pool frame_used pmm_alloc_block
  "\<lambda>u p. Some (pmm_free_block u p)"
proof (unfold_locales, goal_cases)
  case (1 s)
  then show ?case by (simp add: frame_pool_def)
next
  case (2 s)
  then show ?case by (auto simp: frame_pool_def)
next
  case (3 s s')
  then show ?case using pmm_alloc_cases [OF 3(1)] by auto
next
  case (4 s u s')
  then obtain f where f: "1024 \<le> f" "f < 8 * (max_blocks s div 8)" "\<not> pmm_test_bit s f" "u = f * 4096"
    "s' = (pmm_set_bit f s)\<lparr>used_blocks := (used_blocks s + 1) mod W32\<rparr>"
    using pmm_alloc_cases [OF 4(1)] by auto
  then have "f < max_blocks s" by linarith
  then show ?case using pmm_ok_set [OF 4(1) f(1) _ f(3)] f by (auto simp: frame_pool_def frame_used_def)
next
  case (5 s u)
  then obtain f where f: "u = f * 4096" "1024 \<le> f" "f < 8 * (max_blocks s div 8)" "pmm_test_bit s f"
    by (auto simp: frame_pool_def frame_used_def)
  then have "f < max_blocks s" by linarith
  then show ?case using pmm_ok_clear [OF 5(1) f(2) _ f(4)] f by (simp add: pmm_free_block_def Let_def)
qed

section \<open>Building the bitmap\<close>

lemma mmap_walk_fold: "mmap_laid mem a en es \<Longrightarrow> mmap_walk mem body a en acc = Some (fold body es acc)"
  by (induction mem a en es arbitrary: acc rule: mmap_laid.induct)
    (simp_all add: mmap_walk.simps Let_def)

definition highest_end :: "multiboot_memory_map list \<Rightarrow> nat" where
  "highest_end es =
     fold max (map (\<lambda>e. (base_addr_low e + length_low e) mod W32) (filter (\<lambda>e. base_addr_high e = 0) es)) 0"

lemma highest_fold:
  "fold (\<lambda>e highest. let region_end = (base_addr_low e + length_low e) mod W32
     in if base_addr_high e = 0 \<and> region_end > highest then region_end else highest) es h =
   fold max (map (\<lambda>e. (base_addr_low e + length_low e) mod W32) (filter (\<lambda>e. base_addr_high e = 0) es)) h"
proof (induction es arbitrary: h)
  case (Cons e es)
  have "max h ((base_addr_low e + length_low e) mod W32) = h"
    if "\<not> (base_addr_low e + length_low e) mod W32 > h" using that by (simp add: max_def)
  with Cons show ?case by (auto simp: Let_def max.absorb1 max.absorb2 max.commute)
qed simp

lemma compute_max_blocks_mmap:
  assumes "bit (mbi_flags mbi) 6"
    and "mmap_laid mem (mmap_addr mbi) ((mmap_addr mbi + mmap_length mbi) mod W32) es"
  shows "compute_max_blocks_from_mmap mem mbi = Some (min 8192 (max 1024 (highest_end es div PAGE_SIZE)))"
  unfolding compute_max_blocks_from_mmap_def mmap_walk_fold [OF assms(2)] highest_fold highest_end_def [symmetric]
  using assms(1) by (simp add: Let_def)

abbreviation (input) mark_entry :: "multiboot_memory_map \<Rightarrow> pmm \<Rightarrow> pmm" where
  "mark_entry e q \<equiv> if base_addr_high e = 0
     then mark_frames (base_addr_low e) (length_low e) (me_type e \<noteq> 1) q else q"

lemma mark_entries:
  assumes "length (memory_bitmap p) = 1024" and "max_blocks p \<le> 8192"
  shows "f < 8192 \<Longrightarrow> pmm_test_bit (fold (\<lambda>e q. mark_entry e q) es p) f =
      (if f < max_blocks p
       then case find (\<lambda>e. covers e f) (rev es) of Some e \<Rightarrow> me_type e \<noteq> 1 | None \<Rightarrow> pmm_test_bit p f
       else pmm_test_bit p f)"
    and "max_blocks (fold (\<lambda>e q. mark_entry e q) es p) = max_blocks p"
    and "length (memory_bitmap (fold (\<lambda>e q. mark_entry e q) es p)) = 1024"
  using assms
proof (induction es rule: rev_induct)
  case (snoc e es)
  {
    case 1
    with snoc show ?case by (simp add: mark_frames_spec covers_def)
  next
    case 2
    with snoc show ?case by (simp add: mark_frames_spec)
  next
    case 3
    with snoc show ?case by (simp add: mark_frames_spec)
  }
qed simp_all

lemma mark_all_spec:
  "length (memory_bitmap (bitmap_mark_all_used p)) = 1024"
  "f < 8192 \<Longrightarrow> pmm_test_bit ((bitmap_mark_all_used p)\<lparr>max_blocks := m\<rparr>) f"
  by (simp_all add: bitmap_mark_all_used_def pmm_test_bit_def test_replicate_full)

lemma finish_init:
  assumes "length (memory_bitmap p) = 1024" and "max_blocks p \<le> 8192"
    and "\<forall>i<8192. max_blocks p \<le> i \<longrightarrow> pmm_test_bit p i"
  shows "pmm_ok (recount_used_blocks (reserve_conservative_region p))"
    and "max_blocks (recount_used_blocks (reserve_conservative_region p)) = max_blocks p"
    and "f < 8192 \<Longrightarrow> pmm_test_bit (recount_used_blocks (reserve_conservative_region p)) f \<longleftrightarrow>
      f < PMM_CONSERVATIVE_RESERVE_FRAMES \<or> pmm_test_bit p f"
proof -
  show "pmm_ok (recount_used_blocks (reserve_conservative_region p))"
    using assms by (intro recount_ok) (auto simp: reserve_spec)
  show "max_blocks (recount_used_blocks (reserve_conservative_region p)) = max_blocks p"
    using assms by (simp add: recount_used_blocks_def reserve_spec)
  show "pmm_test_bit (recount_used_blocks (reserve_conservative_region p)) f \<longleftrightarrow>
      f < 1024 \<or> pmm_test_bit p f" if "f < 8192"
  proof -
    have "pmm_test_bit (recount_used_blocks (reserve_conservative_region p)) f =
        pmm_test_bit (reserve_conservative_region p) f"
      by (simp add: recount_used_blocks_def pmm_test_bit_def)
    then show ?thesis using assms that by (auto simp: reserve_spec)
  qed
qed

section \<open>Properties of the physical memory manager\<close>

lemma pmm_init_from_mmap_spec:
  assumes "ptr \<noteq> 0" and "bit (mbi_flags (mbi_at mem ptr)) 6"
    and "mmap_laid mem (mmap_addr (mbi_at mem ptr))
           ((mmap_addr (mbi_at mem ptr) + mmap_length (mbi_at mem ptr)) mod W32) es"
  shows "\<exists>q. pmm_init_from_mmap mem ptr p = Some q \<and> pmm_ok q \<and>
    max_blocks q = min 8192 (max 1024 (highest_end es div PAGE_SIZE)) \<and>
    (\<forall>f<max_blocks q. \<not> pmm_test_bit q f \<longleftrightarrow> PMM_CONSERVATIVE_RESERVE_FRAMES \<le> f \<and>
       (case find (\<lambda>e. covers e f) (rev es) of Some e \<Rightarrow> me_type e = 1 | None \<Rightarrow> False))"
proof -
  define mb where "mb = min 8192 (max 1024 (highest_end es div PAGE_SIZE))"
  then have mb: "mb \<le> 8192" by simp
  let ?p2 = "(bitmap_mark_all_used p)\<lparr>max_blocks := mb\<rparr>"
  let ?p3 = "fold (\<lambda>e q. mark_entry e q) es ?p2"
  have p2: "length (memory_bitmap ?p2) = 1024" "max_blocks ?p2 \<le> 8192" using mark_all_spec(1) mb by simp_all
  have f: "pmm_test_bit ?p2 f" if "f < 8192" for f by (rule mark_all_spec(2) [OF that])
  have t: "pmm_test_bit ?p3 f = (f < mb \<longrightarrow>
      (case find (\<lambda>e. covers e f) (rev es) of Some e \<Rightarrow> me_type e \<noteq> 1 | None \<Rightarrow> True))"
    if "f < 8192" for f
    using mark_entries(1) [OF p2 that, of es] f [OF that] by (simp split: option.splits)
  have p3: "length (memory_bitmap ?p3) = 1024" "max_blocks ?p3 = mb"
    using mark_entries(2,3) [OF p2, of es] by simp_all
  have "\<forall>i<8192. max_blocks ?p3 \<le> i \<longrightarrow> pmm_test_bit ?p3 i" using t p3(2) by simp
  note fin = finish_init [OF p3(1) _ this]
  have "pmm_init_from_mmap mem ptr p = Some (recount_used_blocks (reserve_conservative_region ?p3))"
    using assms(1,2) compute_max_blocks_mmap [OF assms(2,3)]
    by (simp add: pmm_init_from_mmap_def Let_def mb_def mmap_walk_fold [OF assms(3)])
  moreover have "\<not> pmm_test_bit (recount_used_blocks (reserve_conservative_region ?p3)) f \<longleftrightarrow> 1024 \<le> f \<and>
      (case find (\<lambda>e. covers e f) (rev es) of Some e \<Rightarrow> me_type e = 1 | None \<Rightarrow> False)" if "f < mb" for f
    using fin(3) [of f] t [of f] that mb p3(2) by (auto split: option.splits)
  ultimately show ?thesis using fin(1,2) p3(2) mb by (auto simp: mb_def)
qed

text \<open>
  C15: from a memory map that is laid out as the list \<open>es\<close> the manager always builds a consistent
  state.  It tracks the frames up to the highest region end, but at least 1024 and at most 8192 of
  them; a tracked frame is free exactly when it lies above the 4 MB reserve and the last entry of
  the map that covers it is of type 1.
\<close>

theorem pmm_init_from_mmap_correct:
  assumes "ptr \<noteq> 0" and "bit (mbi_flags (mbi_at mem ptr)) 6"
    and "mmap_laid mem (mmap_addr (mbi_at mem ptr))
           ((mmap_addr (mbi_at mem ptr) + mmap_length (mbi_at mem ptr)) mod W32) es"
  shows "\<exists>q. pmm_init_from_mmap mem ptr p = Some q \<and> pmm_ok q \<and>
    max_blocks q = min 8192 (max 1024 (highest_end es div PAGE_SIZE)) \<and>
    (\<forall>f<max_blocks q. \<not> pmm_test_bit q f \<longleftrightarrow> PMM_CONSERVATIVE_RESERVE_FRAMES \<le> f \<and>
       (case find (\<lambda>e. covers e f) (rev es) of Some e \<Rightarrow> me_type e = 1 | None \<Rightarrow> False))"
  by (rule pmm_init_from_mmap_spec [OF assms])

text \<open>A memory map with 640 KB and 31 MB of RAM and a reserved region in between.\<close>

definition sample_mmap :: "nat \<Rightarrow> u32" where
  "sample_mmap a =
     (if a = 0x1000 then 64 else if a = 0x102C then 72 else if a = 0x1030 then 0x2000
      else if a \<in> {0x2000, 0x2018, 0x2030} then 20
      else if a = 0x200C then 0xA0000 else if a = 0x2014 then 1
      else if a = 0x201C then 0xA0000 else if a = 0x2024 then 0x60000 else if a = 0x202C then 2
      else if a = 0x2034 then 0x100000 else if a = 0x203C then 0x1F00000 else if a = 0x2044 then 1
      else 0)"

definition sample_entries :: "multiboot_memory_map list" where
  "sample_entries =
    [\<lparr>me_size = 20, base_addr_low = 0, base_addr_high = 0, length_low = 0xA0000, length_high = 0, me_type = 1\<rparr>,
     \<lparr>me_size = 20, base_addr_low = 0xA0000, base_addr_high = 0, length_low = 0x60000, length_high = 0, me_type = 2\<rparr>,
     \<lparr>me_size = 20, base_addr_low = 0x100000, base_addr_high = 0, length_low = 0x1F00000, length_high = 0, me_type = 1\<rparr>]"

lemma sample_mmap_laid:
  "bit (mbi_flags (mbi_at sample_mmap 0x1000)) 6"
  "mmap_laid sample_mmap (mmap_addr (mbi_at sample_mmap 0x1000))
     ((mmap_addr (mbi_at sample_mmap 0x1000) + mmap_length (mbi_at sample_mmap 0x1000)) mod W32) sample_entries"
proof -
  have mbi: "mmap_addr (mbi_at sample_mmap 0x1000) = 0x2000" "mmap_length (mbi_at sample_mmap 0x1000) = 72"
    "mbi_flags (mbi_at sample_mmap 0x1000) = 64"
    by (simp_all add: mbi_at_def word_at_def sample_mmap_def)
  show "bit (mbi_flags (mbi_at sample_mmap 0x1000)) 6"
    unfolding mbi using bit_exp_iff [of 6 6, where ?'a = "32 word"] by simp
  show "mmap_laid sample_mmap (mmap_addr (mbi_at sample_mmap 0x1000))
     ((mmap_addr (mbi_at sample_mmap 0x1000) + mmap_length (mbi_at sample_mmap 0x1000)) mod W32) sample_entries"
    unfolding mbi sample_entries_def by (simp add: mmap_entry_at_def word_at_def sample_mmap_def)
qed

theorem pmm_init_from_mmap_correct_witness:
  "\<exists>q. pmm_init_from_mmap sample_mmap 0x1000 pmm0 = Some q \<and> pmm_ok q \<and>
     max_blocks q = 8192 \<and> \<not> pmm_test_bit q 5000 \<and> pmm_test_bit q 100"
proof -
  have h: "highest_end sample_entries = 0x2000000" by (simp add: highest_end_def sample_entries_def)
  obtain q where q: "pmm_init_from_mmap sample_mmap 0x1000 pmm0 = Some q" "pmm_ok q"
    "max_blocks q = min 8192 (max 1024 (highest_end sample_entries div PAGE_SIZE))"
    "\<forall>f<max_blocks q. \<not> pmm_test_bit q f \<longleftrightarrow> 1024 \<le> f \<and>
       (case find (\<lambda>e. covers e f) (rev sample_entries) of Some e \<Rightarrow> me_type e = 1 | None \<Rightarrow> False)"
    using pmm_init_from_mmap_correct [OF _ sample_mmap_laid, of pmm0] by auto
  have mb: "max_blocks q = 8192" using q(3) h by simp
  have "\<not> pmm_test_bit q 5000" using q(4) [rule_format, of 5000] mb by (simp add: covers_def sample_entries_def)
  moreover have "pmm_test_bit q 100" using q(4) [rule_format, of 100] mb by simp
  ultimately show ?thesis using q(1,2) mb by blast
qed

lemma pmm_init_spec:
  assumes "((kernel_size * 1024) mod W32) div PAGE_SIZE \<le> 8192"
  shows "\<exists>q. pmm_init kernel_size available_memory p = Some q \<and> pmm_ok q \<and>
    max_blocks q = min 8192 (((available_memory * 1024) mod W32) div PAGE_SIZE) \<and>
    (\<forall>f<8192. pmm_test_bit q f \<longleftrightarrow> f < PMM_CONSERVATIVE_RESERVE_FRAMES \<or>
       f < ((kernel_size * 1024) mod W32) div PAGE_SIZE \<or> max_blocks q \<le> f)"
proof -
  define mb where "mb = min 8192 (((available_memory * 1024) mod W32) div PAGE_SIZE)"
  define kb where "kb = ((kernel_size * 1024) mod W32) div PAGE_SIZE"
  have mb: "mb \<le> 8192" and kb: "kb \<le> 8192" using assms by (simp_all add: mb_def kb_def)
  let ?p2 = "(bitmap_mark_all_used p)\<lparr>max_blocks := mb\<rparr>"
  let ?p3 = "fold pmm_set_bit [0..<kb] (fold pmm_clear_bit [0..<mb] ?p2)"
  have len: "length (memory_bitmap ?p2) = 1024" using mark_all_spec(1) by simp
  have f: "pmm_test_bit ?p2 f" if "f < 8192" for f by (rule mark_all_spec(2) [OF that])
  have p3: "length (memory_bitmap ?p3) = 1024" "max_blocks ?p3 = mb"
    using len mb kb by (simp_all add: fold_pmm_set_bit fold_pmm_clear_bit fold_set_bits fold_clear_bits)
  have t: "pmm_test_bit ?p3 f \<longleftrightarrow> f < kb \<or> mb \<le> f" if "f < 8192" for f
    using len mb kb f [OF that] that
    by (auto simp: fold_pmm_set_bit fold_pmm_clear_bit fold_set_bits fold_clear_bits pmm_test_bit_def)
  have "\<forall>i<8192. max_blocks ?p3 \<le> i \<longrightarrow> pmm_test_bit ?p3 i" using t p3(2) by simp
  note fin = finish_init [OF p3(1) _ this]
  have "(if 8192 < ((available_memory * 1024) mod W32) div PAGE_SIZE then 8192
      else ((available_memory * 1024) mod W32) div PAGE_SIZE) = mb" by (simp add: mb_def)
  then have "pmm_init kernel_size available_memory p = Some (recount_used_blocks (reserve_conservative_region ?p3))"
    using kb unfolding pmm_init_def Let_def kb_def [symmetric] by simp
  then show ?thesis using fin p3(2) t mb unfolding mb_def [symmetric] kb_def [symmetric] by auto
qed

lemma pmm_16mb:
  "\<exists>q. pmm_init 0 16384 pmm0 = Some q \<and> pmm_ok q \<and> max_blocks q = 4096 \<and>
     (\<forall>f<8192. pmm_test_bit q f \<longleftrightarrow> f < 1024 \<or> 4096 \<le> f)"
  using pmm_init_spec [of 0 16384 pmm0] by auto





text \<open>
  C18: freeing a frame that is in use undoes its allocation; freeing a frame that is already free
  decrements the counter all the same, so that it no longer counts the frames in use.
\<close>

theorem pmm_free_block_cases:
  assumes "pmm_ok p" and "u \<in> frame_pool p"
  shows "(u \<in> frame_used p \<longrightarrow> pmm_ok (pmm_free_block u p) \<and>
      frame_used (pmm_free_block u p) = frame_used p - {u} \<and>
      fst (pmm_alloc_block (pmm_free_block u p)) \<noteq> 0) \<and>
    (u \<notin> frame_used p \<longrightarrow> \<not> pmm_ok (pmm_free_block u p))"
proof (intro conjI impI)
  assume u: "u \<in> frame_used p"
  show "pmm_ok (pmm_free_block u p)" "frame_used (pmm_free_block u p) = frame_used p - {u}"
    using pm.release_unit [OF assms u] by auto
  show "fst (pmm_alloc_block (pmm_free_block u p)) \<noteq> 0"
    using pm.release_then_alloc [OF assms u] by simp
next
  assume "u \<notin> frame_used p"
  with assms obtain f where f: "u = f * 4096" "1024 \<le> f" "f < max_blocks p" "\<not> pmm_test_bit p f"
    by (fastforce simp: frame_pool_def frame_used_def pmm_ok_def)
  let ?q = "pmm_free_block u p"
  have len: "length (memory_bitmap p) = 1024" "max_blocks p \<le> 8192" using assms(1) by (auto simp: pmm_ok_def)
  have q: "max_blocks ?q = max_blocks p" "used_blocks ?q = (used_blocks p + W32 - 1) mod W32"
    "memory_bitmap ?q = clear_bit_at f (memory_bitmap p)"
    using f by (simp_all add: pmm_free_block_def Let_def pmm_clear_bit_def)
  have "{i. i < max_blocks p \<and> pmm_test_bit ?q i} = {i. i < max_blocks p \<and> pmm_test_bit p i}"
    using f q(3) len by (auto simp: pmm_test_bit_def test_clear_bit_at)
  then have "card {i. i < max_blocks ?q \<and> pmm_test_bit ?q i} = used_blocks p"
    using q(1) assms(1) by (simp add: pmm_ok_def)
  moreover have "used_blocks ?q \<noteq> used_blocks p"
    unfolding q(2) dec_wrap [OF pmm_ok_used_lt [OF assms(1)]] by auto
  ultimately show "\<not> pmm_ok ?q" by (simp add: pmm_ok_def)
qed

theorem pmm_free_block_cases_witness:
  "\<exists>p. pmm_init 0 16384 pmm0 = Some p \<and> pmm_ok p \<and> \<not> pmm_ok (pmm_free_block 0x800000 p)"
proof -
  obtain p where p: "pmm_init 0 16384 pmm0 = Some p" "pmm_ok p" "max_blocks p = 4096"
    "\<forall>f<8192. pmm_test_bit p f \<longleftrightarrow> f < 1024 \<or> 4096 \<le> f" using pmm_16mb by blast
  have "0x800000 = 2048 * (4096 :: nat)" by simp
  then have "0x800000 \<in> frame_pool p" unfolding frame_pool_def p(3) by (intro image_eqI [of _ _ 2048]) auto
  moreover have "0x800000 \<notin> frame_used p" using p(4) by (auto simp: frame_used_def)
  ultimately show ?thesis using pmm_free_block_cases [OF p(2)] p(1,2) by blast
qed

end
