(* ===== verification/KHeap.thy ===== *)
theory KHeap
  imports Ktrace
begin

text \<open>
  The kernel heap of kernel.c, section 1 (\<open>init_heap\<close>, \<open>kmalloc\<close>, \<open>kfree\<close>, the
  \<open>heap_get_\<dots>\<close> statistics) and the \<open>meminfo\<close> report of meminfo.c.

  Block headers are a store from addresses to \<open>block_meta\<close> values; a pointer is an address, 0
  is NULL, and unsigned arithmetic is taken modulo \<open>2 ^ 32\<close>.  The list walks are partial
  functions: \<open>None\<close> is a walk that does not end or that follows a pointer to a place where no
  header was ever written.  The payload bytes of the blocks are not part of this state.

  The invariant \<open>heap_inv\<close> says that the chain of headers tiles the array \<open>kernel_heap\<close>
  exactly; the chain operations are shown to compute first-fit allocation and coalescing on the
  list of blocks, and the locale \<open>allocator\<close> is the contract the clients of the heap rely on.
\<close>

section \<open>State\<close>

abbreviation (input) HEAP_SIZE :: nat where "HEAP_SIZE \<equiv> 1048576"
abbreviation (input) META :: nat where "META \<equiv> 12"

record block_meta =
  bm_size :: nat
  bm_free :: bool
  bm_next :: nat

record heap =
  blocks :: "nat \<Rightarrow> block_meta option"
  heap_head :: nat
  kernel_heap :: nat

record hworld = kworld +
  kheap :: heap

section \<open>Operations\<close>

definition init_heap :: "heap \<Rightarrow> heap" where
  "init_heap h =
     h\<lparr>heap_head := kernel_heap h,
       blocks := (blocks h)(kernel_heap h \<mapsto>
         \<lparr>bm_size = HEAP_SIZE - META, bm_free = True, bm_next = 0\<rparr>)\<rparr>"

definition hworld0 :: "(int \<Rightarrow> u8) \<Rightarrow> nat \<Rightarrow> hworld" where
  "hworld0 vram base = kworld.extend (kworld0 vram)
     \<lparr>kheap = init_heap \<lparr>blocks = \<lambda>_. None, heap_head = 0, kernel_heap = base\<rparr>\<rparr>"

text \<open>The search loop of \<open>kmalloc\<close>: the block it takes, or 0, and the heap after the split.\<close>

partial_function (option) kmalloc_loop :: "nat \<Rightarrow> nat \<Rightarrow> heap \<Rightarrow> (nat \<times> heap) option" where
  "kmalloc_loop sz cur h =
     (if cur = 0 then Some (0, h)
      else case blocks h cur of
        None \<Rightarrow> None
      | Some b \<Rightarrow>
          if bm_free b \<and> bm_size b \<ge> sz then
            (if bm_size b > (sz + META + 4) mod W32 then
               let new_block = (cur + META + sz) mod W32 in
               Some (cur, h\<lparr>blocks := (blocks h)
                 (new_block \<mapsto> \<lparr>bm_size = (bm_size b - sz + W32 - META) mod W32,
                               bm_free = True, bm_next = bm_next b\<rparr>,
                  cur \<mapsto> \<lparr>bm_size = sz, bm_free = False, bm_next = new_block\<rparr>)\<rparr>)
             else Some (cur, h\<lparr>blocks := (blocks h)(cur \<mapsto> b\<lparr>bm_free := False\<rparr>)\<rparr>))
          else kmalloc_loop sz (bm_next b) h)"

definition kmalloc :: "nat \<Rightarrow> 'a hworld_scheme \<Rightarrow> (nat \<times> 'a hworld_scheme) option" where
  "kmalloc sz w =
     (case kmalloc_loop sz (heap_head (kheap w)) (kheap w) of
        None \<Rightarrow> None
      | Some (cur, h) \<Rightarrow>
          if cur = 0 then Some (0, w)
          else Some ((cur + META) mod W32,
                 sys_trace (str ''[MEM] Dynamic Heap Allocation'')
                   (w\<lparr>kheap := h, total_bytes_allocated := total_bytes_allocated w + of_nat sz\<rparr>)))"

partial_function (option) kfree_loop :: "nat \<Rightarrow> heap \<Rightarrow> heap option" where
  "kfree_loop cur h =
     (if cur = 0 then Some h
      else case blocks h cur of
        None \<Rightarrow> None
      | Some b \<Rightarrow>
          if bm_free b \<and> bm_next b \<noteq> 0 then
            (case blocks h (bm_next b) of
               None \<Rightarrow> None
             | Some n \<Rightarrow>
                 if bm_free n
                 then kfree_loop cur (h\<lparr>blocks := (blocks h)(cur \<mapsto>
                        b\<lparr>bm_size := (bm_size b + (META + bm_size n)) mod W32, bm_next := bm_next n\<rparr>)\<rparr>)
                 else kfree_loop (bm_next b) h)
          else kfree_loop (bm_next b) h)"

definition kfree :: "nat \<Rightarrow> 'a hworld_scheme \<Rightarrow> 'a hworld_scheme option" where
  "kfree ptr w =
     (if ptr = 0 then Some w
      else let h = kheap w; block = (ptr + W32 - META) mod W32 in
        case blocks h block of
          None \<Rightarrow> None
        | Some b \<Rightarrow>
            map_option (\<lambda>h'. w\<lparr>kheap := h'\<rparr>)
              (kfree_loop (heap_head h) (h\<lparr>blocks := (blocks h)(block \<mapsto> b\<lparr>bm_free := True\<rparr>)\<rparr>)))"

text \<open>The five statistics are the same walk with different loop bodies.\<close>

partial_function (option) heap_walk ::
    "(block_meta \<Rightarrow> nat \<Rightarrow> nat) \<Rightarrow> nat \<Rightarrow> nat \<Rightarrow> heap \<Rightarrow> nat option" where
  "heap_walk body acc cur h =
     (if cur = 0 then Some acc
      else case blocks h cur of
        None \<Rightarrow> None
      | Some b \<Rightarrow> heap_walk body (body b acc) (bm_next b) h)"

definition heap_get_total_size :: nat where
  "heap_get_total_size = HEAP_SIZE"

definition heap_get_used_size :: "heap \<Rightarrow> nat option" where
  "heap_get_used_size h =
     heap_walk (\<lambda>b used. if \<not> bm_free b then (used + bm_size b) mod W32 else used) 0 (heap_head h) h"

definition heap_get_free_size :: "heap \<Rightarrow> nat option" where
  "heap_get_free_size h =
     heap_walk (\<lambda>b free_sz. if bm_free b then (free_sz + bm_size b) mod W32 else free_sz) 0 (heap_head h) h"

definition heap_get_alloc_count :: "heap \<Rightarrow> nat option" where
  "heap_get_alloc_count h =
     heap_walk (\<lambda>b count. if \<not> bm_free b then (count + 1) mod W32 else count) 0 (heap_head h) h"

definition heap_get_free_count :: "heap \<Rightarrow> nat option" where
  "heap_get_free_count h =
     heap_walk (\<lambda>b count. if bm_free b then (count + 1) mod W32 else count) 0 (heap_head h) h"

definition heap_get_largest_free_block :: "heap \<Rightarrow> nat option" where
  "heap_get_largest_free_block h =
     heap_walk (\<lambda>b max_val. if bm_free b \<and> bm_size b > max_val then bm_size b else max_val) 0
       (heap_head h) h"

definition meminfo_line :: "string \<Rightarrow> nat \<Rightarrow> string \<Rightarrow> 'a kworld_scheme \<Rightarrow> 'a kworld_scheme" where
  "meminfo_line label n unit w =
     kputc 10 (kprint (str unit) (con_update (print_number (of_nat n)) (kprint (str label) w)))"

definition dump_meminfo :: "'a hworld_scheme \<Rightarrow> 'a hworld_scheme option" where
  "dump_meminfo w =
     (case (heap_get_used_size (kheap w), heap_get_free_size (kheap w), heap_get_alloc_count (kheap w),
            heap_get_free_count (kheap w), heap_get_largest_free_block (kheap w)) of
        (Some used, Some fr, Some na, Some nf, Some lg) \<Rightarrow>
          Some (kputc 10 (kprint_hex 0x00100000 (kprint (str ''Kernel Base       : 0x'')
            (meminfo_line ''Largest Free Block: '' lg '' bytes''
            (meminfo_line ''Free Blocks       : '' nf ''''
            (meminfo_line ''Active Allocs     : '' na ''''
            (meminfo_line ''Heap Free         : '' fr '' bytes''
            (meminfo_line ''Heap Used         : '' used '' bytes''
            (meminfo_line ''Heap Total        : '' heap_get_total_size '' bytes'' w)))))))))
      | _ \<Rightarrow> None)"

section \<open>The list of blocks\<close>

type_synonym blk = "nat \<times> nat \<times> bool"

fun chain :: "(nat \<Rightarrow> block_meta option) \<Rightarrow> nat \<Rightarrow> blk list \<Rightarrow> bool" where
  "chain m p [] \<longleftrightarrow> p = 0"
| "chain m p ((a, s, f) # bs) \<longleftrightarrow> p = a \<and> a \<noteq> 0 \<and>
     (case m a of None \<Rightarrow> False
      | Some b \<Rightarrow> bm_size b = s \<and> bm_free b = f \<and> chain m (bm_next b) bs)"

fun tiles :: "nat \<Rightarrow> nat \<Rightarrow> blk list \<Rightarrow> bool" where
  "tiles lo hi [] \<longleftrightarrow> lo = hi"
| "tiles lo hi ((a, s, f) # bs) \<longleftrightarrow> a = lo \<and> tiles (lo + META + s) hi bs"

definition heap_inv :: "heap \<Rightarrow> blk list \<Rightarrow> bool" where
  "heap_inv h bs \<longleftrightarrow> chain (blocks h) (heap_head h) bs \<and>
     tiles (kernel_heap h) (kernel_heap h + HEAP_SIZE) bs \<and>
     0 < kernel_heap h \<and> kernel_heap h + HEAP_SIZE < W32"

definition heap_ok :: "heap \<Rightarrow> bool" where
  "heap_ok h \<longleftrightarrow> (\<exists>bs. heap_inv h bs)"

text \<open>Reference definitions: first fit with splitting, freeing and coalescing on the list.\<close>

fun alloc_list :: "nat \<Rightarrow> blk list \<Rightarrow> (nat \<times> blk list) option" where
  "alloc_list sz [] = None"
| "alloc_list sz ((a, s, f) # bs) =
     (if f \<and> sz \<le> s
      then Some (a, if s > sz + META + 4
                    then (a, sz, False) # (a + META + sz, s - sz - META, True) # bs
                    else (a, s, False) # bs)
      else case alloc_list sz bs of None \<Rightarrow> None | Some (p, r) \<Rightarrow> Some (p, (a, s, f) # r))"

definition free_at :: "nat \<Rightarrow> blk list \<Rightarrow> blk list" where
  "free_at p bs = map (\<lambda>(a, s, f). (a, s, f \<or> a = p)) bs"

fun coalesce :: "blk list \<Rightarrow> blk list" where
  "coalesce ((a, s, f) # (b, t, g) # bs) =
     (if f \<and> g then coalesce ((a, s + META + t, True) # bs)
      else (a, s, f) # coalesce ((b, t, g) # bs))"
| "coalesce [x] = [x]"
| "coalesce [] = []"

fun no_adjacent_free :: "blk list \<Rightarrow> bool" where
  "no_adjacent_free ((a, s, f) # (b, t, g) # bs) \<longleftrightarrow>
     \<not> (f \<and> g) \<and> no_adjacent_free ((b, t, g) # bs)"
| "no_adjacent_free bs \<longleftrightarrow> True"

definition live_of :: "blk list \<Rightarrow> (nat \<times> nat) set" where
  "live_of bs = {(a + META, s) | a s. (a, s, False) \<in> set bs}"

definition heap_live :: "heap \<Rightarrow> (nat \<times> nat) set" where
  "heap_live h = {x. \<exists>bs. heap_inv h bs \<and> x \<in> live_of bs}"

section \<open>Lemmas on the list of blocks\<close>

lemma tiles_le: "tiles lo hi bs \<Longrightarrow> lo \<le> hi"
  by (induction lo hi bs rule: tiles.induct) auto

lemma tiles_bounds: "tiles lo hi bs \<Longrightarrow> (a, s, f) \<in> set bs \<Longrightarrow> lo \<le> a \<and> a + META + s \<le> hi"
proof (induction lo hi bs rule: tiles.induct)
  case (2 lo hi b t g bs)
  then show ?case by (auto dest: tiles_le)
qed simp

lemma tiles_distinct: "tiles lo hi bs \<Longrightarrow> distinct (map fst bs)"
proof (induction lo hi bs rule: tiles.induct)
  case (2 lo hi b t g bs)
  then show ?case by (auto dest: tiles_bounds)
qed simp

lemma chain_cong:
  "(\<And>a s f. (a, s, f) \<in> set bs \<Longrightarrow> m' a = m a) \<Longrightarrow> chain m' p bs = chain m p bs"
proof (induction m p bs rule: chain.induct)
  case (2 m p a s f bs)
  have "m' a = m a" using "2.prems" by auto
  then show ?case using 2 by (auto split: option.splits)
qed simp

lemma chain_unique: "chain m p bs \<Longrightarrow> chain m p bs' \<Longrightarrow> bs = bs'"
proof (induction m p bs arbitrary: bs' rule: chain.induct)
  case (1 m p)
  then show ?case by (cases bs') auto
next
  case (2 m p a s f bs)
  then show ?case by (cases bs') (auto split: option.splits)
qed

lemma heap_inv_unique: "heap_inv h bs \<Longrightarrow> heap_inv h bs' \<Longrightarrow> bs = bs'"
  by (auto simp: heap_inv_def intro: chain_unique)

lemma heap_live_eq: "heap_inv h bs \<Longrightarrow> heap_live h = live_of bs"
  by (auto simp: heap_live_def dest: heap_inv_unique)

lemma chain_head: "chain m p bs \<Longrightarrow> bs \<noteq> [] \<Longrightarrow> p = fst (hd bs) \<and> p \<noteq> 0"
  by (cases bs) auto

lemma alloc_list_tiles:
  "alloc_list sz bs = Some (p, bs') \<Longrightarrow> tiles lo hi bs \<Longrightarrow> tiles lo hi bs'"
  by (induction sz bs arbitrary: lo p bs' rule: alloc_list.induct)
    (auto simp: ac_simps split: if_splits option.splits)

lemma coalesce_tiles: "tiles lo hi bs \<Longrightarrow> tiles lo hi (coalesce bs)"
  by (induction bs arbitrary: lo rule: coalesce.induct) (auto simp: add.assoc add.left_commute)

lemma free_at_tiles: "tiles lo hi (free_at p bs) = tiles lo hi bs"
  by (induction lo hi bs rule: tiles.induct) (auto simp: free_at_def)

lemma coalesce_head: "bs \<noteq> [] \<Longrightarrow> fst (hd (coalesce bs)) = fst (hd bs)"
  by (induction bs rule: coalesce.induct) auto

lemma coalesce_no_adjacent: "no_adjacent_free (coalesce bs)"
proof (induction bs rule: coalesce.induct)
  case (1 a s f b t g bs)
  show ?case
  proof (cases "f \<and> g")
    case True
    then show ?thesis using 1 by simp
  next
    case False
    have "no_adjacent_free (coalesce ((b, t, g) # bs))" using 1 False by simp
    moreover have "\<exists>t' r. coalesce ((b, t, g) # bs) = (b, t', g) # r"
    proof (induction bs arbitrary: t)
      case Nil
      then show ?case by simp
    next
      case (Cons x bs)
      then show ?case by (cases x) auto
    qed
    ultimately show ?thesis using False by auto
  qed
qed auto

lemma coalesce_id: "no_adjacent_free bs \<Longrightarrow> coalesce bs = bs"
  by (induction bs rule: coalesce.induct) auto

lemma coalesce_live: "(a, s, False) \<in> set (coalesce bs) \<longleftrightarrow> (a, s, False) \<in> set bs"
  by (induction bs rule: coalesce.induct) auto

section \<open>The walks compute the reference definitions\<close>

text \<open>
  Both walks start at address \<open>p\<close> of a chain that tiles \<open>[lo, hi)\<close>; they end, and change no
  header below \<open>lo\<close>.
\<close>

lemma kmalloc_loop_None:
  "chain (blocks h) p bs \<Longrightarrow> alloc_list sz bs = None \<Longrightarrow> kmalloc_loop sz p h = Some (0, h)"
proof (induction bs arbitrary: p)
  case Nil
  then show ?case by (simp add: kmalloc_loop.simps)
next
  case (Cons x bs)
  obtain a s f where x: "x = (a, s, f)" by (cases x)
  with Cons.prems obtain b where b: "blocks h a = Some b" "bm_size b = s" "bm_free b = f"
    "chain (blocks h) (bm_next b) bs" "p = a" "a \<noteq> 0"
    by (auto split: option.splits)
  moreover have "\<not> (f \<and> sz \<le> s)" "alloc_list sz bs = None"
    using Cons.prems x by (auto split: if_splits option.splits)
  ultimately show ?case using Cons.IH [of "bm_next b"]
    by (subst kmalloc_loop.simps) auto
qed

lemma kmalloc_loop_Some:
  assumes "chain (blocks h) p bs" and "tiles lo hi bs" and "0 < lo" and "hi < W32"
    and "alloc_list sz bs = Some (q, bs')" and "hi \<le> lo + HEAP_SIZE"
  shows "\<exists>m. kmalloc_loop sz p h = Some (q, h\<lparr>blocks := m\<rparr>) \<and> chain m p bs' \<and>
           (\<forall>x<lo. m x = blocks h x)"
  using assms
proof (induction bs arbitrary: p lo bs')
  case Nil
  then show ?case by simp
next
  case (Cons x bs)
  obtain a s f where x: "x = (a, s, f)" by (cases x)
  with Cons.prems obtain b where b: "blocks h a = Some b" "bm_size b = s" "bm_free b = f"
    "chain (blocks h) (bm_next b) bs" "p = a" "a \<noteq> 0" and lo: "a = lo"
    and t: "tiles (lo + 12 + s) hi bs"
    by (auto split: option.splits)
  have hi: "a + 12 + s \<le> hi" using tiles_le [OF t] lo by simp
  have ge: "lo + 12 + s \<le> c" if "(c, u, g) \<in> set bs" for c u g
    using tiles_bounds [OF t that] by simp
  show ?case
  proof (cases "f \<and> sz \<le> s")
    case fit: True
    show ?thesis
    proof (cases "s > sz + 16")
      case True
      have w: "16 + sz < 4294967296" "a + 12 + sz < 4294967296"
        "(4294967284 + s - sz) mod 4294967296 = s - (sz + 12)"
        using True hi Cons.prems(4) by (auto simp: mod_if)
      let ?nb = "a + 12 + sz"
      let ?m = "(blocks h)(?nb \<mapsto> \<lparr>bm_size = s - sz - 12, bm_free = True, bm_next = bm_next b\<rparr>,
                  a \<mapsto> \<lparr>bm_size = sz, bm_free = False, bm_next = ?nb\<rparr>)"
      have "kmalloc_loop sz p h = Some (q, h\<lparr>blocks := ?m\<rparr>)"
        using b fit True x Cons.prems(5) w by (subst kmalloc_loop.simps) (auto simp: Let_def)
      moreover have "chain ?m (bm_next b) bs = chain (blocks h) (bm_next b) bs"
        using ge True lo by (intro chain_cong) fastforce
      then have "chain ?m p bs'"
        using Cons.prems(5) x fit True b by auto
      moreover have "\<forall>x<lo. ?m x = blocks h x" using lo by auto
      ultimately show ?thesis by blast
    next
      case False
      have w: "16 + sz < 4294967296" using fit hi lo Cons.prems(4,6) by auto
      let ?m = "(blocks h)(a \<mapsto> b\<lparr>bm_free := False\<rparr>)"
      have "kmalloc_loop sz p h = Some (q, h\<lparr>blocks := ?m\<rparr>)"
        using b fit False x Cons.prems(5) w by (subst kmalloc_loop.simps) auto
      moreover have "chain ?m (bm_next b) bs = chain (blocks h) (bm_next b) bs"
        using ge lo by (intro chain_cong) fastforce
      then have "chain ?m p bs'"
        using Cons.prems(5) x fit False b by auto
      moreover have "\<forall>x<lo. ?m x = blocks h x" using lo by auto
      ultimately show ?thesis by blast
    qed
  next
    case False
    then obtain r where r: "alloc_list sz bs = Some (q, r)" "bs' = (a, s, f) # r"
      using Cons.prems(5) x by (auto split: option.splits if_splits)
    obtain m where m: "kmalloc_loop sz (bm_next b) h = Some (q, h\<lparr>blocks := m\<rparr>)"
      "chain m (bm_next b) r" "\<forall>x<lo + 12 + s. m x = blocks h x"
      using Cons.IH [OF b(4) t _ Cons.prems(4) r(1)] Cons.prems(6) by auto
    have "kmalloc_loop sz p h = kmalloc_loop sz (bm_next b) h"
      using b False by (subst kmalloc_loop.simps) auto
    then show ?thesis using m r b lo by auto
  qed
qed

lemma kfree_loop_refines:
  assumes "chain (blocks h) p bs" and "tiles lo hi bs" and "0 < lo" and "hi < W32"
  shows "\<exists>m. kfree_loop p h = Some (h\<lparr>blocks := m\<rparr>) \<and> chain m p (coalesce bs) \<and>
           (\<forall>x<lo. m x = blocks h x)"
  using assms
proof (induction bs arbitrary: h p lo rule: coalesce.induct)
  case (1 a s f b t g bs)
  from "1.prems" obtain x y where x: "blocks h a = Some x" "bm_size x = s" "bm_free x = f" "bm_next x = b"
    "p = a" "a \<noteq> 0" "a = lo" "b \<noteq> 0" "b = a + 12 + s"
    and y: "blocks h b = Some y" "bm_size y = t" "bm_free y = g" "chain (blocks h) (bm_next y) bs"
    and ts: "tiles (a + 12 + s + 12 + t) hi bs"
    by (auto split: option.splits)
  have hi: "a + 12 + s + 12 + t \<le> hi" using tiles_le [OF ts] .
  show ?case
  proof (cases "f \<and> g")
    case True
    have w: "(s + (12 + t)) mod 4294967296 = s + 12 + t" using hi "1.prems"(4) by simp
    let ?h = "h\<lparr>blocks := (blocks h)(a \<mapsto> x\<lparr>bm_size := s + 12 + t, bm_next := bm_next y\<rparr>)\<rparr>"
    have step: "kfree_loop p h = kfree_loop p ?h"
      using x y True by (subst kfree_loop.simps) (simp add: w)
    have "chain (blocks ?h) (bm_next y) bs = chain (blocks h) (bm_next y) bs"
      using tiles_bounds [OF ts] by (intro chain_cong) fastforce
    then have "chain (blocks ?h) p ((a, s + 12 + t, True) # bs)"
      using x y True by simp
    moreover have "tiles lo hi ((a, s + 12 + t, True) # bs)"
      using ts x by (simp add: ac_simps)
    ultimately obtain m where m: "kfree_loop p ?h = Some (?h\<lparr>blocks := m\<rparr>)"
      "chain m p (coalesce ((a, s + 12 + t, True) # bs))" "\<forall>z<lo. m z = blocks ?h z"
      using "1.IH"(1) [OF True _ _ "1.prems"(3,4), of ?h p] by blast
    then show ?thesis using step True x by (intro exI [of _ m]) auto
  next
    case False
    have step: "kfree_loop p h = kfree_loop b h"
      using x y False by (subst kfree_loop.simps) (auto split: option.splits)
    have "chain (blocks h) b ((b, t, g) # bs)" using y x by simp
    moreover have "tiles b hi ((b, t, g) # bs)" using "1.prems"(2) x by simp
    ultimately obtain m where m: "kfree_loop b h = Some (h\<lparr>blocks := m\<rparr>)"
      "chain m b (coalesce ((b, t, g) # bs))" "\<forall>z<b. m z = blocks h z"
      using "1.IH"(2) [OF False _ _ _ "1.prems"(4), of h b b] x by auto
    moreover have "m a = Some x" using m(3) x by simp
    ultimately show ?thesis using step False x by (intro exI [of _ m]) auto
  qed
next
  case 3
  then show ?case by (auto simp: kfree_loop.simps intro!: exI [of _ "blocks h"])
next
  case (2 x)
  obtain a s f where xx: "x = (a, s, f)" by (cases x)
  with 2 obtain b where b: "blocks h p = Some b" "bm_next b = 0" "p \<noteq> 0"
    by (auto split: option.splits)
  have "kfree_loop p h = Some h"
    using b by (simp add: kfree_loop.simps [of p h] kfree_loop.simps [of 0 h])
  then show ?case using 2 by (intro exI [of _ "blocks h"]) auto
qed

lemma heap_walk_refines:
  "chain (blocks h) p bs \<Longrightarrow>
   (\<And>b acc. body b acc = body' (bm_size b) (bm_free b) acc) \<Longrightarrow>
   heap_walk body acc p h = Some (fold (\<lambda>(a, s, f). body' s f) bs acc)"
proof (induction bs arbitrary: p acc)
  case Nil
  then show ?case by (simp add: heap_walk.simps)
next
  case (Cons x bs)
  obtain a s f where x: "x = (a, s, f)" by (cases x)
  with Cons.prems obtain b where b: "blocks h a = Some b" "bm_size b = s" "bm_free b = f"
    "chain (blocks h) (bm_next b) bs" "p = a" "a \<noteq> 0"
    by (auto split: option.splits)
  then show ?case using x Cons.IH [OF b(4) Cons.prems(2)] Cons.prems(2) [of b acc]
    by (subst heap_walk.simps) simp
qed

section \<open>The invariant is kept\<close>

lemma init_heap_inv:
  "0 < kernel_heap h \<Longrightarrow> kernel_heap h + HEAP_SIZE < W32 \<Longrightarrow>
   heap_inv (init_heap h) [(kernel_heap h, HEAP_SIZE - META, True)]"
  by (simp add: init_heap_def heap_inv_def)

lemma alloc_list_Some:
  "alloc_list sz bs = Some (p, bs') \<Longrightarrow>
   (\<exists>s. (p, s, True) \<in> set bs \<and> sz \<le> s) \<and> (\<exists>s. (p, s, False) \<in> set bs' \<and> sz \<le> s)"
  by (induction sz bs arbitrary: bs' rule: alloc_list.induct) (fastforce split: if_splits option.splits)+

lemma alloc_list_None: "alloc_list sz bs = None \<longleftrightarrow> (\<forall>(a, s, f) \<in> set bs. f \<longrightarrow> s < sz)"
  by (induction sz bs rule: alloc_list.induct) (auto split: option.splits)

lemma live_of_Cons:
  "live_of ((a, s, f) # bs) = (if f then {} else {(a + META, s)}) \<union> live_of bs"
  by (auto simp: live_of_def)

lemma live_of_iff: "(a + META, s) \<in> live_of bs \<longleftrightarrow> (a, s, False) \<in> set bs"
  by (auto simp: live_of_def)

lemma live_of_pair: "(q, s) \<in> live_of bs \<longleftrightarrow> 12 \<le> q \<and> (q - 12, s, False) \<in> set bs"
  by (auto simp: live_of_def) (metis add.commute le_add_diff_inverse)

lemma alloc_list_live:
  assumes "alloc_list sz bs = Some (p, bs')" and "tiles lo hi bs"
  shows "\<exists>s \<ge> sz. live_of bs' = insert (p + META, s) (live_of bs) \<and> (\<forall>t. (p + META, t) \<notin> live_of bs)"
  using assms
proof (induction sz bs arbitrary: bs' lo rule: alloc_list.induct)
  case (2 sz a s f bs)
  have out: "\<forall>t. (a, t, False) \<notin> set bs"
    using "2.prems"(2) tiles_bounds [of "lo + 12 + s" hi bs] by fastforce
  show ?case
  proof (cases "f \<and> sz \<le> s")
    case True
    have nin: "\<forall>t. (a + 12, t) \<notin> live_of bs" using out by (simp add: live_of_iff)
    with 2 True show ?thesis
      by (cases "s > sz + 16") (auto simp: live_of_Cons)
  next
    case False
    then obtain r where r: "alloc_list sz bs = Some (p, r)" "bs' = (a, s, f) # r"
      using "2.prems"(1) by (auto split: option.splits if_splits)
    obtain s' where "s' \<ge> sz" "live_of r = insert (p + 12, s') (live_of bs)"
        "\<forall>t. (p + 12, t) \<notin> live_of bs"
      using "2.IH" [OF False r(1), of "lo + 12 + s"] "2.prems"(2) by auto
    moreover have "p \<noteq> a"
      using alloc_list_Some [OF r(1)] "2.prems"(2) tiles_bounds [of "lo + 12 + s" hi bs] by fastforce
    ultimately show ?thesis using r(2) by (intro exI [of _ s']) (auto simp: live_of_Cons)
  qed
qed simp

lemma kmalloc_cases:
  assumes "heap_inv (kheap w) bs"
  shows "alloc_list sz bs = None \<Longrightarrow> kmalloc sz w = Some (0, w)"
    and "alloc_list sz bs = Some (p, bs') \<Longrightarrow>
      \<exists>w'. kmalloc sz w = Some (p + META, w') \<and> heap_inv (kheap w') bs' \<and>
        kernel_heap (kheap w') = kernel_heap (kheap w) \<and>
        con w' = con w \<and> hworld.more w' = hworld.more w"
proof -
  let ?h = "kheap w"
  have c: "chain (blocks ?h) (heap_head ?h) bs" and t: "tiles (kernel_heap ?h) (kernel_heap ?h + HEAP_SIZE) bs"
    and lo: "0 < kernel_heap ?h" and hi: "kernel_heap ?h + HEAP_SIZE < W32"
    using assms by (simp_all add: heap_inv_def)
  show "kmalloc sz w = Some (0, w)" if "alloc_list sz bs = None"
    using kmalloc_loop_None [OF c that] by (simp add: kmalloc_def)
  show "\<exists>w'. kmalloc sz w = Some (p + META, w') \<and> heap_inv (kheap w') bs' \<and>
      kernel_heap (kheap w') = kernel_heap (kheap w) \<and> con w' = con w \<and> hworld.more w' = hworld.more w"
    if alloc: "alloc_list sz bs = Some (p, bs')"
  proof -
    obtain m where m: "kmalloc_loop sz (heap_head ?h) ?h = Some (p, ?h\<lparr>blocks := m\<rparr>)"
      "chain m (heap_head ?h) bs'"
      using kmalloc_loop_Some [OF c t lo hi alloc] by auto
    obtain s where "(p, s, True) \<in> set bs" using alloc_list_Some [OF alloc] by blast
    then have p: "0 < p" "p + 12 < 4294967296" using tiles_bounds [OF t] lo hi by fastforce+
    have "heap_inv (?h\<lparr>blocks := m\<rparr>) bs'"
      using m(2) alloc_list_tiles [OF alloc t] lo hi by (simp add: heap_inv_def)
    then show ?thesis using m(1) p by (simp add: kmalloc_def sys_trace_def)
  qed
qed

lemma free_at_chain:
  "chain m p bs \<Longrightarrow> distinct (map fst bs) \<Longrightarrow> (a, s, f) \<in> set bs \<Longrightarrow> m a = Some b \<Longrightarrow>
   chain (m(a \<mapsto> b\<lparr>bm_free := True\<rparr>)) p (free_at a bs)"
proof (induction bs arbitrary: p)
  case (Cons y bs)
  obtain c t g where y: "y = (c, t, g)" by (cases y)
  with Cons.prems obtain x where x: "m c = Some x" "bm_size x = t" "bm_free x = g"
    "chain m (bm_next x) bs" "p = c" "c \<noteq> 0"
    by (auto split: option.splits)
  let ?m = "m(a \<mapsto> b\<lparr>bm_free := True\<rparr>)"
  show ?case
  proof (cases "c = a")
    case True
    have "free_at a bs = bs" using Cons.prems(2) True y
      by (auto simp: free_at_def intro!: map_idI) force
    moreover have "chain ?m (bm_next x) bs = chain m (bm_next x) bs"
      using Cons.prems(2) True y by (intro chain_cong) force
    ultimately have "chain ?m (bm_next x) (free_at a bs)" using x by simp
    moreover have "b = x" using x True Cons.prems(4) by simp
    ultimately show ?thesis using x y True by (simp add: free_at_def fun_upd_def)
  next
    case False
    then have "chain ?m (bm_next x) (free_at a bs)"
      by (intro Cons.IH) (use Cons.prems x y False in auto)
    then show ?thesis using x y False by (simp add: free_at_def fun_upd_def)
  qed
qed simp

lemma free_at_live:
  assumes "tiles lo hi bs" and "(a, s, False) \<in> set bs"
  shows "live_of (free_at a bs) = live_of bs - {(a + META, s)}"
proof -
  have uniq: "t = s" if "(a, t, False) \<in> set bs" for t
    using assms that tiles_distinct [OF assms(1)] by (metis Pair_inject eq_key_imp_eq_value)
  have mem: "(c, t, False) \<in> set (free_at a bs) \<longleftrightarrow> (c, t, False) \<in> set bs \<and> c \<noteq> a" for c t
    by (force simp: free_at_def)
  have "(q, t) \<in> live_of (free_at a bs) \<longleftrightarrow> (q, t) \<in> live_of bs - {(a + 12, s)}" for q t
  proof (cases "q - 12 = a")
    case True
    then show ?thesis using uniq [of t] by (auto simp: live_of_pair mem)
  next
    case False
    then show ?thesis by (auto simp: live_of_pair mem)
  qed
  then show ?thesis by auto
qed

lemma coalesce_live_of: "live_of (coalesce bs) = live_of bs"
  by (simp add: live_of_def coalesce_live)

lemma kfree_cases:
  assumes "heap_inv (kheap w) bs" and "(a, s, f) \<in> set bs"
  shows "\<exists>h'. kfree (a + META) w = Some (w\<lparr>kheap := h'\<rparr>) \<and> heap_inv h' (coalesce (free_at a bs))"
proof -
  let ?h = "kheap w"
  have c: "chain (blocks ?h) (heap_head ?h) bs" and t: "tiles (kernel_heap ?h) (kernel_heap ?h + HEAP_SIZE) bs"
    and lo: "0 < kernel_heap ?h" and hi: "kernel_heap ?h + HEAP_SIZE < W32"
    using assms(1) by (simp_all add: heap_inv_def)
  have a: "0 < a" "a + 12 < 4294967296" using tiles_bounds [OF t assms(2)] lo hi by auto
  then have w: "(a + 12 + 4294967296 - 12) mod 4294967296 = a" by simp
  have "chain m p bs0 \<Longrightarrow> (a, s, f) \<in> set bs0 \<Longrightarrow> \<exists>b. m a = Some b" for m p bs0
    by (induction m p bs0 rule: chain.induct) (auto split: option.splits)
  then obtain b where b: "blocks ?h a = Some b" using c assms(2) by blast
  let ?g = "?h\<lparr>blocks := (blocks ?h)(a \<mapsto> b\<lparr>bm_free := True\<rparr>)\<rparr>"
  have "chain (blocks ?g) (heap_head ?h) (free_at a bs)"
    using free_at_chain [OF c tiles_distinct [OF t] assms(2) b] by simp
  moreover have "tiles (kernel_heap ?h) (kernel_heap ?h + HEAP_SIZE) (free_at a bs)"
    using t by (simp add: free_at_tiles)
  ultimately obtain m where m: "kfree_loop (heap_head ?h) ?g = Some (?g\<lparr>blocks := m\<rparr>)"
    "chain m (heap_head ?h) (coalesce (free_at a bs))"
    using kfree_loop_refines [of ?g, OF _ _ lo hi] by blast
  have "heap_inv (?h\<lparr>blocks := m\<rparr>) (coalesce (free_at a bs))"
    using m(2) t lo hi by (simp add: heap_inv_def coalesce_tiles free_at_tiles)
  then show ?thesis using m(1) b a w
    by (intro exI [of _ "?h\<lparr>blocks := m\<rparr>"]) (simp add: kfree_def Let_def)
qed

section \<open>The contract of an allocator\<close>

text \<open>
  What a client of the heap relies on.  \<open>live\<close> is the set of regions handed out (payload
  address and size); an allocation is total on good states.
\<close>

locale allocator =
  fixes ok :: "'s \<Rightarrow> bool"
    and live :: "'s \<Rightarrow> (nat \<times> nat) set"
    and alloc :: "nat \<Rightarrow> 's \<Rightarrow> (nat \<times> 's) option"
    and dealloc :: "nat \<Rightarrow> 's \<Rightarrow> 's option"
  assumes live_nonnull: "ok s \<Longrightarrow> (p, n) \<in> live s \<Longrightarrow> p \<noteq> 0"
    and live_apart: "ok s \<Longrightarrow> (p, n) \<in> live s \<Longrightarrow> (q, k) \<in> live s \<Longrightarrow> (p, n) \<noteq> (q, k) \<Longrightarrow>
      p + n < q \<or> q + k < p"
    and alloc_total: "ok s \<Longrightarrow> \<exists>p s'. alloc n s = Some (p, s')"
    and alloc_fail: "ok s \<Longrightarrow> alloc n s = Some (0, s') \<Longrightarrow> s' = s"
    and alloc_live: "ok s \<Longrightarrow> alloc n s = Some (p, s') \<Longrightarrow> p \<noteq> 0 \<Longrightarrow>
      ok s' \<and> (\<exists>k\<ge>n. live s' = insert (p, k) (live s) \<and> (\<forall>j. (p, j) \<notin> live s))"
    and dealloc_live: "ok s \<Longrightarrow> (p, n) \<in> live s \<Longrightarrow>
      \<exists>s'. dealloc p s = Some s' \<and> ok s' \<and> live s' = live s - {(p, n)}"
begin

lemma alloc_ok: "ok s \<Longrightarrow> alloc n s = Some (p, s') \<Longrightarrow> ok s'"
  using alloc_fail alloc_live by (cases "p = 0") blast+

lemma alloc_mono: "ok s \<Longrightarrow> alloc n s = Some (p, s') \<Longrightarrow> live s \<subseteq> live s'"
  using alloc_fail alloc_live by (cases "p = 0") blast+

lemma alloc_apart:
  assumes "ok s" and "alloc n s = Some (p, s')" and "p \<noteq> 0" and "(q, k) \<in> live s"
  shows "p + n < q \<or> q + k < p"
proof -
  obtain j where j: "j \<ge> n" "live s' = insert (p, j) (live s)" "(p, k) \<notin> live s" "ok s'"
    using alloc_live [OF assms(1-3)] by blast
  then have "p + j < q \<or> q + k < p"
    using assms(4) live_apart [of s' p j q k] by auto
  with j(1) show ?thesis by auto
qed

lemma scoped_buffer:
  assumes "ok s" and "alloc n s = Some (p, s')" and "p \<noteq> 0"
  shows "\<exists>s''. dealloc p s' = Some s'' \<and> ok s'' \<and> live s'' = live s"
proof -
  obtain k where k: "live s' = insert (p, k) (live s)" "(p, k) \<notin> live s" "ok s'"
    using alloc_live [OF assms] by blast
  then obtain s'' where "dealloc p s' = Some s''" "ok s''" "live s'' = live s' - {(p, k)}"
    using dealloc_live [of s' p k] by auto
  with k show ?thesis by auto
qed

lemma two_buffers:
  assumes "ok s" and "alloc n s = Some (p, s1)" and "alloc k s1 = Some (q, s2)"
    and "p \<noteq> 0" and "q \<noteq> 0"
  shows "p + n < q \<or> q + k < p"
proof -
  obtain j where j: "j \<ge> n" "live s1 = insert (p, j) (live s)" "ok s1"
    using alloc_live [OF assms(1,2,4)] by blast
  then have "(p, j) \<in> live s1" by simp
  from alloc_apart [OF j(3) assms(3,5) this] j(1) show ?thesis by auto
qed

end

lemma live_of_apart:
  assumes "tiles lo hi bs" and "(p, n) \<in> live_of bs" and "(q, k) \<in> live_of bs" and "(p, n) \<noteq> (q, k)"
  shows "p + n < q \<or> q + k < p"
  using assms
proof (induction lo hi bs rule: tiles.induct)
  case (2 lo hi a s f bs)
  have "lo + 12 + s \<le> c - 12 \<and> 12 \<le> c" if "(c, u) \<in> live_of bs" for c u
    using that tiles_bounds [of "lo + 12 + s" hi bs] "2.prems"(1) by (auto simp: live_of_pair)
  then show ?case using 2 by (fastforce simp: live_of_Cons split: if_splits)
qed (simp add: live_of_def)

interpretation kh: allocator "\<lambda>w. heap_ok (kheap w)" "\<lambda>w. heap_live (kheap w)" kmalloc kfree
proof (unfold_locales, goal_cases)
  case (1 s p n)
  then show ?case by (auto simp: heap_ok_def heap_live_eq live_of_pair)
next
  case (2 s p n q k)
  then obtain bs where bs: "heap_inv (kheap s) bs" by (auto simp: heap_ok_def)
  with 2 show ?case
    using live_of_apart [of "kernel_heap (kheap s)" _ bs p n q k] by (auto simp: heap_live_eq heap_inv_def)
next
  case (3 s n)
  then obtain bs where "heap_inv (kheap s) bs" by (auto simp: heap_ok_def)
  then show ?case using kmalloc_cases [of s bs n] by (cases "alloc_list n bs") fastforce+
next
  case (4 s n s')
  then obtain bs where "heap_inv (kheap s) bs" by (auto simp: heap_ok_def)
  with 4 show ?case using kmalloc_cases [of s bs n] by (cases "alloc_list n bs") fastforce+
next
  case (5 s n p s')
  then obtain bs where bs: "heap_inv (kheap s) bs" by (auto simp: heap_ok_def)
  with 5 obtain q bs' where q: "alloc_list n bs = Some (q, bs')" "p = q + 12" "heap_inv (kheap s') bs'"
    using kmalloc_cases [of s bs n] by (cases "alloc_list n bs") fastforce+
  then obtain k where "k \<ge> n" "live_of bs' = insert (q + 12, k) (live_of bs)"
      "\<forall>t. (q + 12, t) \<notin> live_of bs"
    using alloc_list_live [OF q(1), of "kernel_heap (kheap s)" "kernel_heap (kheap s) + HEAP_SIZE"] bs
    by (auto simp: heap_inv_def)
  with bs q show ?case by (auto simp: heap_live_eq heap_ok_def)
next
  case (6 s p n)
  then obtain bs where bs: "heap_inv (kheap s) bs" by (auto simp: heap_ok_def)
  with 6 have pn: "12 \<le> p" "(p - 12, n, False) \<in> set bs" by (simp_all add: heap_live_eq live_of_pair)
  then obtain h' where h': "kfree p s = Some (s\<lparr>kheap := h'\<rparr>)"
      "heap_inv h' (coalesce (free_at (p - 12) bs))"
    using kfree_cases [OF bs pn(2)] by auto
  moreover have "live_of (coalesce (free_at (p - 12) bs)) = live_of bs - {(p, n)}"
    using free_at_live [OF _ pn(2)] bs pn(1) by (auto simp: coalesce_live_of heap_inv_def)
  ultimately show ?case using bs by (auto simp: heap_live_eq heap_ok_def)
qed

section \<open>Properties of the heap\<close>

lemma hworld0_kheap [simp]:
  "kheap (hworld0 vram base) = init_heap \<lparr>blocks = \<lambda>_. None, heap_head = 0, kernel_heap = base\<rparr>"
  by (simp add: hworld0_def kworld.defs)

lemma hworld0_inv:
  "0 < base \<Longrightarrow> base + HEAP_SIZE < W32 \<Longrightarrow>
   heap_inv (kheap (hworld0 vram base)) [(base, HEAP_SIZE - META, True)]"
  using init_heap_inv [of "\<lparr>blocks = \<lambda>_. None, heap_head = 0, kernel_heap = base\<rparr>"] by simp

lemma hworld0_ok: "0 < base \<Longrightarrow> base + HEAP_SIZE < W32 \<Longrightarrow> heap_ok (kheap (hworld0 vram base))"
  using hworld0_inv by (auto simp: heap_ok_def)

lemma live_in_heap:
  "heap_ok h \<Longrightarrow> (p, k) \<in> heap_live h \<Longrightarrow>
   kernel_heap h + META \<le> p \<and> p + k \<le> kernel_heap h + HEAP_SIZE"
  using tiles_bounds by (fastforce simp: heap_ok_def heap_live_eq heap_inv_def live_of_pair)

lemma kmalloc_base:
  "kmalloc sz w = Some (p, w') \<Longrightarrow> heap_inv (kheap w) bs \<Longrightarrow> kernel_heap (kheap w') = kernel_heap (kheap w)"
  using kmalloc_cases [of w bs sz] by (cases "alloc_list sz bs") fastforce+

text \<open>
  C4: on a well-formed heap \<open>kmalloc\<close> always returns.  It returns NULL exactly when no free block
  is large enough, and then nothing has changed; otherwise the address it returns is a region of at
  least the requested size inside \<open>kernel_heap\<close> that overlaps no region handed out before, the
  heap stays well formed and exactly that region is added to the ones in use.
\<close>

theorem kmalloc_correct:
  assumes "heap_inv (kheap w) bs"
  shows "\<exists>p w'. kmalloc sz w = Some (p, w') \<and> heap_ok (kheap w') \<and>
     (if (\<forall>(a, s, f) \<in> set bs. f \<longrightarrow> s < sz) then p = 0 \<and> w' = w
      else kernel_heap (kheap w) + META \<le> p \<and> p + sz \<le> kernel_heap (kheap w) + HEAP_SIZE \<and>
        (\<exists>k\<ge>sz. heap_live (kheap w') = insert (p, k) (heap_live (kheap w))) \<and>
        (\<forall>(q, k) \<in> heap_live (kheap w). p + sz < q \<or> q + k < p))"
proof -
  have ok: "heap_ok (kheap w)" using assms by (auto simp: heap_ok_def)
  obtain p w' where k: "kmalloc sz w = Some (p, w')" using kh.alloc_total [OF ok] by blast
  have ok': "heap_ok (kheap w')" by (rule kh.alloc_ok [OF ok k])
  show ?thesis
  proof (cases "alloc_list sz bs")
    case None
    then show ?thesis using kmalloc_cases(1) [OF assms None] ok by (simp add: alloc_list_None)
  next
    case (Some x)
    obtain q r where x: "x = (q, r)" by (cases x)
    have p: "p \<noteq> 0" using kmalloc_cases(2) [OF assms] Some x k by fastforce
    obtain j where j: "j \<ge> sz" "heap_live (kheap w') = insert (p, j) (heap_live (kheap w))"
      using kh.alloc_live [OF ok k p] by blast
    then have "kernel_heap (kheap w) + 12 \<le> p" "p + sz \<le> kernel_heap (kheap w) + HEAP_SIZE"
      using live_in_heap [OF ok', of p j] kmalloc_base [OF k assms] by auto
    moreover have "\<not> (\<forall>(a, s, f) \<in> set bs. f \<longrightarrow> s < sz)" using Some alloc_list_None [of sz bs] by simp
    moreover have "\<forall>(q, k) \<in> heap_live (kheap w). p + sz < q \<or> q + k < p"
      using kh.alloc_apart [OF ok k p] by blast
    ultimately show ?thesis using k ok' j by auto
  qed
qed

theorem kmalloc_correct_witness:
  "heap_inv (kheap (hworld0 (\<lambda>_. 0) 0x200000)) [(0x200000, HEAP_SIZE - META, True)] \<and>
   (\<exists>p w'. kmalloc 100 (hworld0 (\<lambda>_. 0) 0x200000) = Some (p, w') \<and> 0x20000C \<le> p)"
  using hworld0_inv [of "0x200000" "\<lambda>_. 0"]
    kmalloc_correct [of "hworld0 (\<lambda>_. 0) 0x200000" "[(0x200000, HEAP_SIZE - META, True)]" 100]
  by (auto simp: init_heap_def)

text \<open>
  C5: freeing a region in use returns, keeps the heap well formed, removes exactly that region from
  the ones in use, leaves no two neighbouring free blocks and touches nothing but the heap.
\<close>

theorem kfree_correct:
  assumes "heap_ok (kheap w)" and "(p, n) \<in> heap_live (kheap w)"
  shows "\<exists>h' bs'. kfree p w = Some (w\<lparr>kheap := h'\<rparr>) \<and> heap_inv h' bs' \<and> no_adjacent_free bs' \<and>
           heap_live h' = heap_live (kheap w) - {(p, n)}"
proof -
  obtain bs where bs: "heap_inv (kheap w) bs" using assms(1) by (auto simp: heap_ok_def)
  then have pn: "12 \<le> p" "(p - 12, n, False) \<in> set bs" using assms(2) by (simp_all add: heap_live_eq live_of_pair)
  then obtain h' where h': "kfree p w = Some (w\<lparr>kheap := h'\<rparr>)" "heap_inv h' (coalesce (free_at (p - 12) bs))"
    using kfree_cases [OF bs pn(2)] by auto
  moreover have "heap_live h' = heap_live (kheap w) - {(p, n)}"
    using kh.dealloc_live [OF assms] h'(1) by auto
  ultimately show ?thesis using coalesce_no_adjacent by blast
qed

lemma kmalloc_100:
  "\<exists>p w'. kmalloc 100 (hworld0 (\<lambda>_. 0) 0x200000) = Some (p, w') \<and> heap_ok (kheap w') \<and> p \<noteq> 0 \<and>
     (\<exists>k. (p, k) \<in> heap_live (kheap w'))"
proof -
  let ?w = "hworld0 (\<lambda>_. 0) 0x200000"
  have inv: "heap_inv (kheap ?w) [(0x200000, HEAP_SIZE - META, True)]" by (rule hworld0_inv) simp_all
  have a: "alloc_list 100 [(0x200000, HEAP_SIZE - META, True)] =
      Some (0x200000, [(0x200000, 100, False), (0x200070, 1048452, True)])" by simp
  from kmalloc_cases(2) [OF inv a] obtain w' where
    "kmalloc 100 ?w = Some (0x20000C, w')" "heap_inv (kheap w') [(0x200000, 100, False), (0x200070, 1048452, True)]"
    by auto
  then show ?thesis by (auto simp: heap_ok_def heap_live_eq live_of_pair)
qed

theorem kfree_correct_witness:
  "\<exists>p w' h'. kmalloc 100 (hworld0 (\<lambda>_. 0) 0x200000) = Some (p, w') \<and> kfree p w' = Some (w'\<lparr>kheap := h'\<rparr>)"
  using kmalloc_100 kfree_correct by blast

text \<open>
  C6: a buffer that is allocated and freed again leaves the set of regions in use as it was; two
  buffers allocated one after the other do not overlap.
\<close>

theorem kmalloc_kfree_roundtrip:
  assumes "heap_ok (kheap w)" and "kmalloc n w = Some (p, w1)" and "p \<noteq> 0"
  shows "(\<exists>w2. kfree p w1 = Some w2 \<and> heap_ok (kheap w2) \<and> heap_live (kheap w2) = heap_live (kheap w)) \<and>
    (\<forall>k q w2. kmalloc k w1 = Some (q, w2) \<and> q \<noteq> 0 \<longrightarrow> p + n < q \<or> q + k < p)"
  using kh.scoped_buffer [OF assms] kh.two_buffers [OF assms(1,2) _ assms(3)] by blast

theorem kmalloc_kfree_roundtrip_witness:
  "\<exists>p w1 w2. kmalloc 100 (hworld0 (\<lambda>_. 0) 0x200000) = Some (p, w1) \<and> kfree p w1 = Some w2 \<and>
     heap_live (kheap w2) = heap_live (kheap (hworld0 (\<lambda>_. 0) 0x200000))"
proof -
  have "heap_ok (kheap (hworld0 (\<lambda>_. 0) 0x200000))" by (rule hworld0_ok) simp_all
  then show ?thesis using kmalloc_100 kmalloc_kfree_roundtrip by blast
qed

text \<open>The statistics walks, on the list of blocks.\<close>

definition blk_sum :: "bool \<Rightarrow> blk list \<Rightarrow> nat" where
  "blk_sum fr bs = sum_list (map (\<lambda>(a, s, f). if f = fr then s else 0) bs)"

definition blk_count :: "bool \<Rightarrow> blk list \<Rightarrow> nat" where
  "blk_count fr bs = length (filter (\<lambda>(a, s, f). f = fr) bs)"

lemma tiles_accounting:
  "tiles lo hi bs \<Longrightarrow>
   lo + blk_sum True bs + blk_sum False bs + META * (blk_count True bs + blk_count False bs) = hi"
  by (induction lo hi bs rule: tiles.induct) (auto simp: blk_sum_def blk_count_def)

lemma fold_sum_blk:
  "acc + blk_sum fr bs < W32 \<Longrightarrow>
   fold (\<lambda>(a, s, f) acc. if f = fr then (acc + s) mod W32 else acc) bs acc = acc + blk_sum fr bs"
proof (induction bs arbitrary: acc)
  case (Cons x bs)
  then show ?case by (cases x) (auto simp: blk_sum_def)
qed (simp add: blk_sum_def)

lemma fold_count_blk:
  "acc + blk_count fr bs < W32 \<Longrightarrow>
   fold (\<lambda>(a, s, f) acc. if f = fr then (acc + 1) mod W32 else acc) bs acc = acc + blk_count fr bs"
proof (induction bs arbitrary: acc)
  case (Cons x bs)
  then show ?case by (cases x) (auto simp: blk_count_def)
qed (simp add: blk_count_def)

lemma fold_largest_blk:
  "fold (\<lambda>(a, s, f) acc. if f \<and> acc < s then s else acc) bs acc =
   Max (insert acc {s. \<exists>a. (a, s, True) \<in> set bs})"
proof (induction bs arbitrary: acc)
  case (Cons x bs)
  obtain a s f where x: "x = (a, s, f)" by (cases x)
  let ?S = "{s. \<exists>a. (a, s, True) \<in> set bs}"
  have "?S \<subseteq> (fst \<circ> snd) ` set bs" by force
  then have fin: "finite ?S" by (rule finite_subset) simp
  have S: "{s'. \<exists>a'. (a', s', True) \<in> set (x # bs)} = (if f then insert s ?S else ?S)" using x by auto
  show ?case
  proof (cases "f \<and> acc < s")
    case True
    then show ?thesis using Cons.IH [of s] x fin S by (cases "?S = {}") (auto simp: max_def)
  next
    case False
    then show ?thesis using Cons.IH [of acc] x fin S
      by (cases "?S = {}") (auto simp: max_def insert_commute [of acc s])
  qed
qed simp

lemma heap_stats:
  assumes "heap_inv h bs"
  shows "heap_get_used_size h = Some (blk_sum False bs)" "heap_get_free_size h = Some (blk_sum True bs)"
    "heap_get_alloc_count h = Some (blk_count False bs)" "heap_get_free_count h = Some (blk_count True bs)"
    "heap_get_largest_free_block h = Some (Max (insert 0 {s. \<exists>a. (a, s, True) \<in> set bs}))"
proof -
  have c: "chain (blocks h) (heap_head h) bs"
    and b: "kernel_heap h + blk_sum True bs + blk_sum False bs +
      12 * (blk_count True bs + blk_count False bs) < 4294967296"
    using assms tiles_accounting by (auto simp: heap_inv_def)
  note w = heap_walk_refines [OF c]
  show "heap_get_used_size h = Some (blk_sum False bs)"
    unfolding heap_get_used_size_def
    using w [of _ "\<lambda>s f acc. if f = False then (acc + s) mod W32 else acc" 0] fold_sum_blk [of 0 False bs] b
    by simp
  show "heap_get_free_size h = Some (blk_sum True bs)"
    unfolding heap_get_free_size_def
    using w [of _ "\<lambda>s f acc. if f = True then (acc + s) mod W32 else acc" 0] fold_sum_blk [of 0 True bs] b
    by simp
  show "heap_get_alloc_count h = Some (blk_count False bs)"
    unfolding heap_get_alloc_count_def
    using w [of _ "\<lambda>s f acc. if f = False then (acc + 1) mod W32 else acc" 0] fold_count_blk [of 0 False bs] b
    by simp
  show "heap_get_free_count h = Some (blk_count True bs)"
    unfolding heap_get_free_count_def
    using w [of _ "\<lambda>s f acc. if f = True then (acc + 1) mod W32 else acc" 0] fold_count_blk [of 0 True bs] b
    by simp
  show "heap_get_largest_free_block h = Some (Max (insert 0 {s. \<exists>a. (a, s, True) \<in> set bs}))"
    unfolding heap_get_largest_free_block_def
    using w [of _ "\<lambda>s f acc. if f \<and> acc < s then s else acc" 0] fold_largest_blk [of bs 0]
    by simp
qed

text \<open>
  C7: the five statistics of a well-formed heap are computed by walks that end, they account for
  every byte of the heap array, and the largest free block is exactly the largest request
  \<open>kmalloc\<close> can serve.
\<close>

theorem heap_statistics:
  assumes "heap_ok (kheap w)"
  shows "\<exists>used fr na nf lg. heap_get_used_size (kheap w) = Some used \<and> heap_get_free_size (kheap w) = Some fr \<and>
    heap_get_alloc_count (kheap w) = Some na \<and> heap_get_free_count (kheap w) = Some nf \<and>
    heap_get_largest_free_block (kheap w) = Some lg \<and>
    used + fr + META * (na + nf) = heap_get_total_size \<and>
    (\<forall>sz>0. (\<exists>w'. kmalloc sz w = Some (0, w')) \<longleftrightarrow> lg < sz)"
proof -
  obtain bs where bs: "heap_inv (kheap w) bs" using assms by (auto simp: heap_ok_def)
  let ?S = "{s. \<exists>a. (a, s, True) \<in> set bs}"
  have "?S \<subseteq> (fst \<circ> snd) ` set bs" by force
  then have fin: "finite ?S" by (rule finite_subset) simp
  have "(\<exists>w'. kmalloc sz w = Some (0, w')) \<longleftrightarrow> alloc_list sz bs = None" for sz
    using kmalloc_cases [OF bs, of sz] by (cases "alloc_list sz bs") fastforce+
  moreover have "alloc_list sz bs = None \<longleftrightarrow> Max (insert 0 ?S) < sz" if "0 < sz" for sz
    using that fin by (fastforce simp: alloc_list_None)
  moreover have "blk_sum False bs + blk_sum True bs + 12 * (blk_count False bs + blk_count True bs) = HEAP_SIZE"
    using bs tiles_accounting by (fastforce simp: heap_inv_def)
  ultimately show ?thesis using heap_stats [OF bs] by (auto simp: heap_get_total_size_def)
qed

theorem heap_statistics_witness:
  "\<exists>used. heap_ok (kheap (hworld0 (\<lambda>_. 0) 0x200000)) \<and>
     heap_get_used_size (kheap (hworld0 (\<lambda>_. 0) 0x200000)) = Some used"
proof -
  have ok: "heap_ok (kheap (hworld0 (\<lambda>_. 0) 0x200000))" by (rule hworld0_ok) simp_all
  then show ?thesis using heap_statistics [OF ok] by blast
qed

end
