(* ===== verification/Sched.thy ===== *)
theory Sched
  imports KHeap
begin

text \<open>
  The scheduler (kernel/sched.c): task control blocks on the kernel heap, linked into a circular
  queue; creation of a task with its initial interrupt frame, the round-robin switch, and the system
  calls.

  Control blocks are a store from addresses to records; the words and bytes of the stacks are in
  \<open>ram\<close>, a byte memory.  \<open>cr3\<close> is the page-directory register and \<open>tss_esp0\<close> what
  \<open>set_kernel_stack\<close> writes to the task state segment.  The loops over the queue follow pointers, so
  they are partial functions; \<open>None\<close> is a loop that does not end or that leaves the store.
\<close>

section \<open>State\<close>

abbreviation (input) TASK_RUNNING :: nat where "TASK_RUNNING \<equiv> 0"
abbreviation (input) TASK_READY :: nat where "TASK_READY \<equiv> 1"
abbreviation (input) TASK_SUSPENDED :: nat where "TASK_SUSPENDED \<equiv> 2"

record task_struct =
  t_pid :: nat
  t_state :: nat
  page_directory :: nat
  kstack :: nat
  kstack_top_page :: nat
  ustack :: nat
  t_next :: nat

record sworld = hworld +
  tasks :: "nat \<Rightarrow> task_struct option"
  current_task :: nat
  task_queue :: nat
  next_pid :: nat
  scheduler_active :: bool
  ram :: "nat \<Rightarrow> u8"
  cr3 :: nat
  tss_esp0 :: nat

definition zero_task :: task_struct where
  "zero_task = \<lparr>t_pid = 0, t_state = 0, page_directory = 0, kstack = 0, kstack_top_page = 0, ustack = 0, t_next = 0\<rparr>"

definition sworld0 :: "(int \<Rightarrow> u8) \<Rightarrow> nat \<Rightarrow> (nat \<Rightarrow> u8) \<Rightarrow> sworld" where
  "sworld0 vram base memory = hworld.extend (hworld0 vram base)
     \<lparr>tasks = (\<lambda>_. None), current_task = 0, task_queue = 0, next_pid = 0, scheduler_active = False,
      ram = memory, cr3 = 0, tss_esp0 = 0\<rparr>"

text \<open>Words in memory, little endian.\<close>

definition poke8 :: "nat \<Rightarrow> u8 \<Rightarrow> (nat \<Rightarrow> u8) \<Rightarrow> nat \<Rightarrow> u8" where
  "poke8 a v m = m(a mod W32 := v)"

definition poke32 :: "nat \<Rightarrow> u32 \<Rightarrow> (nat \<Rightarrow> u8) \<Rightarrow> nat \<Rightarrow> u8" where
  "poke32 a v m = fold (\<lambda>i. poke8 (a + i) (le32 v ! i)) [0..<4] m"

definition poke_bytes :: "nat \<Rightarrow> bytes \<Rightarrow> (nat \<Rightarrow> u8) \<Rightarrow> nat \<Rightarrow> u8" where
  "poke_bytes a bs m = fold (\<lambda>i. poke8 (a + i) (bs ! i)) [0..<length bs] m"

definition peek_bytes :: "(nat \<Rightarrow> u8) \<Rightarrow> nat \<Rightarrow> nat \<Rightarrow> bytes" where
  "peek_bytes m a n = map (\<lambda>i. m ((a + i) mod W32)) [0..<n]"

definition peek32 :: "(nat \<Rightarrow> u8) \<Rightarrow> nat \<Rightarrow> u32" where
  "peek32 m a = rd32 (peek_bytes m a 4) 0"

text \<open>The frame the interrupt stubs leave on the kernel stack.\<close>

record interrupt_frame =
  if_gs :: u32
  if_fs :: u32
  if_es :: u32
  if_ds :: u32
  if_edi :: u32
  if_esi :: u32
  if_ebp :: u32
  if_esp_dummy :: u32
  if_ebx :: u32
  if_edx :: u32
  if_ecx :: u32
  if_eax :: u32
  if_eip :: u32
  if_cs :: u32
  if_eflags :: u32
  if_esp :: u32
  if_ss :: u32

definition load_frame :: "(nat \<Rightarrow> u8) \<Rightarrow> nat \<Rightarrow> interrupt_frame" where
  "load_frame m a =
     (let f = (\<lambda>i. peek32 m (a + 4 * i)) in
      \<lparr>if_gs = f 0, if_fs = f 1, if_es = f 2, if_ds = f 3, if_edi = f 4, if_esi = f 5, if_ebp = f 6,
       if_esp_dummy = f 7, if_ebx = f 8, if_edx = f 9, if_ecx = f 10, if_eax = f 11, if_eip = f 12,
       if_cs = f 13, if_eflags = f 14, if_esp = f 15, if_ss = f 16\<rparr>)"

text \<open>\<open>*(--p) = v\<close> for each value in turn: the new stack pointer and the memory.\<close>

fun push_words :: "u32 list \<Rightarrow> nat \<times> (nat \<Rightarrow> u8) \<Rightarrow> nat \<times> (nat \<Rightarrow> u8)" where
  "push_words [] s = s"
| "push_words (v # vs) (ktop, m) =
     (let p = (ktop + W32 - 4) mod W32 in push_words vs (p, poke32 p v m))"

section \<open>Operations\<close>

definition set_task :: "nat \<Rightarrow> (task_struct \<Rightarrow> task_struct) \<Rightarrow> 'a sworld_scheme \<Rightarrow> 'a sworld_scheme" where
  "set_task a f w = w\<lparr>tasks := (tasks w)(a := map_option f (tasks w a))\<rparr>"

text \<open>\<open>stack_space\<close> is the address of the boot stack.\<close>

definition init_scheduler :: "nat \<Rightarrow> 'a sworld_scheme \<Rightarrow> 'a sworld_scheme option" where
  "init_scheduler stack_space w =
     (case kmalloc 28 w of
        None \<Rightarrow> None
      | Some (t, w1) \<Rightarrow>
          Some (w1\<lparr>tasks := (tasks w1)(t \<mapsto> zero_task\<lparr>t_pid := next_pid w1, t_state := TASK_RUNNING,
                     page_directory := cr3 w1, kstack_top_page := (stack_space + 8192) mod W32, t_next := t\<rparr>),
                   current_task := t, next_pid := (next_pid w1 + 1) mod W32, task_queue := t,
                   scheduler_active := True\<rparr>))"

text \<open>The exit trampoline \<open>mov eax, 1; int 0x80\<close>.\<close>

definition trampoline :: bytes where
  "trampoline = [0xB8, 0x01, 0x00, 0x00, 0x00, 0xCD, 0x80]"

partial_function (option) find_tail :: "'a sworld_scheme \<Rightarrow> nat \<Rightarrow> nat option" where
  "find_tail w cur =
     (case tasks w cur of
        None \<Rightarrow> None
      | Some t \<Rightarrow> if t_next t \<noteq> task_queue w then find_tail w (t_next t) else Some cur)"

definition enqueue :: "nat \<Rightarrow> 'a sworld_scheme \<Rightarrow> 'a sworld_scheme option" where
  "enqueue t w =
     (if task_queue w = 0 then Some ((set_task t (\<lambda>p. p\<lparr>t_next := t\<rparr>) w)\<lparr>task_queue := t\<rparr>)
      else case find_tail w (task_queue w) of
        None \<Rightarrow> None
      | Some cur \<Rightarrow>
          Some (set_task t (\<lambda>p. p\<lparr>t_next := task_queue w\<rparr>) (set_task cur (\<lambda>p. p\<lparr>t_next := t\<rparr>) w)))"

definition frame_tail :: "nat \<Rightarrow> u32 list" where
  "frame_tail data_sel = replicate 8 0 @ replicate 4 (of_nat data_sel)"

definition task_create :: "nat \<Rightarrow> nat \<Rightarrow> bool \<Rightarrow> 'a sworld_scheme \<Rightarrow> (nat \<times> 'a sworld_scheme) option" where
  "task_create entry page_dir is_user w =
     (case kmalloc 28 w of None \<Rightarrow> None | Some (t, w1) \<Rightarrow>
      case kmalloc 4096 (w1\<lparr>next_pid := (next_pid w1 + 1) mod W32\<rparr>) of None \<Rightarrow> None | Some (kpage, w2) \<Rightarrow>
      let ktop = (kpage + 4096) mod W32;
          pcb = zero_task\<lparr>t_pid := next_pid w1, t_state := TASK_READY, page_directory := page_dir,
                  kstack_top_page := ktop\<rparr>
      in if is_user then
           (case kmalloc 4096 w2 of None \<Rightarrow> None | Some (upage, w3) \<Rightarrow>
            let m1 = poke_bytes upage trampoline (ram w3);
                (utop, m2) = push_words [of_nat upage] ((upage + 4096) mod W32, m1);
                (ksp, m3) = push_words ([0x23, of_nat utop, 0x202, 0x1B, of_nat entry] @ frame_tail 0x23) (ktop, m2)
            in map_option (Pair t) (enqueue t (w3\<lparr>ram := m3,
                 tasks := (tasks w3)(t \<mapsto> pcb\<lparr>ustack := (upage + 4096) mod W32, kstack := ksp\<rparr>)\<rparr>)))
         else
           (let (ksp, m3) = push_words ([0x202, 0x08, of_nat entry] @ frame_tail 0x10) (ktop, ram w2)
            in map_option (Pair t) (enqueue t (w2\<lparr>ram := m3,
                 tasks := (tasks w2)(t \<mapsto> pcb\<lparr>kstack := ksp\<rparr>)\<rparr>))))"

partial_function (option) pick_next :: "'a sworld_scheme \<Rightarrow> nat \<Rightarrow> nat option" where
  "pick_next w nxt =
     (case tasks w nxt of
        None \<Rightarrow> None
      | Some t \<Rightarrow>
          if t_state t \<noteq> TASK_READY \<and> t_state t \<noteq> TASK_RUNNING
          then (if t_next t = current_task w then Some (t_next t) else pick_next w (t_next t))
          else Some nxt)"

definition task_switch :: "nat \<Rightarrow> 'a sworld_scheme \<Rightarrow> (nat \<times> 'a sworld_scheme) option" where
  "task_switch esp w =
     (if \<not> scheduler_active w \<or> current_task w = 0 then Some (esp, w)
      else
        let c = current_task w; w1 = set_task c (\<lambda>p. p\<lparr>kstack := esp\<rparr>) w in
        case tasks w1 c of None \<Rightarrow> None | Some ct \<Rightarrow>
        case pick_next w1 (t_next ct) of None \<Rightarrow> None | Some nxt \<Rightarrow>
          let w2 = (if t_state ct = TASK_RUNNING then set_task c (\<lambda>p. p\<lparr>t_state := TASK_READY\<rparr>) w1 else w1);
              w3 = set_task nxt (\<lambda>p. p\<lparr>t_state := TASK_RUNNING\<rparr>) (w2\<lparr>current_task := nxt\<rparr>)
          in case tasks w3 nxt of None \<Rightarrow> None | Some nt \<Rightarrow>
               Some (kstack nt,
                 w3\<lparr>tss_esp0 := kstack_top_page nt,
                    cr3 := (if page_directory nt \<noteq> 0 \<and> page_directory nt \<noteq> cr3 w3
                            then page_directory nt else cr3 w3)\<rparr>))"

text \<open>A C string in memory; the second argument is the number of bytes read so far.\<close>

partial_function (option) ram_string :: "(nat \<Rightarrow> u8) \<Rightarrow> nat \<Rightarrow> bytes \<Rightarrow> bytes option" where
  "ram_string m a acc = (if m (a mod W32) = 0 then Some (rev acc) else ram_string m (a + 1) (m (a mod W32) # acc))"

definition syscall_handler :: "nat \<Rightarrow> 'a sworld_scheme \<Rightarrow> (nat \<times> 'a sworld_scheme) option" where
  "syscall_handler esp w =
     (let frame = load_frame (ram w) esp; sys_num = if_eax frame; arg1 = if_ebx frame in
      if sys_num = 1 then task_switch esp (set_task (current_task w) (\<lambda>p. p\<lparr>t_state := TASK_SUSPENDED\<rparr>) w)
      else if sys_num = 2 then
        (case ram_string (ram w) (unat arg1) [] of None \<Rightarrow> None | Some s \<Rightarrow> Some (esp, kprint s w))
      else if sys_num = 3 then task_switch esp w
      else Some (esp, w))"

end
