(* ===== verification/SchedProps.thy ===== *)
theory SchedProps
  imports Sched
begin

text \<open>
  The scheduler's invariant and contract.  \<open>ring w xs\<close> says that the control blocks \<open>xs\<close> form
  the circular queue; the pointer walks \<open>find_tail\<close> and \<open>pick_next\<close> are shown to compute the last
  element of \<open>xs\<close> and the first runnable one after the current task, which gives the
  functional behaviour of task creation, of the switch and of the system calls.
\<close>

section \<open>Words and stacks in memory\<close>

lemma poke8_apart: "x \<noteq> a mod W32 \<Longrightarrow> poke8 a v m x = m x"
  by (simp add: poke8_def)

lemma poke32_def2:
  "poke32 a v m = m((a + 0) mod W32 := le32 v ! 0, (a + 1) mod W32 := le32 v ! 1,
     (a + 2) mod W32 := le32 v ! 2, (a + 3) mod W32 := le32 v ! 3)"
proof -
  have "[0..<4] = [0, 1, 2, 3 :: nat]" by (simp add: upt_rec)
  then show ?thesis by (simp add: poke32_def poke8_def)
qed

lemma poke32_at: "a + 4 \<le> W32 \<Longrightarrow> i < 4 \<Longrightarrow> poke32 a v m (a + i) = le32 v ! i"
proof -
  assume a: "a + 4 \<le> W32" and i: "i < 4"
  then consider "i = 0" | "i = 1" | "i = 2" | "i = 3" by linarith
  then show ?thesis using a by cases (simp_all add: poke32_def2)
qed

lemma poke32_apart: "a + 4 \<le> W32 \<Longrightarrow> x < a \<or> a + 4 \<le> x \<Longrightarrow> poke32 a v m x = m x"
  by (auto simp: poke32_def2)

lemma fold_poke8:
  assumes "a + n \<le> W32"
  shows "fold (\<lambda>i. poke8 (a + i) (f i)) [0..<n] m x = (if a \<le> x \<and> x < a + n then f (x - a) else m x)"
  using assms
proof (induction n)
  case (Suc n)
  then show ?case by (auto simp: poke8_def)
qed auto

lemma poke_bytes_at:
  "a + length bs \<le> W32 \<Longrightarrow> poke_bytes a bs m x = (if a \<le> x \<and> x < a + length bs then bs ! (x - a) else m x)"
  unfolding poke_bytes_def by (rule fold_poke8)

lemma length_peek_bytes [simp]: "length (peek_bytes m a n) = n"
  by (simp add: peek_bytes_def)

lemma peek_bytes_cong:
  "a + n \<le> W32 \<Longrightarrow> (\<And>x. a \<le> x \<Longrightarrow> x < a + n \<Longrightarrow> m' x = m x) \<Longrightarrow> peek_bytes m' a n = peek_bytes m a n"
  by (simp add: peek_bytes_def)

lemma peek_bytes_poke:
  "a + length bs \<le> W32 \<Longrightarrow> peek_bytes (poke_bytes a bs m) a (length bs) = bs"
  by (rule nth_equalityI) (simp_all add: peek_bytes_def poke_bytes_at)

lemma peek32_bytes:
  assumes "a + 4 \<le> W32" and "\<And>i. i < 4 \<Longrightarrow> m (a + i) = le32 v ! i"
  shows "peek32 m a = v"
proof -
  have "peek_bytes m a 4 = map (\<lambda>i. le32 v ! i) [0..<4]"
    unfolding peek_bytes_def using assms by (intro map_cong) auto
  also have "\<dots> = le32 v" using map_nth [of "le32 v"] by simp
  finally show ?thesis by (simp add: peek32_def)
qed

lemma push_words_Cons:
  assumes "4 \<le> ktop" and "ktop < W32"
  shows "push_words (v # vs) (ktop, m) = push_words vs (ktop - 4, poke32 (ktop - 4) v m)"
proof -
  have "(ktop + W32 - 4) mod W32 = ktop - 4" using assms by (simp add: mod_if)
  then show ?thesis by (simp only: push_words.simps Let_def)
qed

lemma push_words_sp:
  "4 * length vs \<le> ktop \<Longrightarrow> ktop < W32 \<Longrightarrow> fst (push_words vs (ktop, m)) = ktop - 4 * length vs"
proof (induction vs arbitrary: ktop m)
  case (Cons v vs)
  then show ?case using push_words_Cons [of ktop v vs m] Cons.IH [of "ktop - 4"] by simp
qed simp

lemma push_words_apart:
  "4 * length vs \<le> ktop \<Longrightarrow> ktop < W32 \<Longrightarrow> x < ktop - 4 * length vs \<or> ktop \<le> x \<Longrightarrow>
   snd (push_words vs (ktop, m)) x = m x"
proof (induction vs arbitrary: ktop m)
  case (Cons v vs)
  have e: "push_words (v # vs) (ktop, m) = push_words vs (ktop - 4, poke32 (ktop - 4) v m)"
    using Cons.prems by (intro push_words_Cons) simp_all
  have "snd (push_words vs (ktop - 4, poke32 (ktop - 4) v m)) x = poke32 (ktop - 4) v m x"
    using Cons.prems by (intro Cons.IH) auto
  also have "\<dots> = m x" using Cons.prems by (intro poke32_apart) auto
  finally show ?case unfolding e .
qed simp

text \<open>The \<open>i\<close>th word pushed is found \<open>i + 1\<close> words below the top.\<close>

lemma push_words_nth:
  "4 * length vs \<le> ktop \<Longrightarrow> ktop < W32 \<Longrightarrow> i < length vs \<Longrightarrow>
   peek32 (snd (push_words vs (ktop, m))) (ktop - 4 * Suc i) = vs ! i"
proof (induction vs arbitrary: ktop m i)
  case (Cons v vs)
  have e: "push_words (v # vs) (ktop, m) = push_words vs (ktop - 4, poke32 (ktop - 4) v m)"
    using Cons.prems by (intro push_words_Cons) simp_all
  let ?m = "poke32 (ktop - 4) v m"
  show ?case
  proof (cases i)
    case 0
    have "peek32 (snd (push_words vs (ktop - 4, ?m))) (ktop - 4) = v"
    proof (rule peek32_bytes)
      fix j :: nat
      assume j: "j < 4"
      have "snd (push_words vs (ktop - 4, ?m)) (ktop - 4 + j) = ?m (ktop - 4 + j)"
        using Cons.prems by (intro push_words_apart) auto
      then show "snd (push_words vs (ktop - 4, ?m)) (ktop - 4 + j) = le32 v ! j"
        using poke32_at [of "ktop - 4" j v m] Cons.prems j by simp
    qed (use Cons.prems in simp)
    with 0 show ?thesis unfolding e by simp
  next
    case (Suc k)
    have "peek32 (snd (push_words vs (ktop - 4, ?m))) (ktop - 4 - 4 * Suc k) = vs ! k"
      using Cons.prems Suc by (intro Cons.IH) auto
    moreover have "ktop - 4 - 4 * Suc k = ktop - 4 * Suc i" using Suc by simp
    ultimately show ?thesis using Suc unfolding e by simp
  qed
qed simp

section \<open>The circular queue\<close>

definition ring :: "'a sworld_scheme \<Rightarrow> nat list \<Rightarrow> bool" where
  "ring w xs \<longleftrightarrow> xs \<noteq> [] \<and> distinct xs \<and> hd xs = task_queue w \<and>
     (\<forall>i < length xs. \<exists>t. tasks w (xs ! i) = Some t \<and> t_next t = xs ! (Suc i mod length xs))"

definition runnable :: "'a sworld_scheme \<Rightarrow> nat \<Rightarrow> bool" where
  "runnable w a \<longleftrightarrow> (\<exists>t. tasks w a = Some t \<and> (t_state t = TASK_READY \<or> t_state t = TASK_RUNNING))"

text \<open>The choice of the switch: the last element, the current task, is the fallback.\<close>

fun first_runnable :: "(nat \<Rightarrow> bool) \<Rightarrow> nat list \<Rightarrow> nat" where
  "first_runnable P [] = 0"
| "first_runnable P (x # ys) = (if ys = [] \<or> P x then x else first_runnable P ys)"

text \<open>
  A well-formed scheduler: the queue is a ring of heap blocks that are in use, the current task is on
  it, and no other task is marked running.  Outside the handlers (\<open>sched_inv\<close>) the current task is
  marked running itself.
\<close>

definition t_state_of :: "'a sworld_scheme \<Rightarrow> nat \<Rightarrow> nat" where
  "t_state_of w a = (case tasks w a of None \<Rightarrow> TASK_SUSPENDED | Some t \<Rightarrow> t_state t)"

definition sched_ok :: "'a sworld_scheme \<Rightarrow> nat list \<Rightarrow> bool" where
  "sched_ok w xs \<longleftrightarrow> heap_ok (kheap w) \<and> scheduler_active w \<and> ring w xs \<and> current_task w \<in> set xs \<and>
     (\<forall>a \<in> set xs. \<exists>k \<ge> 28. (a, k) \<in> heap_live (kheap w)) \<and>
     (\<forall>a \<in> set xs. t_state_of w a = TASK_RUNNING \<longrightarrow> a = current_task w)"

definition sched_inv :: "'a sworld_scheme \<Rightarrow> nat list \<Rightarrow> bool" where
  "sched_inv w xs \<longleftrightarrow> sched_ok w xs \<and> t_state_of w (current_task w) = TASK_RUNNING"

lemma first_runnable_in: "ys \<noteq> [] \<Longrightarrow> first_runnable P ys \<in> set ys"
  by (induction ys) auto

lemma first_runnable_runnable: "x \<in> set ys \<Longrightarrow> P x \<Longrightarrow> P (first_runnable P ys)"
  by (induction ys) auto

lemma ring_nth:
  assumes "ring w xs" and "i < length xs"
  obtains t where "tasks w (xs ! i) = Some t" and "t_next t = xs ! (Suc i mod length xs)"
  using assms by (auto simp: ring_def)

lemma ring_hd: "ring w xs \<Longrightarrow> xs ! 0 = task_queue w"
  by (cases xs) (auto simp: ring_def)

lemma ring_in:
  assumes "ring w xs" and "a \<in> set xs"
  obtains t where "tasks w a = Some t" and "t_next t \<in> set xs"
proof -
  obtain i where i: "i < length xs" "xs ! i = a" using assms(2) by (auto simp: in_set_conv_nth)
  then have "Suc i mod length xs < length xs" by (intro mod_less_divisor) linarith
  then show ?thesis using ring_nth [OF assms(1) i(1)] i that by (metis nth_mem)
qed

lemma ring_cong:
  assumes "ring w xs" and "task_queue w' = task_queue w"
    and "\<And>a. a \<in> set xs \<Longrightarrow> map_option t_next (tasks w' a) = map_option t_next (tasks w a)"
  shows "ring w' xs"
  unfolding ring_def
proof (intro conjI allI impI)
  fix i
  assume i: "i < length xs"
  then obtain t where "tasks w (xs ! i) = Some t" "t_next t = xs ! (Suc i mod length xs)"
    using ring_nth [OF assms(1)] by blast
  then show "\<exists>t. tasks w' (xs ! i) = Some t \<and> t_next t = xs ! (Suc i mod length xs)"
    using assms(3) [of "xs ! i"] i by auto
qed (use assms(1,2) in \<open>simp_all add: ring_def\<close>)

lemma find_tail_from:
  assumes "ring w xs"
  shows "i < length xs \<Longrightarrow> find_tail w (xs ! i) = Some (last xs)"
proof (induction "length xs - Suc i" arbitrary: i)
  case 0
  then have i: "Suc i = length xs" by simp
  obtain t where "tasks w (xs ! i) = Some t" "t_next t = xs ! 0"
    using ring_nth [OF assms 0(2)] i by auto
  moreover have "xs ! 0 = task_queue w" using assms by (rule ring_hd)
  moreover have "last xs = xs ! i" using i assms by (metis Zero_not_Suc diff_Suc_1 last_conv_nth list.size(3))
  ultimately show ?case by (subst find_tail.simps) simp
next
  case (Suc k)
  then have i: "Suc i < length xs" by simp
  obtain t where t: "tasks w (xs ! i) = Some t" "t_next t = xs ! Suc i"
    using ring_nth [OF assms Suc(3)] i by auto
  have "xs ! Suc i \<noteq> task_queue w"
    using assms i nth_eq_iff_index_eq [of xs "Suc i" 0] ring_hd [OF assms] by (auto simp: ring_def)
  moreover have "find_tail w (xs ! Suc i) = Some (last xs)" using Suc i by auto
  ultimately show ?case using t by (subst find_tail.simps) simp
qed

lemma find_tail_ring: "ring w xs \<Longrightarrow> find_tail w (task_queue w) = Some (last xs)"
  using find_tail_from [of w xs 0] ring_hd [of w xs] by (auto simp: ring_def)

text \<open>Following the links from \<open>xs ! i\<close> runs through the rotated ring.\<close>

lemma pick_next_path:
  assumes "\<And>j. Suc j < length ys \<Longrightarrow> \<exists>t. tasks w (ys ! j) = Some t \<and> t_next t = ys ! Suc j"
    and "\<And>j. Suc j < length ys \<Longrightarrow> ys ! j \<noteq> current_task w"
    and "last ys = current_task w" and "length ys > 1"
  shows "pick_next w (hd ys) = Some (first_runnable (runnable w) ys)"
  using assms
proof (induction ys)
  case (Cons x zs)
  obtain t where t: "tasks w x = Some t" "t_next t = hd zs"
    using Cons.prems(1) [of 0] Cons.prems(4) by (auto simp: hd_conv_nth)
  have r: "runnable w x \<longleftrightarrow> \<not> (t_state t \<noteq> TASK_READY \<and> t_state t \<noteq> TASK_RUNNING)"
    using t by (auto simp: runnable_def)
  show ?case
  proof (cases "length zs = 1")
    case True
    then obtain c where "zs = [c]" by (auto simp: length_Suc_conv)
    with Cons.prems(3) t r show ?thesis by (subst pick_next.simps) simp
  next
    case False
    then have z: "length zs > 1" using Cons.prems(4) by (cases zs rule: remdups_adj.cases) auto
    have "pick_next w (hd zs) = Some (first_runnable (runnable w) zs)"
    proof (rule Cons.IH [OF _ _ _ z])
      show "\<exists>t. tasks w (zs ! j) = Some t \<and> t_next t = zs ! Suc j" if "Suc j < length zs" for j
        using Cons.prems(1) [of "Suc j"] that by simp
      show "zs ! j \<noteq> current_task w" if "Suc j < length zs" for j
        using Cons.prems(2) [of "Suc j"] that by simp
      show "last zs = current_task w" using Cons.prems(3) z by (cases zs) auto
    qed
    moreover have "hd zs \<noteq> current_task w" using Cons.prems(2) [of 1] z by (cases zs) auto
    moreover have "zs \<noteq> []" using z by auto
    ultimately show ?thesis using t r by (subst pick_next.simps) simp
  qed
qed simp

lemma pick_next_ring:
  assumes "ring w xs" and i: "i < length xs" "xs ! i = current_task w" and t: "tasks w (current_task w) = Some t"
  shows "pick_next w (t_next t) = Some (first_runnable (runnable w) (rotate (Suc i) xs))"
proof (cases "length xs = 1")
  case True
  then obtain c where "xs = [c]" by (auto simp: length_Suc_conv)
  then have "t_next t = c" "current_task w = c" "i = 0" using assms by (auto simp: ring_def)
  then show ?thesis using \<open>xs = [c]\<close> t by (subst pick_next.simps) (auto simp: rotate_def)
next
  case False
  let ?ys = "rotate (Suc i) xs"
  let ?n = "length xs"
  have n: "1 < ?n" using False i by linarith
  have nth: "?ys ! j = xs ! ((Suc i + j) mod ?n)" if "j < ?n" for j using nth_rotate [OF that, of "Suc i"] by simp
  have lt: "(Suc i + j) mod ?n < ?n" for j using n by (intro mod_less_divisor) linarith
  have "Suc i + (?n - 1) = i + ?n" using n by linarith
  then have last: "?ys ! (?n - 1) = current_task w" using nth [of "?n - 1"] n i by simp
  have d: "distinct ?ys" using assms(1) by (simp add: ring_def)
  have "pick_next w (hd ?ys) = Some (first_runnable (runnable w) ?ys)"
  proof (rule pick_next_path)
    show "\<exists>t. tasks w (?ys ! j) = Some t \<and> t_next t = ?ys ! Suc j" if j: "Suc j < length ?ys" for j
    proof -
      have "Suc ((Suc i + j) mod ?n) mod ?n = (Suc i + Suc j) mod ?n" by (simp add: mod_Suc_eq)
      then show ?thesis using ring_nth [OF assms(1) lt [of j]] nth [of j] nth [of "Suc j"] j by auto
    qed
    show "?ys ! j \<noteq> current_task w" if j: "Suc j < length ?ys" for j
      unfolding last [symmetric] using d j nth_eq_iff_index_eq [OF d, of j "?n - 1"] by auto
    show "last ?ys = current_task w"
      using last n by (metis last_conv_nth length_rotate less_numeral_extra(4) list.size(3) not_one_less_zero)
  qed (use n in simp)
  moreover have "hd ?ys = t_next t"
    using ring_nth [OF assms(1) i(1)] nth [of 0] i t n
    by (metis add.right_neutral hd_conv_nth length_rotate list.size(3) not_one_less_zero option.inject zero_less_one less_trans)
  ultimately show ?thesis by simp
qed

section \<open>Switching\<close>

lemma set_task_frame [simp, frame_simps]:
  "kheap (set_task a f w) = kheap w" "current_task (set_task a f w) = current_task w"
  "task_queue (set_task a f w) = task_queue w" "scheduler_active (set_task a f w) = scheduler_active w"
  "next_pid (set_task a f w) = next_pid w" "ram (set_task a f w) = ram w" "cr3 (set_task a f w) = cr3 w"
  "tss_esp0 (set_task a f w) = tss_esp0 w" "con (set_task a f w) = con w"
  "sworld.more (set_task a f w) = sworld.more w"
  by (simp_all add: set_task_def)

lemma tasks_set_task [simp]:
  "tasks (set_task a f w) b = (if b = a then map_option f (tasks w a) else tasks w b)"
  by (simp add: set_task_def)

text \<open>
  What one control block becomes: the current task saves its stack pointer and turns from running to
  ready, the chosen one turns to running.
\<close>

definition switched :: "nat \<Rightarrow> nat \<Rightarrow> nat \<Rightarrow> nat \<Rightarrow> task_struct \<Rightarrow> task_struct" where
  "switched esp c nxt a t =
     (let t1 = (if a = c then t\<lparr>kstack := esp, t_state := (if t_state t = TASK_RUNNING then TASK_READY else t_state t)\<rparr> else t)
      in if a = nxt then t1\<lparr>t_state := TASK_RUNNING\<rparr> else t1)"

lemma switched_other: "a \<noteq> c \<Longrightarrow> a \<noteq> nxt \<Longrightarrow> map_option (switched esp c nxt a) t = t"
  by (cases t) (simp_all add: switched_def)

lemma switched_frame [simp]:
  "t_next (switched esp c nxt a t) = t_next t" "t_pid (switched esp c nxt a t) = t_pid t"
  "kstack_top_page (switched esp c nxt a t) = kstack_top_page t"
  "page_directory (switched esp c nxt a t) = page_directory t"
  by (simp_all add: switched_def Let_def)

lemma task_switch_steps:
  assumes "scheduler_active w" and "current_task w = c" and "c \<noteq> 0"
    and c: "tasks w c = Some ct" and pick: "pick_next (set_task c (\<lambda>p. p\<lparr>kstack := esp\<rparr>) w) (t_next ct) = Some nxt"
    and n: "tasks w nxt = Some nt"
  shows "\<exists>w'. task_switch esp w = Some (kstack (switched esp c nxt nxt nt), w') \<and>
     tasks w' = (\<lambda>a. map_option (switched esp c nxt a) (tasks w a)) \<and> current_task w' = nxt \<and>
     tss_esp0 w' = kstack_top_page nt \<and>
     cr3 w' = (if page_directory nt = 0 then cr3 w else page_directory nt) \<and>
     w' = w\<lparr>tasks := tasks w', current_task := nxt, tss_esp0 := tss_esp0 w', cr3 := cr3 w'\<rparr>"
proof -
  let ?w1 = "set_task c (\<lambda>p. p\<lparr>kstack := esp\<rparr>) w"
  have c1: "tasks ?w1 c = Some (ct\<lparr>kstack := esp\<rparr>)" using c by simp
  let ?w2 = "if t_state ct = TASK_RUNNING then set_task c (\<lambda>p. p\<lparr>t_state := TASK_READY\<rparr>) ?w1 else ?w1"
  let ?w3 = "set_task nxt (\<lambda>p. p\<lparr>t_state := TASK_RUNNING\<rparr>) (?w2\<lparr>current_task := nxt\<rparr>)"
  have t3: "tasks ?w3 = (\<lambda>a. map_option (switched esp c nxt a) (tasks w a))"
    using c n by (auto simp: fun_eq_iff switched_other switched_def set_task_def)
  have f3: "cr3 ?w3 = cr3 w" "?w3 = w\<lparr>tasks := tasks ?w3, current_task := nxt\<rparr>"
    using assms(2) by (auto simp: set_task_def)
  show ?thesis
    using assms c1 pick t3 f3 n
    by (auto simp: task_switch_def Let_def switched_def split: if_splits)
qed

text \<open>
  The abstract scheduler: the task chosen when \<open>xs ! i\<close> gives up the processor.
\<close>

definition choice :: "'a sworld_scheme \<Rightarrow> nat list \<Rightarrow> nat \<Rightarrow> nat" where
  "choice w xs i = first_runnable (runnable w) (rotate (Suc i) xs)"

lemma sched_ok_current:
  assumes "sched_ok w xs"
  obtains i where "i < length xs" "xs ! i = current_task w"
  using assms by (auto simp: sched_ok_def in_set_conv_nth)

lemma sched_ok_nonnull: "sched_ok w xs \<Longrightarrow> a \<in> set xs \<Longrightarrow> a \<noteq> 0"
  using kh.live_nonnull by (fastforce simp: sched_ok_def)

lemma sched_ok_task:
  assumes "sched_ok w xs" and "a \<in> set xs"
  obtains t where "tasks w a = Some t"
  using assms ring_in [of w xs a] by (metis sched_ok_def)

lemma choice_in: "i < length xs \<Longrightarrow> choice w xs i \<in> set xs"
  using first_runnable_in [of "rotate (Suc i) xs" "runnable w"]
  unfolding choice_def by (metis length_0_conv length_rotate not_less_zero set_rotate)

lemma runnable_set_task:
  "(\<And>t. t_state (f t) = t_state t) \<Longrightarrow> runnable (set_task a f w) = runnable w"
  by (auto simp: fun_eq_iff runnable_def)

lemma task_switch_ok:
  assumes ok: "sched_ok w xs" and i: "i < length xs" "xs ! i = current_task w"
    and n: "choice w xs i = nxt" "tasks w nxt = Some nt"
  shows "\<exists>w'. task_switch esp w = Some (if nxt = current_task w then esp else kstack nt, w') \<and> sched_inv w' xs \<and>
     tasks w' = (\<lambda>a. map_option (switched esp (current_task w) nxt a) (tasks w a)) \<and> current_task w' = nxt \<and>
     tss_esp0 w' = kstack_top_page nt \<and>
     cr3 w' = (if page_directory nt = 0 then cr3 w else page_directory nt) \<and>
     w' = w\<lparr>tasks := tasks w', current_task := nxt, tss_esp0 := tss_esp0 w', cr3 := cr3 w'\<rparr>"
proof -
  let ?c = "current_task w"
  let ?w1 = "set_task ?c (\<lambda>p. p\<lparr>kstack := esp\<rparr>) w"
  have inv: "scheduler_active w" "ring w xs" "?c \<in> set xs" using ok by (simp_all add: sched_ok_def)
  have c0: "?c \<noteq> 0" by (rule sched_ok_nonnull [OF ok inv(3)])
  obtain ct where ct: "tasks w ?c = Some ct" using sched_ok_task [OF ok inv(3)] by blast
  have r1: "ring ?w1 xs" by (rule ring_cong [OF inv(2)]) (auto simp: option.map_comp comp_def)
  have "pick_next ?w1 (t_next (ct\<lparr>kstack := esp\<rparr>)) = Some (choice ?w1 xs i)"
    unfolding choice_def using i ct by (intro pick_next_ring [OF r1]) simp_all
  moreover have "choice ?w1 xs i = nxt" using n(1) by (simp add: choice_def runnable_set_task)
  ultimately have "pick_next ?w1 (t_next ct) = Some nxt" by simp
  from task_switch_steps [OF inv(1) refl c0 ct this n(2)]
  obtain w' where w': "task_switch esp w = Some (kstack (switched esp ?c nxt nxt nt), w')"
    and tw: "tasks w' = (\<lambda>a. map_option (switched esp ?c nxt a) (tasks w a))"
    and cw: "current_task w' = nxt" "tss_esp0 w' = kstack_top_page nt"
     "cr3 w' = (if page_directory nt = 0 then cr3 w else page_directory nt)"
    and ww: "w' = w\<lparr>tasks := tasks w', current_task := nxt, tss_esp0 := tss_esp0 w', cr3 := cr3 w'\<rparr>"
    by blast
  have frame: "kheap w' = kheap w" "scheduler_active w' = scheduler_active w" "task_queue w' = task_queue w"
    by (subst ww, simp)+
  have "ring w' xs" by (rule ring_cong [OF inv(2) frame(3)]) (simp add: tw option.map_comp comp_def)
  moreover have "nxt \<in> set xs" using choice_in [OF i(1), of w] n(1) by simp
  moreover have "t_state_of w' a = TASK_RUNNING \<longleftrightarrow> a = nxt" if a: "a \<in> set xs" for a
  proof -
    obtain t where "tasks w a = Some t" using sched_ok_task [OF ok a] by blast
    then show ?thesis using ok a by (auto simp: tw t_state_of_def switched_def Let_def sched_ok_def)
  qed
  ultimately have "sched_inv w' xs" using ok frame cw by (auto simp: sched_inv_def sched_ok_def)
  moreover have "kstack (switched esp ?c nxt nxt nt) = (if nxt = ?c then esp else kstack nt)"
    by (simp add: switched_def)
  ultimately show ?thesis using w' tw cw ww by auto
qed

section \<open>Sequences of switches\<close>

text \<open>Timer interrupts in a row; each one comes with the stack pointer of the interrupted task.\<close>

fun switches :: "nat list \<Rightarrow> 'a sworld_scheme \<Rightarrow> 'a sworld_scheme option" where
  "switches [] w = Some w"
| "switches (esp # es) w = (case task_switch esp w of None \<Rightarrow> None | Some (_, w') \<Rightarrow> switches es w')"

lemma first_runnable_nth:
  "d < length ys \<Longrightarrow> P (ys ! d) \<Longrightarrow> \<exists>m \<le> d. first_runnable P ys = ys ! m"
proof (induction ys arbitrary: d)
  case (Cons x ys)
  show ?case
  proof (cases "ys = [] \<or> P x")
    case False
    then obtain e where e: "d = Suc e" using Cons.prems by (cases d) auto
    then obtain m where "m \<le> e" "first_runnable P ys = ys ! m"
      using Cons.IH [of e] Cons.prems by auto
    then show ?thesis using False e by (intro exI [of _ "Suc m"]) auto
  qed auto
qed simp

lemma runnable_state: "runnable w a \<longleftrightarrow> t_state_of w a = TASK_READY \<or> t_state_of w a = TASK_RUNNING"
  by (auto simp: runnable_def t_state_of_def split: option.splits)

lemma choice_runnable:
  assumes "sched_inv w xs" and "i < length xs" "xs ! i = current_task w"
  shows "runnable w (choice w xs i)"
proof -
  have "xs ! i \<in> set (rotate (Suc i) xs)" using nth_mem [OF assms(2)] by simp
  then show ?thesis unfolding choice_def
    by (rule first_runnable_runnable) (use assms in \<open>simp add: runnable_state sched_inv_def\<close>)
qed

lemma first_runnable_last:
  "ys \<noteq> [] \<Longrightarrow> distinct ys \<Longrightarrow> first_runnable P ys = last ys \<Longrightarrow> x \<in> set ys \<Longrightarrow> P x \<Longrightarrow> x = last ys"
  by (induction ys) (auto split: if_splits)

lemma first_runnable_cases: "P (first_runnable P ys) \<or> first_runnable P ys = last ys \<or> ys = []"
  by (induction ys) auto

lemma rotate_last:
  assumes "i < length xs"
  shows "last (rotate (Suc i) xs) = xs ! i"
proof -
  have "Suc i + (length xs - 1) = i + length xs" using assms by linarith
  then have "rotate (Suc i) xs ! (length xs - 1) = xs ! i"
    using nth_rotate [of "length xs - 1" xs "Suc i"] assms by simp
  moreover have "rotate (Suc i) xs \<noteq> []" using assms by auto
  ultimately show ?thesis by (simp add: last_conv_nth)
qed

text \<open>The current task is chosen only when nothing else can run.\<close>

lemma choice_current:
  assumes "sched_ok w xs" and i: "i < length xs" "xs ! i = current_task w" and c: "choice w xs i = current_task w"
    and x: "x \<in> set xs" "runnable w x"
  shows "x = current_task w"
proof -
  have d: "distinct (rotate (Suc i) xs)" using assms(1) by (simp add: sched_ok_def ring_def)
  have ne: "rotate (Suc i) xs \<noteq> []" using i by auto
  have "last (rotate (Suc i) xs) = current_task w" using rotate_last [OF i(1)] i(2) by simp
  then show ?thesis
    using first_runnable_last [OF ne d, of "runnable w" x] c x unfolding choice_def by simp
qed

text \<open>A switch from a well-formed state chooses a runnable task and changes no task's runnability.\<close>

lemma task_switch_inv:
  assumes inv: "sched_inv w xs" and i: "i < length xs" "xs ! i = current_task w"
  shows "\<exists>e w'. task_switch esp w = Some (e, w') \<and> sched_inv w' xs \<and> current_task w' = choice w xs i \<and>
     (\<forall>a \<in> set xs. runnable w' a = runnable w a)"
proof -
  have ok: "sched_ok w xs" and run: "t_state_of w (current_task w) = TASK_RUNNING" using inv by (simp_all add: sched_inv_def)
  let ?n = "choice w xs i"
  obtain nt where nt: "tasks w ?n = Some nt" using sched_ok_task [OF ok choice_in [OF i(1)]] by blast
  have "runnable w ?n" by (rule choice_runnable [OF inv i])
  moreover obtain w' where "task_switch esp w = Some (if ?n = current_task w then esp else kstack nt, w')"
      "sched_inv w' xs" "tasks w' = (\<lambda>a. map_option (switched esp (current_task w) ?n a) (tasks w a))" "current_task w' = ?n"
    using task_switch_ok [OF ok i refl nt] by blast
  moreover from this(3) have "runnable w' a = runnable w a" if "runnable w ?n" for a
    using that run by (cases "tasks w a") (auto simp: runnable_def t_state_of_def switched_def Let_def)
  ultimately show ?thesis by blast
qed

lemma switches_reach:
  assumes "sched_inv w xs" and "i < length xs" "xs ! i = current_task w"
    and "d < length xs" "runnable w (xs ! ((i + d) mod length xs))" and "d \<le> length es"
  shows "\<exists>k \<le> d. \<exists>w'. switches (take k es) w = Some w' \<and> current_task w' = xs ! ((i + d) mod length xs)"
  using assms
proof (induction d arbitrary: w i es rule: less_induct)
  case (less d)
  let ?n = "length xs"
  show ?case
  proof (cases d)
    case 0
    then show ?thesis using less.prems by (intro exI [of _ 0]) auto
  next
    case (Suc e)
    obtain esp es' where es: "es = esp # es'" using less.prems(6) Suc by (cases es) auto
    obtain r w1 where w1: "task_switch esp w = Some (r, w1)" "sched_inv w1 xs" "current_task w1 = choice w xs i"
        "\<forall>a \<in> set xs. runnable w1 a = runnable w a"
      using task_switch_inv [OF less.prems(1-3)] by blast
    have x: "rotate (Suc i) xs ! e = xs ! ((i + d) mod ?n)" "e < length (rotate (Suc i) xs)"
      using nth_rotate [of e xs "Suc i"] less.prems Suc by auto
    then obtain m where m: "m \<le> e" "choice w xs i = rotate (Suc i) xs ! m"
      using first_runnable_nth [OF x(2), of "runnable w"] less.prems(5) unfolding choice_def by auto
    let ?i = "(Suc i + m) mod ?n"
    have i': "?i < ?n" "xs ! ?i = current_task w1"
      using m x(2) w1(3) nth_rotate [of m xs "Suc i"] by (auto intro: mod_less_divisor)
    have "(?i + (e - m)) mod ?n = (Suc i + m + (e - m)) mod ?n" by (rule mod_add_left_eq)
    then have eq: "(?i + (e - m)) mod ?n = (i + d) mod ?n" using m Suc by simp
    have "xs ! ((i + d) mod ?n) \<in> set xs" using less.prems(2) by (intro nth_mem mod_less_divisor) linarith
    then have "\<exists>k \<le> e - m. \<exists>w'. switches (take k es') w1 = Some w' \<and> current_task w' = xs ! ((?i + (e - m)) mod ?n)"
      using w1 i' eq es Suc less.prems by (intro less.IH) auto
    then obtain k w' where "k \<le> e - m" "switches (take k es') w1 = Some w'" "current_task w' = xs ! ((i + d) mod ?n)"
      unfolding eq by blast
    then show ?thesis using Suc es w1(1) by (intro exI [of _ "Suc k"]) auto
  qed
qed

section \<open>Creating tasks\<close>

lemma kmalloc_sworld [frame_simps]:
  assumes "kmalloc sz w = Some (p, w')"
  shows "tasks w' = tasks w" "current_task w' = current_task w" "task_queue w' = task_queue w"
    "next_pid w' = next_pid w" "scheduler_active w' = scheduler_active w" "ram w' = ram w" "cr3 w' = cr3 w"
    "tss_esp0 w' = tss_esp0 w" "con w' = con w" "sworld.more w' = sworld.more w"
  using assms by (auto simp: kmalloc_def sys_trace_def split: option.splits if_splits prod.splits)

lemma kmalloc_next_pid:
  "kmalloc sz (w\<lparr>next_pid := n\<rparr>) = map_option (\<lambda>(p, w'). (p, w'\<lparr>next_pid := n\<rparr>)) (kmalloc sz w)"
  by (auto simp: kmalloc_def sys_trace_def split: option.splits)

lemma enqueue_ring:
  assumes r: "ring w xs" and t: "tasks w t = Some p" "t \<notin> set xs" and q: "task_queue w \<noteq> 0"
  shows "\<exists>w'. enqueue t w = Some w' \<and> ring w' (xs @ [t]) \<and>
     tasks w' = (tasks w)(t \<mapsto> p\<lparr>t_next := task_queue w\<rparr>,
       last xs \<mapsto> (the (tasks w (last xs)))\<lparr>t_next := t\<rparr>) \<and> w' = w\<lparr>tasks := tasks w'\<rparr>"
proof -
  let ?l = "last xs"
  let ?w = "set_task t (\<lambda>p. p\<lparr>t_next := task_queue w\<rparr>) (set_task ?l (\<lambda>p. p\<lparr>t_next := t\<rparr>) w)"
  have xs: "xs \<noteq> []" "distinct xs" "hd xs = task_queue w" using r by (auto simp: ring_def)
  have l: "?l \<in> set xs" using xs(1) by simp
  obtain lt where lt: "tasks w ?l = Some lt" using ring_in [OF r l] by blast
  have ne: "t \<noteq> ?l" using l t(2) by auto
  have tw: "tasks ?w = (tasks w)(t \<mapsto> p\<lparr>t_next := task_queue w\<rparr>, ?l \<mapsto> lt\<lparr>t_next := t\<rparr>)"
    using t(1) lt ne by (auto simp: fun_eq_iff)
  have "ring ?w (xs @ [t])"
    unfolding ring_def
  proof (intro conjI allI impI)
    fix i
    assume "i < length (xs @ [t])"
    then consider "Suc i < length xs" | "Suc i = length xs" | "i = length xs" by fastforce
    then show "\<exists>u. tasks ?w ((xs @ [t]) ! i) = Some u \<and> t_next u = (xs @ [t]) ! (Suc i mod length (xs @ [t]))"
    proof cases
      case 1
      then obtain u where u: "tasks w (xs ! i) = Some u" "t_next u = xs ! Suc i"
        using ring_nth [OF r, of i] by auto
      have "xs ! i \<noteq> t" using 1 t(2) nth_mem [of i xs] by auto
      moreover have "xs ! i \<noteq> ?l"
        using 1 xs nth_eq_iff_index_eq [of xs i "length xs - 1"] by (auto simp: last_conv_nth)
      ultimately show ?thesis using 1 u tw by (simp add: nth_append)
    next
      case 2
      then have "xs ! i = ?l" using xs(1) by (metis diff_Suc_1 last_conv_nth)
      then show ?thesis using 2 tw by (simp add: nth_append)
    next
      case 3
      then show ?thesis using tw ne xs by (simp add: nth_append hd_conv_nth)
    qed
  qed (use xs t(2) in simp_all)
  moreover have "enqueue t w = Some ?w" using q find_tail_ring [OF r] by (simp add: enqueue_def)
  ultimately show ?thesis using tw lt by (auto simp: set_task_def)
qed

lemma heap_live_bounds:
  assumes "heap_ok (kheap w)" and "(p, k) \<in> heap_live (kheap w)"
  shows "0 < p" "p + k < W32"
proof -
  obtain bs where "heap_inv (kheap w) bs" using assms(1) by (auto simp: heap_ok_def)
  then show "0 < p" "p + k < W32" using live_in_heap [OF assms] by (auto simp: heap_inv_def)
qed

text \<open>What \<open>kmalloc\<close> promises a caller that got a region.\<close>

lemma kmalloc_region:
  assumes "heap_ok (kheap w)" and "kmalloc n w = Some (p, w')" and "p \<noteq> 0"
  shows "heap_ok (kheap w')" "0 < p" "p + n < W32" "\<exists>k \<ge> n. (p, k) \<in> heap_live (kheap w')"
    "heap_live (kheap w) \<subseteq> heap_live (kheap w')" "\<And>j. (p, j) \<notin> heap_live (kheap w)"
    "\<And>q j. (q, j) \<in> heap_live (kheap w) \<Longrightarrow> p + n < q \<or> q + j < p"
proof -
  obtain k where k: "k \<ge> n" "heap_live (kheap w') = insert (p, k) (heap_live (kheap w))" "heap_ok (kheap w')"
    "\<forall>j. (p, j) \<notin> heap_live (kheap w)" using kh.alloc_live [OF assms] by blast
  then show "heap_ok (kheap w')" "heap_live (kheap w) \<subseteq> heap_live (kheap w')" "\<And>j. (p, j) \<notin> heap_live (kheap w)"
    "\<exists>k \<ge> n. (p, k) \<in> heap_live (kheap w')" by auto
  have "(p, k) \<in> heap_live (kheap w')" using k(2) by simp
  from heap_live_bounds [OF k(3) this] k(1) show "0 < p" "p + n < W32" by auto
  show "\<And>q j. (q, j) \<in> heap_live (kheap w) \<Longrightarrow> p + n < q \<or> q + j < p" by (rule kh.alloc_apart [OF assms])
qed

lemma push_words_frame:
  assumes "4 * length vs \<le> ktop" and "ktop < W32" and "j < length vs"
  shows "peek32 (snd (push_words vs (ktop, m))) (ktop - 4 * length vs + 4 * j) = rev vs ! j"
proof -
  have "ktop - 4 * length vs + 4 * j = ktop - 4 * Suc (length vs - Suc j)" using assms by simp
  then show ?thesis using push_words_nth [OF assms(1,2), of "length vs - Suc j" m] assms(3)
    by (simp add: rev_nth)
qed

text \<open>Linking a new control block into a well-formed queue.\<close>

lemma enqueue_sched:
  assumes inv: "sched_inv w xs" and t: "k \<ge> 28" "(t, k) \<in> heap_live H" "\<And>j. (t, j) \<notin> heap_live (kheap w)"
    and H: "heap_ok H" "heap_live (kheap w) \<subseteq> heap_live H" and p: "t_state p = TASK_READY"
    and v: "kheap v = H" "tasks v = (tasks w)(t \<mapsto> p)" "task_queue v = task_queue w"
      "current_task v = current_task w" "scheduler_active v = scheduler_active w"
  shows "\<exists>w'. enqueue t v = Some w' \<and> sched_inv w' (xs @ [t]) \<and> w' = v\<lparr>tasks := tasks w'\<rparr> \<and>
     tasks w' t = Some (p\<lparr>t_next := task_queue w\<rparr>) \<and>
     (\<forall>a. a \<noteq> t \<longrightarrow> map_option (t_next_update (\<lambda>_. 0)) (tasks w' a) = map_option (t_next_update (\<lambda>_. 0)) (tasks w a))"
proof -
  have ok: "sched_ok w xs" using inv by (simp add: sched_inv_def)
  have ring: "ring w xs" using ok by (simp add: sched_ok_def)
  have nt: "t \<notin> set xs" using ok t(3) by (auto simp: sched_ok_def)
  have ringv: "ring v xs"
    by (rule ring_cong [OF ring v(3)]) (use nt in \<open>auto simp: v(2)\<close>)
  have "task_queue w \<in> set xs" using ring by (metis hd_in_set ring_def)
  then have q: "task_queue v \<noteq> 0" using sched_ok_nonnull [OF ok] v(3) by auto
  have tv: "tasks v t = Some p" using v(2) by simp
  obtain w' where w': "enqueue t v = Some w'" "ring w' (xs @ [t])"
      "tasks w' = (tasks v)(t \<mapsto> p\<lparr>t_next := task_queue v\<rparr>, last xs \<mapsto> (the (tasks v (last xs)))\<lparr>t_next := t\<rparr>)"
      "w' = v\<lparr>tasks := tasks w'\<rparr>"
    using enqueue_ring [OF ringv tv nt q] by blast
  have l: "last xs \<in> set xs" using ring by (simp add: ring_def)
  obtain lt where lt: "tasks w (last xs) = Some lt" using ring_in [OF ring l] by blast
  have lt_ne: "last xs \<noteq> t" using l nt by auto
  have keep: "map_option (t_next_update (\<lambda>_. 0)) (tasks w' a) = map_option (t_next_update (\<lambda>_. 0)) (tasks w a)"
    if "a \<noteq> t" for a using that lt lt_ne by (auto simp: w'(3) v(2))
  have tt: "tasks w' t = Some (p\<lparr>t_next := task_queue w\<rparr>)" using lt_ne by (simp add: w'(3) v)
  have state: "t_state_of w' a = t_state_of w a" if "a \<noteq> t" for a
    using that lt lt_ne by (auto simp: t_state_of_def w'(3) v(2))
  have frame: "kheap w' = H" "current_task w' = current_task w" "scheduler_active w' = scheduler_active w"
    using v by (subst w'(4), simp)+
  have ct: "current_task w \<in> set xs" and act: "scheduler_active w" using ok by (simp_all add: sched_ok_def)
  then have "current_task w \<noteq> t" using nt by auto
  then have run: "t_state_of w' (current_task w') = TASK_RUNNING"
    using inv state [of "current_task w"] frame by (simp add: sched_inv_def)
  have A: "\<forall>a \<in> set (xs @ [t]). \<exists>k \<ge> 28. (a, k) \<in> heap_live (kheap w')"
    using ok t(1,2) H(2) frame(1) by (fastforce simp: sched_ok_def)
  have B: "\<forall>a \<in> set (xs @ [t]). t_state_of w' a = TASK_RUNNING \<longrightarrow> a = current_task w'"
  proof (intro ballI impI)
    fix a
    assume that: "a \<in> set (xs @ [t])" "t_state_of w' a = TASK_RUNNING"
    have "t_state_of w' t = TASK_READY" using tt p by (simp add: t_state_of_def)
    then have a: "a \<noteq> t" using that(2) by auto
    then have "a \<in> set xs" "t_state_of w a = TASK_RUNNING" using that state [OF a] by auto
    then show "a = current_task w'" using ok frame(2) by (simp add: sched_ok_def)
  qed
  have C: "heap_ok (kheap w')" "scheduler_active w'" "current_task w' \<in> set (xs @ [t])"
    using H(1) act ct by (simp_all add: frame)
  have "sched_inv w' (xs @ [t])"
    unfolding sched_inv_def sched_ok_def by (intro conjI A B C run w'(2))
  then show ?thesis using w' tt keep by blast
qed

lemma load_frame_pushed:
  assumes "length vs = 17" and "68 \<le> ktop" and "ktop < W32"
    and m: "\<And>x. ktop - 68 \<le> x \<Longrightarrow> x < ktop \<Longrightarrow> m' x = snd (push_words vs (ktop, m)) x"
  shows "load_frame m' (ktop - 68) =
     \<lparr>if_gs = vs ! 16, if_fs = vs ! 15, if_es = vs ! 14, if_ds = vs ! 13, if_edi = vs ! 12, if_esi = vs ! 11,
      if_ebp = vs ! 10, if_esp_dummy = vs ! 9, if_ebx = vs ! 8, if_edx = vs ! 7, if_ecx = vs ! 6, if_eax = vs ! 5,
      if_eip = vs ! 4, if_cs = vs ! 3, if_eflags = vs ! 2, if_esp = vs ! 1, if_ss = vs ! 0\<rparr>"
proof -
  have "peek32 m' (ktop - 68 + 4 * j) = vs ! (16 - j)" if "j < 17" for j
  proof -
    have "peek32 m' (ktop - 68 + 4 * j) = peek32 (snd (push_words vs (ktop, m))) (ktop - 68 + 4 * j)"
      unfolding peek32_def using that assms by (intro arg_cong [where f = "\<lambda>l. rd32 l 0"] peek_bytes_cong m) auto
    also have "\<dots> = rev vs ! j" using push_words_frame [of vs ktop j m] that assms(1-3) by simp
    finally show ?thesis using that assms(1) by (simp add: rev_nth)
  qed
  from this [of 0] this [of 1] this [of 2] this [of 3] this [of 4] this [of 5] this [of 6] this [of 7] this [of 8]
    this [of 9] this [of 10] this [of 11] this [of 12] this [of 13] this [of 14] this [of 15] this [of 16]
  show ?thesis by (simp add: load_frame_def Let_def)
qed

text \<open>The memory a user task starts with.\<close>

definition user_words :: "nat \<Rightarrow> nat \<Rightarrow> u32 list" where
  "user_words up entry = [0x23, of_nat (up + 4092), 0x202, 0x1B, of_nat entry] @ frame_tail 0x23"

definition user_image :: "nat \<Rightarrow> nat \<Rightarrow> nat \<Rightarrow> (nat \<Rightarrow> u8) \<Rightarrow> nat \<Rightarrow> u8" where
  "user_image kp up entry m =
     snd (push_words (user_words up entry) (kp + 4096, snd (push_words [of_nat up] (up + 4096,
       poke_bytes up trampoline m))))"

definition user_frame :: "nat \<Rightarrow> nat \<Rightarrow> interrupt_frame" where
  "user_frame up entry =
     \<lparr>if_gs = 0x23, if_fs = 0x23, if_es = 0x23, if_ds = 0x23, if_edi = 0, if_esi = 0, if_ebp = 0, if_esp_dummy = 0,
      if_ebx = 0, if_edx = 0, if_ecx = 0, if_eax = 0, if_eip = of_nat entry, if_cs = 0x1B, if_eflags = 0x202,
      if_esp = of_nat (up + 4092), if_ss = 0x23\<rparr>"

lemma length_trampoline: "length trampoline = 7"
  by (simp add: trampoline_def)

lemma length_user_words: "length (user_words up entry) = 17"
  by (simp add: user_words_def frame_tail_def)

lemma user_words_nth:
  "user_words up entry = [0x23, of_nat (up + 4092), 0x202, 0x1B, of_nat entry, 0, 0, 0, 0, 0, 0, 0, 0, 0x23, 0x23, 0x23, 0x23]"
proof -
  have "replicate 8 (0 :: u32) = [0, 0, 0, 0, 0, 0, 0, 0]" "replicate 4 (0x23 :: u32) = [0x23, 0x23, 0x23, 0x23]"
    by (simp_all add: numeral_eq_Suc)
  then show ?thesis by (simp add: user_words_def frame_tail_def)
qed

lemma user_image_spec:
  assumes k: "kp + 4096 < W32" and u: "up + 4096 < W32" and apart: "kp + 4096 < up \<or> up + 4096 < kp"
  shows "load_frame (user_image kp up entry m) (kp + 4028) = user_frame up entry"
    and "peek32 (user_image kp up entry m) (up + 4092) = of_nat up"
    and "i < 7 \<Longrightarrow> user_image kp up entry m (up + i) = trampoline ! i"
    and "\<not> (kp \<le> x \<and> x < kp + 4096) \<Longrightarrow> \<not> (up \<le> x \<and> x < up + 4096) \<Longrightarrow> user_image kp up entry m x = m x"
proof -
  let ?m1 = "poke_bytes up trampoline m"
  let ?m2 = "snd (push_words [of_nat up] (up + 4096, ?m1))"
  let ?vs = "user_words up entry"
  have m3: "user_image kp up entry m x = ?m2 x" if "\<not> (kp + 4028 \<le> x \<and> x < kp + 4096)" for x
    unfolding user_image_def using that k by (intro push_words_apart) (auto simp: length_user_words)
  have m2: "?m2 x = ?m1 x" if "\<not> (up + 4092 \<le> x \<and> x < up + 4096)" for x
    using that u by (intro push_words_apart) auto
  have "load_frame (user_image kp up entry m) (kp + 4096 - 68) =
     \<lparr>if_gs = ?vs ! 16, if_fs = ?vs ! 15, if_es = ?vs ! 14, if_ds = ?vs ! 13, if_edi = ?vs ! 12, if_esi = ?vs ! 11,
      if_ebp = ?vs ! 10, if_esp_dummy = ?vs ! 9, if_ebx = ?vs ! 8, if_edx = ?vs ! 7, if_ecx = ?vs ! 6, if_eax = ?vs ! 5,
      if_eip = ?vs ! 4, if_cs = ?vs ! 3, if_eflags = ?vs ! 2, if_esp = ?vs ! 1, if_ss = ?vs ! 0\<rparr>"
    using k by (intro load_frame_pushed [where m = ?m2]) (auto simp: length_user_words user_image_def)
  moreover have "kp + 4096 - 68 = kp + 4028" by simp
  ultimately show "load_frame (user_image kp up entry m) (kp + 4028) = user_frame up entry"
    by (simp only: user_words_nth) (simp add: user_frame_def)
  have "peek32 ?m2 (up + 4096 - 4 * Suc 0) = [of_nat up] ! 0"
    using u by (intro push_words_nth) auto
  moreover have "peek32 (user_image kp up entry m) (up + 4092) = peek32 ?m2 (up + 4092)"
    unfolding peek32_def using u apart by (intro arg_cong [where f = "\<lambda>l. rd32 l 0"] peek_bytes_cong m3) auto
  moreover have "up + 4096 - 4 * Suc 0 = up + 4092" by simp
  ultimately show "peek32 (user_image kp up entry m) (up + 4092) = of_nat up" by (simp only: nth_Cons_0)
  show "user_image kp up entry m (up + i) = trampoline ! i" if "i < 7"
    using m3 [of "up + i"] m2 [of "up + i"] poke_bytes_at [of up trampoline m "up + i"] that u apart by (auto simp: length_trampoline)
  show "user_image kp up entry m x = m x" if "\<not> (kp \<le> x \<and> x < kp + 4096)" "\<not> (up \<le> x \<and> x < up + 4096)"
    using m3 [of x] m2 [of x] poke_bytes_at [of up trampoline m x] that u by (auto simp: length_trampoline)
qed

lemma task_create_user_eq:
  assumes k1: "kmalloc 28 w = Some (t, w1)" and k2: "kmalloc 4096 w1 = Some (kp, w2)"
    and k3: "kmalloc 4096 w2 = Some (up, w3)" and b: "kp + 4096 < W32" "up + 4096 < W32"
  shows "task_create entry pd True w = map_option (Pair t) (enqueue t
     (w3\<lparr>next_pid := (next_pid w + 1) mod W32, ram := user_image kp up entry (ram w),
         tasks := (tasks w)(t \<mapsto> \<lparr>t_pid = next_pid w, t_state = TASK_READY, page_directory = pd, kstack = kp + 4028,
           kstack_top_page = kp + 4096, ustack = up + 4096, t_next = 0\<rparr>)\<rparr>))"
proof -
  let ?n = "(next_pid w + 1) mod W32"
  have k2': "kmalloc 4096 (w1\<lparr>next_pid := ?n\<rparr>) = Some (kp, w2\<lparr>next_pid := ?n\<rparr>)"
    and k3': "kmalloc 4096 (w2\<lparr>next_pid := ?n\<rparr>) = Some (up, w3\<lparr>next_pid := ?n\<rparr>)"
    using k2 k3 by (simp_all add: kmalloc_next_pid)
  have f: "next_pid w1 = next_pid w" "ram w3 = ram w" "tasks w3 = tasks w"
    using kmalloc_sworld [OF k1] kmalloc_sworld [OF k2] kmalloc_sworld [OF k3] by simp_all
  have r: "ram (w3\<lparr>next_pid := ?n\<rparr>) = ram w" "tasks (w3\<lparr>next_pid := ?n\<rparr>) = tasks w" using f by simp_all
  let ?m1 = "poke_bytes up trampoline (ram w)"
  obtain m2 where u: "push_words [of_nat up] (up + 4096, ?m1) = (up + 4092, m2)"
  proof (cases "push_words [of_nat up] (up + 4096, ?m1)")
    case (Pair a m)
    then show ?thesis using push_words_sp [of "[of_nat up]" "up + 4096" ?m1] b that [of m] by simp
  qed
  have "fst (push_words (user_words up entry) (kp + 4096, m2)) = kp + 4028"
    using push_words_sp [of "user_words up entry" "kp + 4096" m2] b by (simp add: length_user_words)
  moreover have "snd (push_words (user_words up entry) (kp + 4096, m2)) = user_image kp up entry (ram w)"
    unfolding user_image_def u by simp
  ultimately have v: "push_words (user_words up entry) (kp + 4096, m2) = (kp + 4028, user_image kp up entry (ram w))"
    by (rule prod_eqI [where q = "(kp + 4028, user_image kp up entry (ram w))", unfolded fst_conv snd_conv])
  have up0: "(up + 4096) mod W32 = up + 4096" "(kp + 4096) mod W32 = kp + 4096" using b by simp_all
  have pcb: "zero_task\<lparr>t_pid := next_pid w, t_state := TASK_READY, page_directory := pd, kstack_top_page := kp + 4096,
       ustack := up + 4096, kstack := kp + 4028\<rparr> =
      \<lparr>t_pid = next_pid w, t_state = TASK_READY, page_directory = pd, kstack = kp + 4028,
           kstack_top_page = kp + 4096, ustack = up + 4096, t_next = 0\<rparr>" by (simp add: zero_task_def)
  show ?thesis
    unfolding task_create_def k1 option.case prod.case f(1) k2' Let_def if_True k3'
    by (simp only: r up0 u prod.case user_words_def [symmetric] v pcb)
qed

text \<open>A kernel task gets a frame without a stack switch.\<close>

definition kernel_words :: "nat \<Rightarrow> u32 list" where
  "kernel_words entry = [0x202, 0x08, of_nat entry] @ frame_tail 0x10"

definition kernel_image :: "nat \<Rightarrow> nat \<Rightarrow> (nat \<Rightarrow> u8) \<Rightarrow> nat \<Rightarrow> u8" where
  "kernel_image kp entry m = snd (push_words (kernel_words entry) (kp + 4096, m))"

lemma kernel_words_nth:
  "kernel_words entry = [0x202, 0x08, of_nat entry, 0, 0, 0, 0, 0, 0, 0, 0, 0x10, 0x10, 0x10, 0x10]"
proof -
  have "replicate 8 (0 :: u32) = [0, 0, 0, 0, 0, 0, 0, 0]" "replicate 4 (0x10 :: u32) = [0x10, 0x10, 0x10, 0x10]"
    by (simp_all add: numeral_eq_Suc)
  then show ?thesis by (simp add: kernel_words_def frame_tail_def)
qed

lemma length_kernel_words: "length (kernel_words entry) = 15"
  by (simp add: kernel_words_nth)

lemma kernel_image_spec:
  assumes "kp + 4096 < W32"
  shows "map (\<lambda>j. peek32 (kernel_image kp entry m) (kp + 4036 + 4 * j)) [0..<15] = rev (kernel_words entry)"
    and "\<not> (kp \<le> x \<and> x < kp + 4096) \<Longrightarrow> kernel_image kp entry m x = m x"
proof -
  note len = length_kernel_words
  have e: "kp + 4096 - 4 * 15 = kp + 4036" by simp
  show "map (\<lambda>j. peek32 (kernel_image kp entry m) (kp + 4036 + 4 * j)) [0..<15] = rev (kernel_words entry)"
  proof (rule nth_equalityI)
    fix j
    assume "j < length (map (\<lambda>j. peek32 (kernel_image kp entry m) (kp + 4036 + 4 * j)) [0..<15])"
    then have j: "j < 15" by simp
    have "peek32 (snd (push_words (kernel_words entry) (kp + 4096, m))) (kp + 4096 - 4 * 15 + 4 * j) = rev (kernel_words entry) ! j"
      using push_words_frame [of "kernel_words entry" "kp + 4096" j m] len j assms by simp
    then show "map (\<lambda>j. peek32 (kernel_image kp entry m) (kp + 4036 + 4 * j)) [0..<15] ! j = rev (kernel_words entry) ! j"
      unfolding e kernel_image_def using j by simp
  qed (simp add: len)
  show "kernel_image kp entry m x = m x" if "\<not> (kp \<le> x \<and> x < kp + 4096)"
    unfolding kernel_image_def using that assms len by (intro push_words_apart) auto
qed

lemma task_create_kernel_eq:
  assumes k1: "kmalloc 28 w = Some (t, w1)" and k2: "kmalloc 4096 w1 = Some (kp, w2)" and b: "kp + 4096 < W32"
  shows "task_create entry pd False w = map_option (Pair t) (enqueue t
     (w2\<lparr>next_pid := (next_pid w + 1) mod W32, ram := kernel_image kp entry (ram w),
         tasks := (tasks w)(t \<mapsto> \<lparr>t_pid = next_pid w, t_state = TASK_READY, page_directory = pd, kstack = kp + 4036,
           kstack_top_page = kp + 4096, ustack = 0, t_next = 0\<rparr>)\<rparr>))"
proof -
  let ?n = "(next_pid w + 1) mod W32"
  have k2': "kmalloc 4096 (w1\<lparr>next_pid := ?n\<rparr>) = Some (kp, w2\<lparr>next_pid := ?n\<rparr>)"
    using k2 by (simp add: kmalloc_next_pid)
  have f: "next_pid w1 = next_pid w" "ram w2 = ram w" "tasks w2 = tasks w"
    using kmalloc_sworld [OF k1] kmalloc_sworld [OF k2] by simp_all
  have r: "ram (w2\<lparr>next_pid := ?n\<rparr>) = ram w" "tasks (w2\<lparr>next_pid := ?n\<rparr>) = tasks w" using f by simp_all
  have "fst (push_words (kernel_words entry) (kp + 4096, ram w)) = kp + 4036"
    using push_words_sp [of "kernel_words entry" "kp + 4096" "ram w"] b by (simp add: length_kernel_words)
  moreover have "snd (push_words (kernel_words entry) (kp + 4096, ram w)) = kernel_image kp entry (ram w)"
    unfolding kernel_image_def by simp
  ultimately have v: "push_words (kernel_words entry) (kp + 4096, ram w) = (kp + 4036, kernel_image kp entry (ram w))"
    by (rule prod_eqI [where q = "(kp + 4036, kernel_image kp entry (ram w))", unfolded fst_conv snd_conv])
  have kp0: "(kp + 4096) mod W32 = kp + 4096" using b by simp
  have pcb: "zero_task\<lparr>t_pid := next_pid w, t_state := TASK_READY, page_directory := pd, kstack_top_page := kp + 4096,
       kstack := kp + 4036\<rparr> =
      \<lparr>t_pid = next_pid w, t_state = TASK_READY, page_directory = pd, kstack = kp + 4036,
           kstack_top_page = kp + 4096, ustack = 0, t_next = 0\<rparr>" by (simp add: zero_task_def)
  show ?thesis
    unfolding task_create_def k1 option.case prod.case f(1) k2' Let_def if_False
    by (simp only: r kp0 prod.case kernel_words_def [symmetric] v pcb)
qed

lemma init_scheduler_heap:
  assumes inv: "heap_inv (kheap w) bs" and a: "alloc_list 28 bs = Some (p, bs')"
  shows "\<exists>w'. init_scheduler stack_space w = Some w' \<and> sched_inv w' [p + META] \<and> heap_inv (kheap w') bs' \<and>
     tasks w' (p + META) = Some \<lparr>t_pid = next_pid w, t_state = TASK_RUNNING, page_directory = cr3 w, kstack = 0,
       kstack_top_page = (stack_space + 8192) mod W32, ustack = 0, t_next = p + META\<rparr>"
proof -
  obtain w1 where k: "kmalloc 28 w = Some (p + 12, w1)" "heap_inv (kheap w1) bs'"
    using kmalloc_cases(2) [OF inv a] by blast
  have ok: "heap_ok (kheap w)" using inv by (auto simp: heap_ok_def)
  have ne: "p + 12 \<noteq> 0" by simp
  note region = kmalloc_region [OF ok k(1) ne]
  have "init_scheduler stack_space w = Some (w1\<lparr>tasks := (tasks w1)(p + 12 \<mapsto> zero_task\<lparr>t_pid := next_pid w1, t_state := TASK_RUNNING,
                     page_directory := cr3 w1, kstack_top_page := (stack_space + 8192) mod W32, t_next := p + 12\<rparr>),
                   current_task := p + 12, next_pid := (next_pid w1 + 1) mod W32, task_queue := p + 12,
                   scheduler_active := True\<rparr>)"
    using k(1) by (simp add: init_scheduler_def)
  moreover have "next_pid w1 = next_pid w" "cr3 w1 = cr3 w" using kmalloc_sworld [OF k(1)] by simp_all
  ultimately show ?thesis using k(2) region(1,4)
    by (auto simp: sched_inv_def sched_ok_def ring_def t_state_of_def zero_task_def)
qed

section \<open>Properties of the scheduler\<close>

lemma task_create_user_core:
  assumes inv: "sched_inv w xs" and k1: "kmalloc 28 w = Some (t, w1)" "t \<noteq> 0"
    and k2: "kmalloc 4096 w1 = Some (kp, w2)" "kp \<noteq> 0" and k3: "kmalloc 4096 w2 = Some (up, w3)" "up \<noteq> 0"
  shows "\<exists>w'. task_create entry pd True w = Some (t, w') \<and> sched_inv w' (xs @ [t]) \<and>
     tasks w' t = Some \<lparr>t_pid = next_pid w, t_state = TASK_READY, page_directory = pd, kstack = kp + 4028,
           kstack_top_page = kp + 4096, ustack = up + 4096, t_next = task_queue w\<rparr> \<and>
     ram w' = user_image kp up entry (ram w) \<and>
     next_pid w' = (next_pid w + 1) mod W32 \<and> current_task w' = current_task w \<and>
     kheap w' = kheap w3 \<and> sworld.more w' = sworld.more w \<and>
     (\<forall>a. a \<noteq> t \<longrightarrow> map_option (t_next_update (\<lambda>_. 0)) (tasks w' a) = map_option (t_next_update (\<lambda>_. 0)) (tasks w a))"
proof -
  have ok: "heap_ok (kheap w)" using inv by (simp add: sched_inv_def sched_ok_def)
  note r1 = kmalloc_region [OF ok k1] and r2 = kmalloc_region [OF kmalloc_region(1) [OF ok k1] k2]
  note r3 = kmalloc_region [OF r2(1) k3]
  obtain j where j: "j \<ge> 28" "(t, j) \<in> heap_live (kheap w1)" using r1(4) by blast
  let ?p = "\<lparr>t_pid = next_pid w, t_state = TASK_READY, page_directory = pd, kstack = kp + 4028,
           kstack_top_page = kp + 4096, ustack = up + 4096, t_next = 0\<rparr>"
  let ?v = "w3\<lparr>next_pid := (next_pid w + 1) mod W32, ram := user_image kp up entry (ram w), tasks := (tasks w)(t \<mapsto> ?p)\<rparr>"
  have live: "heap_live (kheap w) \<subseteq> heap_live (kheap w3)" "(t, j) \<in> heap_live (kheap w3)"
    using r1(5) r2(5) r3(5) j by auto
  have fr: "task_queue ?v = task_queue w" "current_task ?v = current_task w" "scheduler_active ?v = scheduler_active w"
    and more: "sworld.more ?v = sworld.more w"
    using kmalloc_sworld [OF k1(1)] kmalloc_sworld [OF k2(1)] kmalloc_sworld [OF k3(1)] by simp_all
  have v: "kheap ?v = kheap w3" "tasks ?v = (tasks w)(t \<mapsto> ?p)" by simp_all
  have ready: "t_state ?p = TASK_READY" by simp
  obtain w' where w': "enqueue t ?v = Some w'" "sched_inv w' (xs @ [t])" "w' = ?v\<lparr>tasks := tasks w'\<rparr>"
     "tasks w' t = Some (?p\<lparr>t_next := task_queue w\<rparr>)"
     "\<forall>a. a \<noteq> t \<longrightarrow> map_option (t_next_update (\<lambda>_. 0)) (tasks w' a) = map_option (t_next_update (\<lambda>_. 0)) (tasks w a)"
    using enqueue_sched [OF inv j(1) live(2) r1(6) r3(1) live(1) ready v fr] by blast
  have "task_create entry pd True w = Some (t, w')"
    unfolding task_create_user_eq [OF k1(1) k2(1) k3(1) r2(3) r3(3)] w'(1) by simp
  moreover have "ram w' = user_image kp up entry (ram w)" "next_pid w' = (next_pid w + 1) mod W32"
      "current_task w' = current_task w" "kheap w' = kheap w3" "sworld.more w' = sworld.more w"
    using fr(2) more by (subst w'(3), simp)+
  ultimately show ?thesis using w' by auto
qed

text \<open>
  C21: on a well-formed queue \<open>task_create\<close> of a user task terminates and, when the three
  allocations succeed, appends the new control block to the ring, ready to run with the next pid; the
  stack pointer it stores points at an interrupt frame in the new kernel stack that enters the program
  at \<open>entry\<close> in ring 3 with interrupts enabled, the user stack holds the return address of the exit
  trampoline, the other control blocks change in nothing but their links, and no memory handed out
  before is written.
\<close>

theorem task_create_user:
  assumes inv: "sched_inv w xs" and k1: "kmalloc 28 w = Some (t, w1)" "t \<noteq> 0"
    and k2: "kmalloc 4096 w1 = Some (kp, w2)" "kp \<noteq> 0" and k3: "kmalloc 4096 w2 = Some (up, w3)" "up \<noteq> 0"
  shows "\<exists>w'. task_create entry pd True w = Some (t, w') \<and> sched_inv w' (xs @ [t]) \<and>
     tasks w' t = Some \<lparr>t_pid = next_pid w, t_state = TASK_READY, page_directory = pd, kstack = kp + 4028,
           kstack_top_page = kp + 4096, ustack = up + 4096, t_next = task_queue w\<rparr> \<and>
     next_pid w' = (next_pid w + 1) mod W32 \<and> current_task w' = current_task w \<and>
     load_frame (ram w') (kp + 4028) = user_frame up entry \<and>
     peek32 (ram w') (up + 4092) = of_nat up \<and> (\<forall>i < 7. ram w' (up + i) = trampoline ! i) \<and>
     (\<forall>a. a \<noteq> t \<longrightarrow> map_option (t_next_update (\<lambda>_. 0)) (tasks w' a) = map_option (t_next_update (\<lambda>_. 0)) (tasks w a)) \<and>
     (\<forall>(q, k) \<in> heap_live (kheap w). \<forall>x. q \<le> x \<and> x < q + k \<longrightarrow> ram w' x = ram w x)"
proof -
  have ok: "heap_ok (kheap w)" using inv by (simp add: sched_inv_def sched_ok_def)
  note r1 = kmalloc_region [OF ok k1] and r2 = kmalloc_region [OF kmalloc_region(1) [OF ok k1] k2]
  note r3 = kmalloc_region [OF r2(1) k3]
  obtain l where l: "l \<ge> 4096" "(kp, l) \<in> heap_live (kheap w2)" using r2(4) by blast
  have apart: "kp + 4096 < up \<or> up + 4096 < kp" using r3(7) [OF l(2)] l(1) by auto
  have keep: "user_image kp up entry (ram w) x = ram w x" if "(q, k) \<in> heap_live (kheap w)" "q \<le> x" "x < q + k" for q k x
    using r2(7) [of q k] r3(7) [of q k] r1(5) r2(5) that
    by (intro user_image_spec(4) [OF r2(3) r3(3) apart]) auto
  show ?thesis
    using task_create_user_core [OF assms, of entry pd] keep
      user_image_spec(1-3) [OF r2(3) r3(3) apart, where entry = entry and m = "ram w"] by auto
qed

text \<open>The state right after \<open>init_scheduler\<close>, for concrete instances.\<close>

definition sched_start :: "sworld" where
  "sched_start = the (init_scheduler 0x108000 (sworld0 (\<lambda>_. 0) 0x200000 (\<lambda>_. 0)))"

lemma sworld0_inv: "heap_inv (kheap (sworld0 (\<lambda>_. 0) 0x200000 memory)) [(0x200000, HEAP_SIZE - META, True)]"
  using hworld0_inv [of "0x200000" "\<lambda>_. 0"] by (simp add: sworld0_def hworld.defs)

lemma sched_start:
  "sched_inv sched_start [0x20000C]" "heap_inv (kheap sched_start) [(0x200000, 28, False), (0x200028, 1048524, True)]"
  "init_scheduler 0x108000 (sworld0 (\<lambda>_. 0) 0x200000 (\<lambda>_. 0)) = Some sched_start"
proof -
  have "alloc_list 28 [(0x200000, HEAP_SIZE - META, True)] =
      Some (0x200000, [(0x200000, 28, False), (0x200028, 1048524, True)])" by simp
  from init_scheduler_heap [OF sworld0_inv this, of "0x108000" "\<lambda>_. 0"]
  show "sched_inv sched_start [0x20000C]" "heap_inv (kheap sched_start) [(0x200000, 28, False), (0x200028, 1048524, True)]"
    "init_scheduler 0x108000 (sworld0 (\<lambda>_. 0) 0x200000 (\<lambda>_. 0)) = Some sched_start"
    by (auto simp: sched_start_def)
qed

lemma sched_start_allocs:
  obtains w1 w2 w3 where "kmalloc 28 sched_start = Some (0x200034, w1)" "kmalloc 4096 w1 = Some (0x20005C, w2)"
    "kmalloc 4096 w2 = Some (0x201068, w3)"
proof -
  have a1: "alloc_list 28 [(0x200000, 28, False), (0x200028, 1048524, True)] =
      Some (0x200028, [(0x200000, 28, False), (0x200028, 28, False), (0x200050, 1048484, True)])" by simp
  obtain w1 where w1: "kmalloc 28 sched_start = Some (0x200034, w1)"
      "heap_inv (kheap w1) [(0x200000, 28, False), (0x200028, 28, False), (0x200050, 1048484, True)]"
    using kmalloc_cases(2) [OF sched_start(2) a1] by auto
  have a2: "alloc_list 4096 [(0x200000, 28, False), (0x200028, 28, False), (0x200050, 1048484, True)] =
      Some (0x200050, [(0x200000, 28, False), (0x200028, 28, False), (0x200050, 4096, False), (0x20105C, 1044376, True)])"
    by simp
  obtain w2 where w2: "kmalloc 4096 w1 = Some (0x20005C, w2)"
      "heap_inv (kheap w2) [(0x200000, 28, False), (0x200028, 28, False), (0x200050, 4096, False), (0x20105C, 1044376, True)]"
    using kmalloc_cases(2) [OF w1(2) a2] by auto
  have a3: "alloc_list 4096 [(0x200000, 28, False), (0x200028, 28, False), (0x200050, 4096, False), (0x20105C, 1044376, True)] =
      Some (0x20105C, [(0x200000, 28, False), (0x200028, 28, False), (0x200050, 4096, False), (0x20105C, 4096, False), (0x202068, 1040268, True)])"
    by simp
  from kmalloc_cases(2) [OF w2(2) a3] w1(1) w2(1) that show ?thesis by auto
qed

theorem task_create_user_witness:
  "\<exists>w'. task_create 0x300000 0 True sched_start = Some (0x200034, w') \<and> sched_inv w' [0x20000C, 0x200034] \<and>
     load_frame (ram w') 0x201018 = user_frame 0x201068 0x300000"
proof -
  obtain w1 w2 w3 where k: "kmalloc 28 sched_start = Some (0x200034, w1)" "kmalloc 4096 w1 = Some (0x20005C, w2)"
    "kmalloc 4096 w2 = Some (0x201068, w3)" by (rule sched_start_allocs)
  from task_create_user [OF sched_start(1) k(1) _ k(2) _ k(3), of "0x300000" 0] show ?thesis by auto
qed

text \<open>
  \<open>task_create\<close> of a kernel task appends the new control block to the ring in the same way; its
  stack pointer points at the fifteen words of an interrupt frame that enters \<open>entry\<close> in ring 0 with
  interrupts enabled and no stack switch, and no memory handed out before is written.
\<close>

theorem task_create_kernel:
  assumes inv: "sched_inv w xs" and k1: "kmalloc 28 w = Some (t, w1)" "t \<noteq> 0"
    and k2: "kmalloc 4096 w1 = Some (kp, w2)" "kp \<noteq> 0"
  shows "\<exists>w'. task_create entry pd False w = Some (t, w') \<and> sched_inv w' (xs @ [t]) \<and>
     tasks w' t = Some \<lparr>t_pid = next_pid w, t_state = TASK_READY, page_directory = pd, kstack = kp + 4036,
           kstack_top_page = kp + 4096, ustack = 0, t_next = task_queue w\<rparr> \<and>
     map (\<lambda>j. peek32 (ram w') (kp + 4036 + 4 * j)) [0..<15] =
       [0x10, 0x10, 0x10, 0x10, 0, 0, 0, 0, 0, 0, 0, 0, of_nat entry, 0x08, 0x202] \<and>
     (\<forall>(q, k) \<in> heap_live (kheap w). \<forall>x. q \<le> x \<and> x < q + k \<longrightarrow> ram w' x = ram w x)"
proof -
  have ok: "heap_ok (kheap w)" using inv by (simp add: sched_inv_def sched_ok_def)
  note r1 = kmalloc_region [OF ok k1] and r2 = kmalloc_region [OF kmalloc_region(1) [OF ok k1] k2]
  obtain j where j: "j \<ge> 28" "(t, j) \<in> heap_live (kheap w1)" using r1(4) by blast
  let ?p = "\<lparr>t_pid = next_pid w, t_state = TASK_READY, page_directory = pd, kstack = kp + 4036,
           kstack_top_page = kp + 4096, ustack = 0, t_next = 0\<rparr>"
  let ?v = "w2\<lparr>next_pid := (next_pid w + 1) mod W32, ram := kernel_image kp entry (ram w), tasks := (tasks w)(t \<mapsto> ?p)\<rparr>"
  have live: "heap_live (kheap w) \<subseteq> heap_live (kheap w2)" "(t, j) \<in> heap_live (kheap w2)"
    using r1(5) r2(5) j by auto
  have fr: "task_queue ?v = task_queue w" "current_task ?v = current_task w" "scheduler_active ?v = scheduler_active w"
    using kmalloc_sworld [OF k1(1)] kmalloc_sworld [OF k2(1)] by simp_all
  have v: "kheap ?v = kheap w2" "tasks ?v = (tasks w)(t \<mapsto> ?p)" by simp_all
  have ready: "t_state ?p = TASK_READY" by simp
  obtain w' where w': "enqueue t ?v = Some w'" "sched_inv w' (xs @ [t])" "w' = ?v\<lparr>tasks := tasks w'\<rparr>"
     "tasks w' t = Some (?p\<lparr>t_next := task_queue w\<rparr>)"
    using enqueue_sched [OF inv j(1) live(2) r1(6) r2(1) live(1) ready v fr] by blast
  have "task_create entry pd False w = Some (t, w')"
    unfolding task_create_kernel_eq [OF k1(1) k2(1) r2(3)] w'(1) by simp
  moreover have m: "ram w' = kernel_image kp entry (ram w)" by (subst w'(3)) simp
  moreover have "ram w' x = ram w x" if "(q, k) \<in> heap_live (kheap w)" "q \<le> x" "x < q + k" for q k x
    unfolding m(1) using r2(7) [of q k] r1(5) that by (intro kernel_image_spec(2) [OF r2(3)]) auto
  moreover have "map (\<lambda>j. peek32 (ram w') (kp + 4036 + 4 * j)) [0..<15] =
       [0x10, 0x10, 0x10, 0x10, 0, 0, 0, 0, 0, 0, 0, 0, of_nat entry, 0x08, 0x202]"
    unfolding m(1) kernel_image_spec(1) [OF r2(3)] kernel_words_nth by simp
  ultimately show ?thesis using w' by auto
qed

theorem task_create_kernel_witness:
  "\<exists>w'. task_create 0x300000 0 False sched_start = Some (0x200034, w') \<and> sched_inv w' [0x20000C, 0x200034]"
proof -
  obtain w1 w2 w3 where k: "kmalloc 28 sched_start = Some (0x200034, w1)" "kmalloc 4096 w1 = Some (0x20005C, w2)"
    "kmalloc 4096 w2 = Some (0x201068, w3)" by (rule sched_start_allocs)
  from task_create_kernel [OF sched_start(1) k(1) _ k(2), of "0x300000" 0] show ?thesis by auto
qed

text \<open>Two tasks: the kernel and a user task that is ready.\<close>

lemma sched_two:
  obtains w :: sworld where "sched_inv w [0x20000C, 0x200034]" "runnable w 0x200034" "current_task w = 0x20000C" "ram w = user_image 0x20005C 0x201068 0x300000 (ram sched_start)"
proof -
  obtain w1 w2 w3 where k: "kmalloc 28 sched_start = Some (0x200034, w1)" "kmalloc 4096 w1 = Some (0x20005C, w2)"
    "kmalloc 4096 w2 = Some (0x201068, w3)" by (rule sched_start_allocs)
  have c: "current_task sched_start = 0x20000C" using sched_start(1) by (simp add: sched_inv_def sched_ok_def)
  from task_create_user_core [OF sched_start(1) k(1) _ k(2) _ k(3), of "0x300000" 0] c that
  show ?thesis by (auto simp: runnable_def)
qed

text \<open>
  C19: \<open>task_switch\<close> on a well-formed queue terminates.  It stores the interrupted stack pointer in
  the current control block, picks the first runnable task after it in queue order (the current one
  only when there is no other), returns that task's saved stack pointer (the one it was interrupted
  with), loads its kernel stack and its page directory, and leaves exactly that task marked running;
  every other control block keeps its saved stack pointer and its state.
\<close>

theorem task_switch_correct:
  assumes inv: "sched_inv w xs" and i: "i < length xs" "xs ! i = current_task w"
  shows "\<exists>nt w'. let nxt = first_runnable (runnable w) (rotate (Suc i) xs) in
     tasks w nxt = Some nt \<and> runnable w nxt \<and> task_switch esp w = Some (if nxt = current_task w then esp else kstack nt, w') \<and>
     sched_inv w' xs \<and> current_task w' = nxt \<and> tss_esp0 w' = kstack_top_page nt \<and>
     cr3 w' = (if page_directory nt = 0 then cr3 w else page_directory nt) \<and>
     map_option kstack (tasks w' (current_task w)) = Some esp \<and>
     (\<forall>a. a \<noteq> current_task w \<and> a \<noteq> nxt \<longrightarrow> tasks w' a = tasks w a) \<and>
     (nxt = current_task w \<longrightarrow> (\<forall>x \<in> set xs. runnable w x \<longrightarrow> x = current_task w))"
proof -
  have ok: "sched_ok w xs" and run: "t_state_of w (current_task w) = TASK_RUNNING" using inv by (simp_all add: sched_inv_def)
  let ?n = "choice w xs i"
  obtain nt where nt: "tasks w ?n = Some nt" using sched_ok_task [OF ok choice_in [OF i(1)]] by blast
  obtain ct where ct: "tasks w (current_task w) = Some ct" using run by (auto simp: t_state_of_def split: option.splits)
  obtain w' where w': "task_switch esp w = Some (if ?n = current_task w then esp else kstack nt, w')"
      "sched_inv w' xs" "tasks w' = (\<lambda>a. map_option (switched esp (current_task w) ?n a) (tasks w a))" "current_task w' = ?n"
      "tss_esp0 w' = kstack_top_page nt" "cr3 w' = (if page_directory nt = 0 then cr3 w else page_directory nt)"
    using task_switch_ok [OF ok i refl nt] by blast
  have "map_option kstack (tasks w' (current_task w)) = Some esp"
    unfolding w'(3) using ct by (simp add: switched_def Let_def)
  moreover have "\<forall>a. a \<noteq> current_task w \<and> a \<noteq> ?n \<longrightarrow> tasks w' a = tasks w a"
    unfolding w'(3) by (simp add: switched_other)
  moreover have "runnable w ?n" by (rule choice_runnable [OF inv i])
  moreover have "?n = current_task w \<longrightarrow> (\<forall>x \<in> set xs. runnable w x \<longrightarrow> x = current_task w)"
    using choice_current [OF ok i] by blast
  ultimately show ?thesis using nt w' by (auto simp: Let_def choice_def)
qed

theorem task_switch_correct_witness:
  "\<exists>w w' :: sworld. sched_inv w [0x20000C, 0x200034] \<and> current_task w = 0x20000C \<and>
     (\<exists>e. task_switch 0x107F00 w = Some (e, w')) \<and> current_task w' = 0x200034 \<and> sched_inv w' [0x20000C, 0x200034]"
proof -
  obtain w :: sworld where w: "sched_inv w [0x20000C, 0x200034]" "runnable w 0x200034" "current_task w = 0x20000C"
    by (rule sched_two)
  have "first_runnable (runnable w) (rotate (Suc 0) [0x20000C, 0x200034]) = 0x200034" using w(2) by simp
  with task_switch_correct [OF w(1), of 0 "0x107F00"] w show ?thesis by (auto simp: Let_def)
qed

text \<open>
  C20: no starvation.  From a well-formed state with \<open>n\<close> tasks, every task that can run is the
  current one after fewer than \<open>n\<close> switches, whatever stack pointers the switches come with.
\<close>

theorem round_robin_fair:
  assumes "sched_inv w xs" and "x \<in> set xs" and "runnable w x" and "length es \<ge> length xs"
  shows "\<exists>k < length xs. \<exists>w'. switches (take k es) w = Some w' \<and> current_task w' = x"
proof -
  have ok: "sched_ok w xs" using assms(1) by (simp add: sched_inv_def)
  obtain i where i: "i < length xs" "xs ! i = current_task w" using sched_ok_current [OF ok] by blast
  obtain j where j: "j < length xs" "xs ! j = x" using assms(2) by (auto simp: in_set_conv_nth)
  define d where "d = (j + length xs - i) mod length xs"
  have d: "d < length xs" unfolding d_def using i by (intro mod_less_divisor) linarith
  have "(i + d) mod length xs = (i + (j + length xs - i)) mod length xs" unfolding d_def by (rule mod_add_right_eq)
  also have "\<dots> = j" using i j by simp
  finally have x: "xs ! ((i + d) mod length xs) = x" using j by simp
  have "\<exists>k \<le> d. \<exists>w'. switches (take k es) w = Some w' \<and> current_task w' = xs ! ((i + d) mod length xs)"
    using assms(3,4) d by (intro switches_reach [OF assms(1) i d]) (simp_all add: x)
  then obtain k w' where "k \<le> d" "switches (take k es) w = Some w'" "current_task w' = x" unfolding x by blast
  then show ?thesis using d by (intro exI [of _ k]) auto
qed

theorem round_robin_fair_witness:
  "\<exists>w w' :: sworld. \<exists>k < 2. sched_inv w [0x20000C, 0x200034] \<and> switches (take k [0x107F00, 0x107F00]) w = Some w' \<and>
     current_task w' = 0x200034"
proof -
  obtain w :: sworld where w: "sched_inv w [0x20000C, 0x200034]" "runnable w 0x200034" "current_task w = 0x20000C"
    by (rule sched_two)
  from round_robin_fair [OF w(1) _ w(2), of "[0x107F00, 0x107F00]"] w show ?thesis
    by (fastforce simp: numeral_2_eq_2)
qed

text \<open>
  C22: the exit system call.  When another task can run, the calling task is suspended and the
  processor goes to a task that can run.  When there is no other, the switch falls back on the task
  that just exited: it is marked running again and resumed at its own stack pointer.
\<close>

theorem syscall_exit:
  assumes inv: "sched_inv w xs" and eax: "if_eax (load_frame (ram w) esp) = 1"
  shows "\<exists>e w'. syscall_handler esp w = Some (e, w') \<and> sched_inv w' xs \<and>
     (if \<exists>x \<in> set xs. x \<noteq> current_task w \<and> runnable w x
      then current_task w' \<noteq> current_task w \<and> runnable w (current_task w') \<and>
        t_state_of w' (current_task w) = TASK_SUSPENDED
      else e = esp \<and> current_task w' = current_task w \<and> t_state_of w' (current_task w) = TASK_RUNNING)"
proof -
  let ?c = "current_task w"
  let ?w0 = "set_task ?c (\<lambda>p. p\<lparr>t_state := TASK_SUSPENDED\<rparr>) w"
  have ok: "sched_ok w xs" using inv by (simp add: sched_inv_def)
  have cs: "?c \<in> set xs" and ring: "ring w xs" using ok by (simp_all add: sched_ok_def)
  obtain ct where ct: "tasks w ?c = Some ct" using sched_ok_task [OF ok cs] by blast
  have ring0: "ring ?w0 xs" by (rule ring_cong [OF ring]) (auto simp: option.map_comp comp_def)
  have st0: "t_state_of ?w0 a = (if a = ?c then TASK_SUSPENDED else t_state_of w a)" for a
    using ct by (auto simp: t_state_of_def)
  have run0: "runnable ?w0 a \<longleftrightarrow> a \<noteq> ?c \<and> runnable w a" for a by (simp add: runnable_state st0)
  have ok0: "sched_ok ?w0 xs" using ok ring0 by (simp add: sched_ok_def st0)
  obtain i where i: "i < length xs" "xs ! i = ?c" using sched_ok_current [OF ok] by blast
  let ?n = "choice ?w0 xs i"
  have i0: "xs ! i = current_task ?w0" using i by simp
  obtain nt where nt: "tasks ?w0 ?n = Some nt" using sched_ok_task [OF ok0 choice_in [OF i(1)]] by blast
  obtain w' where w': "task_switch esp ?w0 = Some (if ?n = ?c then esp else kstack nt, w')"
      "sched_inv w' xs" "tasks w' = (\<lambda>a. map_option (switched esp ?c ?n a) (tasks ?w0 a))" "current_task w' = ?n"
    using task_switch_ok [OF ok0 i(1) i0 refl nt] by auto
  have call: "syscall_handler esp w = task_switch esp ?w0" by (simp add: syscall_handler_def Let_def eax)
  show ?thesis
  proof (cases "\<exists>x \<in> set xs. x \<noteq> ?c \<and> runnable w x")
    case True
    then obtain x where x: "x \<in> set xs" "runnable ?w0 x" using run0 by blast
    then have "x \<in> set (rotate (Suc i) xs)" by simp
    then have "runnable ?w0 ?n" unfolding choice_def using x(2) by (rule first_runnable_runnable)
    then have n: "?n \<noteq> ?c" "runnable w ?n" using run0 by blast+
    have "t_state_of w' ?c = TASK_SUSPENDED"
      using n(1) ct by (simp add: t_state_of_def w'(3) switched_def)
    then show ?thesis using call w' n True by auto
  next
    case False
    have "?n = ?c"
    proof (rule ccontr)
      assume "?n \<noteq> ?c"
      moreover have "runnable ?w0 ?n \<or> ?n = last (rotate (Suc i) xs)"
        unfolding choice_def using first_runnable_cases [of "runnable ?w0" "rotate (Suc i) xs"] i(1) by auto
      moreover have "last (rotate (Suc i) xs) = ?c" using rotate_last [OF i(1)] i(2) by simp
      ultimately show False using False run0 choice_in [OF i(1)] by auto
    qed
    then have "t_state_of w' ?c = TASK_RUNNING" using w'(2,4) by (simp add: sched_inv_def)
    then show ?thesis using call w' \<open>?n = ?c\<close> False by auto
  qed
qed

theorem syscall_exit_witness:
  "\<exists>w w' :: sworld. \<exists>e. sched_inv w [0x20000C, 0x200034] \<and> syscall_handler 0x107F00 w = Some (e, w') \<and>
     current_task w' = 0x200034 \<and> t_state_of w' 0x20000C = TASK_SUSPENDED"
proof -
  obtain v :: sworld where v: "sched_inv v [0x20000C, 0x200034]" "runnable v 0x200034" "current_task v = 0x20000C"
    by (rule sched_two)
  let ?w = "v\<lparr>ram := poke32 0x107F2C 1 (ram v)\<rparr>"
  have "peek32 (ram ?w) 0x107F2C = 1"
    by (rule peek32_bytes) (simp_all add: poke32_at del: One_nat_def)
  then have eax: "if_eax (load_frame (ram ?w) 0x107F00) = 1" by (simp add: load_frame_def Let_def)
  have inv: "sched_inv ?w [0x20000C, 0x200034]"
    using v(1) by (simp add: sched_inv_def sched_ok_def ring_def t_state_of_def)
  have run: "runnable ?w 0x200034" using v(2) by (simp add: runnable_def)
  obtain e w' where w': "syscall_handler 0x107F00 ?w = Some (e, w')" "sched_inv w' [0x20000C, 0x200034]"
     "current_task w' \<noteq> 0x20000C" "t_state_of w' 0x20000C = TASK_SUSPENDED"
    using syscall_exit [OF inv eax] run v(3) by auto
  then have "current_task w' = 0x200034" by (simp add: sched_inv_def sched_ok_def)
  then show ?thesis using inv w' by blast
qed

end
