(* ===== verification/RexfsLayout.thy ===== *)
theory RexfsLayout
  imports Prelude
begin

text \<open>
  The on-disk structures of RexFS (kernel/rexfs.h): the superblock of 512 bytes, the 64-byte inode
  and the indirect block of 256 little-endian block numbers, with their encoders and decoders and
  the lemmas that relate them.
\<close>

record nr_superblock =
  sb_magic :: u32
  sb_version :: u32
  total_blocks :: u32
  inode_count :: u32
  data_offset :: u32
  clean_shutdown :: u32
  sb_reserved :: bytes

record nr_inode =
  ino_id :: u32
  ino_size :: u32
  ino_type :: u16
  parent_id :: u16
  ino_name :: bytes
  direct_blocks :: "u16 list"
  indirect_block :: u16
  ino_padding :: u16

abbreviation (input) REXFS_MAGIC :: u32 where "REXFS_MAGIC \<equiv> 0x52455821"
abbreviation (input) REXFS_VERSION :: u32 where "REXFS_VERSION \<equiv> 1"
abbreviation (input) REXFS_MAX_INODES :: u32 where "REXFS_MAX_INODES \<equiv> 64"

text \<open>An array of 16-bit words in a byte buffer.\<close>

definition words16 :: "nat \<Rightarrow> nat \<Rightarrow> bytes \<Rightarrow> u16 list" where
  "words16 off n b = map (\<lambda>k. rd16 b (off + 2 * k)) [0..<n]"

definition decode_superblock :: "bytes \<Rightarrow> nr_superblock" where
  "decode_superblock b =
     \<lparr>sb_magic = rd32 b 0, sb_version = rd32 b 4, total_blocks = rd32 b 8, inode_count = rd32 b 12,
      data_offset = rd32 b 16, clean_shutdown = rd32 b 20, sb_reserved = get 24 488 b\<rparr>"

definition encode_superblock :: "nr_superblock \<Rightarrow> bytes" where
  "encode_superblock s =
     le32 (sb_magic s) @ le32 (sb_version s) @ le32 (total_blocks s) @ le32 (inode_count s) @
     le32 (data_offset s) @ le32 (clean_shutdown s) @ sb_reserved s"

definition decode_inode :: "bytes \<Rightarrow> nr_inode" where
  "decode_inode b =
     \<lparr>ino_id = rd32 b 0, ino_size = rd32 b 4, ino_type = rd16 b 8, parent_id = rd16 b 10,
      ino_name = get 12 28 b, direct_blocks = words16 40 10 b, indirect_block = rd16 b 60,
      ino_padding = rd16 b 62\<rparr>"

definition encode_inode :: "nr_inode \<Rightarrow> bytes" where
  "encode_inode i =
     le32 (ino_id i) @ le32 (ino_size i) @ le16 (ino_type i) @ le16 (parent_id i) @ ino_name i @
     concat (map le16 (direct_blocks i)) @ le16 (indirect_block i) @ le16 (ino_padding i)"

text \<open>\<open>(nr_inode_t* )(sector_buf + i * 64)\<close>: reading and assigning the structure it points to.\<close>

definition inode_ptr :: "bytes \<Rightarrow> nat \<Rightarrow> nr_inode" where
  "inode_ptr buf i = decode_inode (get (i * 64) 64 buf)"

definition inode_store :: "bytes \<Rightarrow> nat \<Rightarrow> nr_inode \<Rightarrow> bytes" where
  "inode_store buf i ino = put (i * 64) (encode_inode ino) buf"

text \<open>\<open>ptr->name\<close> as a C string: it is read on to the next NUL of the sector buffer.\<close>

definition inode_name :: "bytes \<Rightarrow> nat \<Rightarrow> bytes" where
  "inode_name buf i = cstr (drop (i * 64 + 12) buf)"

definition inode_wf :: "nr_inode \<Rightarrow> bool" where
  "inode_wf i \<longleftrightarrow> length (ino_name i) = 28 \<and> length (direct_blocks i) = 10"

definition superblock_wf :: "nr_superblock \<Rightarrow> bool" where
  "superblock_wf s \<longleftrightarrow> length (sb_reserved s) = 488"

section \<open>Fields in a buffer\<close>

lemma rd16_append [layout_simps]: "length xs \<le> n \<Longrightarrow> rd16 (xs @ ys) n = rd16 ys (n - length xs)"
  by (simp add: rd16_def nth_append Suc_diff_le)

lemma rd32_append [layout_simps]: "length xs \<le> n \<Longrightarrow> rd32 (xs @ ys) n = rd32 ys (n - length xs)"
  by (simp add: rd32_def nth_append Suc_diff_le)

lemma rd16_head: "rd16 (le16 w @ ys) 0 = w"
  using rd16_le16 [of w] by (simp add: rd16_def le16_def)

lemma rd32_head: "rd32 (le32 w @ ys) 0 = w"
  using rd32_le32 [of w] by (simp add: rd32_def le32_def)

lemma length_concat_le16 [simp]: "length (concat (map le16 ws)) = 2 * length ws"
  by (induction ws) simp_all

lemma length_words16 [simp]: "length (words16 off n b) = n"
  by (simp add: words16_def)

lemma rd16_concat: "k < length ws \<Longrightarrow> rd16 (concat (map le16 ws) @ ys) (2 * k) = ws ! k"
proof (induction ws arbitrary: k)
  case (Cons w ws)
  show ?case
  proof (cases k)
    case 0
    then show ?thesis by (simp add: rd16_head)
  next
    case (Suc j)
    then have "rd16 (concat (map le16 (w # ws)) @ ys) (2 * k) = rd16 (concat (map le16 ws) @ ys) (2 * j)"
      by (subst (1) rd16_def) (simp add: rd16_def le16_def)
    then show ?thesis using Cons Suc by simp
  qed
qed simp

lemma le16_rd16: "off + 2 \<le> length b \<Longrightarrow> le16 (rd16 b off) = get off 2 b"
proof -
  assume "off + 2 \<le> length b"
  then have "get off 2 b = [b ! off, b ! (off + 1)]"
    by (simp add: get_def list_eq_iff_nth_eq nth_Cons split: nat.splits)
  moreover have "ucast (rd16 b off) = b ! off" "ucast (drop_bit 8 (rd16 b off)) = b ! (off + 1)"
    by (rule bit_word_eqI, auto simp: rd16_def bit_simps dest: bit_imp_le_length)+
  ultimately show ?thesis by (simp add: le16_def)
qed

lemma le32_rd32: "off + 4 \<le> length b \<Longrightarrow> le32 (rd32 b off) = get off 4 b"
proof -
  assume "off + 4 \<le> length b"
  then have "get off 4 b = [b ! off, b ! (off + 1), b ! (off + 2), b ! (off + 3)]"
    by (simp add: get_def list_eq_iff_nth_eq nth_Cons split: nat.splits)
      (auto simp: less_Suc_eq_0_disj numeral_eq_Suc)
  moreover have "ucast (rd32 b off) = b ! off" "ucast (drop_bit 8 (rd32 b off)) = b ! (off + 1)"
    "ucast (drop_bit 16 (rd32 b off)) = b ! (off + 2)" "ucast (drop_bit 24 (rd32 b off)) = b ! (off + 3)"
    by (rule bit_word_eqI, auto simp: rd32_def bit_simps dest: bit_imp_le_length)+
  ultimately show ?thesis by (simp add: le32_def)
qed

section \<open>Round trips\<close>

lemma length_encode_inode [simp]: "inode_wf i \<Longrightarrow> length (encode_inode i) = 64"
  by (simp add: encode_inode_def inode_wf_def)

lemma length_encode_superblock [simp]: "superblock_wf s \<Longrightarrow> length (encode_superblock s) = 512"
  by (simp add: encode_superblock_def superblock_wf_def)

lemma decode_encode_inode [simp]: "inode_wf i \<Longrightarrow> decode_inode (encode_inode i) = i"
proof -
  assume wf: "inode_wf i"
  have "words16 40 10 (encode_inode i) = direct_blocks i"
  proof (rule nth_equalityI)
    fix k
    assume "k < length (words16 40 10 (encode_inode i))"
    then show "words16 40 10 (encode_inode i) ! k = direct_blocks i ! k"
      using wf by (simp add: words16_def encode_inode_def inode_wf_def layout_simps rd16_concat)
  qed (use wf in \<open>simp add: inode_wf_def\<close>)
  moreover have "get 12 28 (encode_inode i) = ino_name i"
    using wf by (simp add: get_def encode_inode_def inode_wf_def)
  ultimately show ?thesis using wf
    by (simp add: decode_inode_def encode_inode_def inode_wf_def layout_simps rd32_head rd16_head)
qed

lemma decode_encode_superblock [simp]: "superblock_wf s \<Longrightarrow> decode_superblock (encode_superblock s) = s"
  by (simp add: decode_superblock_def encode_superblock_def superblock_wf_def layout_simps rd32_head get_def)

lemma inode_wf_decode [simp]: "length b = 64 \<Longrightarrow> inode_wf (decode_inode b)"
  by (simp add: inode_wf_def decode_inode_def)

lemma superblock_wf_decode [simp]: "length b = 512 \<Longrightarrow> superblock_wf (decode_superblock b)"
  by (simp add: superblock_wf_def decode_superblock_def)

lemma concat_le16_words16: "off + 2 * n \<le> length b \<Longrightarrow> concat (map le16 (words16 off n b)) = get off (2 * n) b"
proof (induction n)
  case (Suc n)
  have "get off (2 * Suc n) b = get off (2 * n) b @ get (off + 2 * n) 2 b"
    using take_add [of "2 * n" 2 "drop off b"] by (simp add: get_def add.commute)
  with Suc show ?case by (simp add: words16_def le16_rd16)
qed (simp add: words16_def get_def)

lemma get_join: "a = off + m \<Longrightarrow> get off m b @ get a n b = get off (m + n) b"
  by (simp add: get_def take_add add.commute)

lemma get_join_append: "a = off + m \<Longrightarrow> get off m b @ get a n b @ r = get off (m + n) b @ r"
  by (simp add: get_join [symmetric])

lemma encode_decode_inode [simp]: "length b = 64 \<Longrightarrow> encode_inode (decode_inode b) = b"
proof -
  assume len: "length b = 64"
  have "encode_inode (decode_inode b) =
      get 0 4 b @ get 4 4 b @ get 8 2 b @ get 10 2 b @ get 12 28 b @ get 40 20 b @ get 60 2 b @ get 62 2 b"
    using len concat_le16_words16 [of 40 10 b]
    by (simp add: encode_inode_def decode_inode_def le16_rd16 le32_rd32)
  also have "\<dots> = get 0 64 b"
    by (simp add: get_join get_join_append)
  finally show ?thesis using len by (simp add: get_full)
qed

lemma length_inode_store [simp]:
  "inode_wf ino \<Longrightarrow> i < 8 \<Longrightarrow> length buf = 512 \<Longrightarrow> length (inode_store buf i ino) = 512"
  by (simp add: inode_store_def)

lemma inode_ptr_store:
  assumes "inode_wf ino" and "i < 8" and "j < 8" and "length buf = 512"
  shows "inode_ptr (inode_store buf i ino) j = (if j = i then ino else inode_ptr buf j)"
proof (cases "j = i")
  case True
  then show ?thesis
    using assms get_put_same [of "i * 64" "encode_inode ino" buf] by (simp add: inode_ptr_def inode_store_def)
next
  case False
  then have "j * 64 + 64 \<le> i * 64 \<or> i * 64 + 64 \<le> j * 64" by linarith
  then show ?thesis using assms False by (simp add: inode_ptr_def inode_store_def get_put_other)
qed

lemma inode_wf_ptr [simp]: "i < 8 \<Longrightarrow> length buf = 512 \<Longrightarrow> inode_wf (inode_ptr buf i)"
  by (simp add: inode_ptr_def)

text \<open>When the stored name has a NUL, the C string is the part of the field before it.\<close>

lemma cstr_append: "0 \<in> set xs \<Longrightarrow> cstr (xs @ ys) = cstr xs"
  by (induction xs) (auto simp: cstr_def)

lemma inode_name_field:
  assumes "i < 8" and "length buf = 512" and "0 \<in> set (ino_name (inode_ptr buf i))"
  shows "inode_name buf i = cstr (ino_name (inode_ptr buf i))"
proof -
  have n: "ino_name (inode_ptr buf i) = get (i * 64 + 12) 28 buf"
    by (simp add: inode_ptr_def decode_inode_def get_def take_drop add.commute)
  have "drop (i * 64 + 12) buf = get (i * 64 + 12) 28 buf @ drop (i * 64 + 40) buf"
    using append_take_drop_id [of 28 "drop (i * 64 + 12) buf"] by (simp add: get_def add.commute)
  then show ?thesis using assms(3) unfolding n inode_name_def by (simp add: cstr_append)
qed

lemma words16_put:
  assumes "length b = 512" and "i < 256"
  shows "words16 0 256 (put (2 * i) (le16 v) b) = (words16 0 256 b)[i := v]"
proof (rule nth_equalityI)
  fix k
  assume "k < length (words16 0 256 (put (2 * i) (le16 v) b))"
  then have k: "k < 256" by simp
  show "words16 0 256 (put (2 * i) (le16 v) b) ! k = (words16 0 256 b)[i := v] ! k"
  proof (cases "k = i")
    case True
    then show ?thesis using k assms get_put_same [of "2 * i" "le16 v" b]
      by (simp add: words16_def rd16_get [of "2 * i"])
  next
    case False
    then have "2 * k + 2 \<le> 2 * i \<or> 2 * i + 2 \<le> 2 * k" by linarith
    then show ?thesis using k assms False get_put_other [of "2 * i" "le16 v" b "2 * k" 2]
      by (simp add: words16_def rd16_get [of "2 * k"])
  qed
qed simp

end
