(* ===== verification/Rexfs.thy ===== *)
theory Rexfs
  imports RexfsLayout Bitmap Sched "HOL-Library.Monad_Syntax"
begin

text \<open>
  The file system (kernel/rexfs.c) on top of the sector operations of kernel.c.

  The disk is a function from the 28-bit sector number to the 512 bytes of the sector; reading and
  writing also maintain the telemetry counters and the event ring.  \<open>None\<close> is an access outside an
  array (a corrupt disk can cause one) or a walk of the kernel heap that goes wrong.  The loop over
  the sectors 2 to 9 and the eight inodes of each, which the source repeats in every operation, is
  \<open>scan_inodes\<close>.
\<close>

section \<open>State and sectors\<close>

record fsworld = sworld +
  disk :: "nat \<Rightarrow> bytes"
  fs_mounted :: bool
  active_sb :: nr_superblock
  current_dir_id :: u16

text \<open>The globals of the file system when the kernel image is loaded, on a disk of zeros.\<close>

definition fsworld0 :: "(int \<Rightarrow> u8) \<Rightarrow> nat \<Rightarrow> fsworld" where
  "fsworld0 vram base = sworld.extend (sworld0 vram base (\<lambda>_. 0))
     \<lparr>disk = (\<lambda>_. replicate 512 0), fs_mounted = False, active_sb = decode_superblock (replicate 512 0),
      current_dir_id = 0\<rparr>"

definition read_sector :: "nat \<Rightarrow> 'a fsworld_scheme \<Rightarrow> bytes \<times> 'a fsworld_scheme" where
  "read_sector lba w =
     (disk w (lba mod 2 ^ 28),
      sys_trace (str ''[ATA] Sector Read Executed'') (w\<lparr>total_disk_reads := total_disk_reads w + 1\<rparr>))"

definition write_sector :: "nat \<Rightarrow> bytes \<Rightarrow> 'a fsworld_scheme \<Rightarrow> 'a fsworld_scheme" where
  "write_sector lba buf w =
     sys_trace (str ''[ATA] Sector Write Executed'')
       (w\<lparr>disk := (disk w)(lba mod 2 ^ 28 := buf), total_disk_writes := total_disk_writes w + 1\<rparr>)"

abbreviation err :: "string \<Rightarrow> 'a fsworld_scheme \<Rightarrow> 'a fsworld_scheme" where
  "err msg \<equiv> kprint_color (str msg @ [10]) COLOR_LIGHT_RED"

abbreviation okmsg :: "string \<Rightarrow> 'a fsworld_scheme \<Rightarrow> 'a fsworld_scheme" where
  "okmsg msg \<equiv> kprint_color (str msg @ [10]) COLOR_LIGHT_GREEN"

section \<open>Formatting and mounting\<close>

definition rexfs_mount :: "'a fsworld_scheme \<Rightarrow> 'a fsworld_scheme" where
  "rexfs_mount w =
     (let (b, w1) = read_sector 1 w; sb = decode_superblock b in
      if sb_magic sb \<noteq> REXFS_MAGIC then err ''Error: No valid RexFS signature on disk. Run: mkfs'' w1
      else if sb_version sb \<noteq> REXFS_VERSION then err ''Error: Unsupported RexFS version.'' w1
      else
        let w2 = (if clean_shutdown sb = 0
                  then err ''[RexFS] Warning: Filesystem was not cleanly unmounted.'' w1
                  else okmsg ''[RexFS] Clean shutdown detected.'' w1);
            sb1 = sb\<lparr>clean_shutdown := 0\<rparr>;
            w3 = write_sector 1 (encode_superblock sb1) w2
        in okmsg ''[RexFS] Mounted successfully.'' (w3\<lparr>active_sb := sb1, fs_mounted := True, current_dir_id := 0\<rparr>))"

definition rexfs_init :: "'a fsworld_scheme \<Rightarrow> 'a fsworld_scheme" where
  "rexfs_init w =
     (let (b, w1) = read_sector 1 w in
      if sb_magic (decode_superblock b) \<noteq> REXFS_MAGIC
      then (err ''[RexFS] No filesystem detected. Run: mkfs'' w1)\<lparr>fs_mounted := False\<rparr>
      else rexfs_mount w1)"

text \<open>The argument is what \<open>ata_get_capacity\<close> returned.\<close>

definition rexfs_mkfs :: "nat \<Rightarrow> 'a fsworld_scheme \<Rightarrow> 'a fsworld_scheme" where
  "rexfs_mkfs capacity0 w =
     (let w1 = kprint_color (str ''[RexFS] Formatting partition...'' @ [10]) COLOR_LIGHT_CYAN w in
      if capacity0 = 0 then err ''Error: Failed to query disk capacity via ATA IDENTIFY.'' w1
      else
        let capacity = (if capacity0 > 4096 then 4096 else capacity0);
            sb = \<lparr>sb_magic = REXFS_MAGIC, sb_version = REXFS_VERSION, total_blocks = of_nat capacity,
                  inode_count = REXFS_MAX_INODES, data_offset = 11, clean_shutdown = 1,
                  sb_reserved = replicate 488 0\<rparr>;
            w2 = okmsg ''[RexFS] Superblock written.'' (write_sector 1 (encode_superblock sb) w1);
            w3 = okmsg ''[RexFS] Inode table initialized.''
                   (fold (\<lambda>sector. write_sector sector (replicate 512 0)) [2..<10] w2);
            w4 = okmsg ''[RexFS] Bitmap initialized.'' (write_sector 10 (replicate 512 0) w3)
        in okmsg ''[RexFS] Done. Run: mount'' w4)"

definition rexfs_unmount :: "'a fsworld_scheme \<Rightarrow> 'a fsworld_scheme" where
  "rexfs_unmount w =
     (if \<not> fs_mounted w then err ''Error: Filesystem is not currently mounted.'' w
      else
        let (b, w1) = read_sector 1 w;
            sb = (decode_superblock b)\<lparr>clean_shutdown := 1\<rparr>;
            w2 = write_sector 1 (encode_superblock sb) w1
        in okmsg ''[RexFS] Unmounted successfully.'' (w2\<lparr>fs_mounted := False, current_dir_id := 0\<rparr>))"

definition rexfs_fsinfo :: "'a fsworld_scheme \<Rightarrow> 'a fsworld_scheme" where
  "rexfs_fsinfo w =
     (let w1 = kprint_color (str ''Filesystem : RexFS'' @ [10]) COLOR_YELLOW w in
      if \<not> fs_mounted w then kprint (str ''Status     : Unmounted'' @ [10]) w1
      else
        let num = (\<lambda>label (n :: u32) v. kprint_int (sint n) (kprint (str label) v));
            w2 = kputc 10 (num ''Version    : '' (sb_version (active_sb w)) w1);
            w3 = kputc 10 (num ''Inodes     : '' (inode_count (active_sb w)) w2);
            w4 = kprint (str '' sectors'' @ [10]) (num ''Disk size  : '' (total_blocks (active_sb w)) w3);
            w5 = kputc 10 (num ''Data Start : Sector '' (data_offset (active_sb w)) w4)
        in kprint (str ''Mounted    : Yes'' @ [10]) w5)"

definition rexfs_is_mounted :: "'a fsworld_scheme \<Rightarrow> bool" where
  "rexfs_is_mounted w = fs_mounted w"

section \<open>Searching the inode table\<close>

definition scan_slots :: "(nr_inode \<Rightarrow> bytes \<Rightarrow> bool) \<Rightarrow> bytes \<Rightarrow> nat option" where
  "scan_slots P buf = find (\<lambda>i. P (inode_ptr buf i) (inode_name buf i)) [0..<8]"

fun scan_sectors :: "(nr_inode \<Rightarrow> bytes \<Rightarrow> bool) \<Rightarrow> nat list \<Rightarrow> 'a fsworld_scheme \<Rightarrow>
    (nat \<times> nat \<times> bytes) option \<times> 'a fsworld_scheme" where
  "scan_sectors P [] w = (None, w)"
| "scan_sectors P (sector # ss) w =
     (let (buf, w1) = read_sector sector w in
      case scan_slots P buf of
        Some i \<Rightarrow> (Some (sector, i, buf), w1)
      | None \<Rightarrow> scan_sectors P ss w1)"

definition scan_inodes :: "(nr_inode \<Rightarrow> bytes \<Rightarrow> bool) \<Rightarrow> 'a fsworld_scheme \<Rightarrow>
    (nat \<times> nat \<times> bytes) option \<times> 'a fsworld_scheme" where
  "scan_inodes P w = scan_sectors P [2..<10] w"

text \<open>The three search conditions of the source.\<close>

definition entry_named :: "u16 \<Rightarrow> bytes \<Rightarrow> nr_inode \<Rightarrow> bytes \<Rightarrow> bool" where
  "entry_named dir name ino nm \<longleftrightarrow> ino_id ino \<noteq> 0 \<and> parent_id ino = dir \<and> strcmp name nm = 0"

definition typed_entry :: "u16 \<Rightarrow> u16 \<Rightarrow> bytes \<Rightarrow> nr_inode \<Rightarrow> bytes \<Rightarrow> bool" where
  "typed_entry ty dir name ino nm \<longleftrightarrow>
     ino_id ino \<noteq> 0 \<and> parent_id ino = dir \<and> ino_type ino = ty \<and> strcmp name nm = 0"

definition has_id :: "u16 \<Rightarrow> nr_inode \<Rightarrow> bytes \<Rightarrow> bool" where
  "has_id d ino nm \<longleftrightarrow> ino_id ino = ucast d"

section \<open>Directories\<close>

definition ls_entry :: "bytes \<Rightarrow> nat \<Rightarrow> nat \<times> 'a fsworld_scheme \<Rightarrow> nat \<times> 'a fsworld_scheme" where
  "ls_entry buf i cw =
     (let (count, w) = cw; ptr = inode_ptr buf i in
      if ino_id ptr \<noteq> 0 \<and> parent_id ptr = current_dir_id w
      then (count + 1, kputc 10
        (let w1 = kprint (str ''  '') w in
         if ino_type ptr = 2
         then kputc 47 (kprint_color (inode_name buf i) COLOR_YELLOW (kprint_color (str ''[DIR]  '') COLOR_YELLOW w1))
         else kprint (str '' bytes)'') (kprint_int (sint (ino_size ptr)) (kprint (str '' ('')
           (kprint (inode_name buf i) (kprint (str ''[FILE] '') w1))))))
      else (count, w))"

definition rexfs_ls :: "'a fsworld_scheme \<Rightarrow> 'a fsworld_scheme" where
  "rexfs_ls w =
     (if \<not> fs_mounted w then err ''Error: Filesystem is not mounted.'' w
      else
        let w1 = kprint_color (str ''--- RexFS DIRECTORY LISTING ---'' @ [10]) COLOR_LIGHT_CYAN w;
            (count, w2) = fold (\<lambda>sector (c, v). let (buf, v1) = read_sector sector v
                                 in fold (ls_entry buf) [0..<8] (c, v1)) [2..<10] (0, w1)
        in if count = 0 then kprint (str ''  (empty directory)'' @ [10]) w2 else w2)"

text \<open>The record \<open>mkdir\<close> and \<open>touch\<close> build in a free slot: 64 zero bytes, then the fields.\<close>

definition new_inode :: "nat \<Rightarrow> nat \<Rightarrow> u16 \<Rightarrow> u16 \<Rightarrow> bytes \<Rightarrow> nr_inode" where
  "new_inode sector i ty dir name =
     \<lparr>ino_id = of_nat ((sector - 2) * 8 + i + 1), ino_size = 0, ino_type = ty, parent_id = dir,
      ino_name = put 0 (take 27 (cstr name) @ [0]) (replicate 28 0),
      direct_blocks = replicate 10 0, indirect_block = 0, ino_padding = 0\<rparr>"

definition rexfs_create :: "u16 \<Rightarrow> string \<Rightarrow> string \<Rightarrow> bytes \<Rightarrow> 'a fsworld_scheme \<Rightarrow> 'a fsworld_scheme" where
  "rexfs_create ty usage done_msg name w =
     (if \<not> fs_mounted w then err ''Error: Filesystem is not mounted.'' w
      else if char_at name 0 = 0 then err usage w
      else case scan_inodes (entry_named (current_dir_id w) name) w of
        (Some _, w1) \<Rightarrow> err ''Error: A file or directory with that name already exists.'' w1
      | (None, w1) \<Rightarrow>
          (case scan_inodes (\<lambda>ino nm. ino_id ino = 0) w1 of
             (None, w2) \<Rightarrow> err ''Error: Inode table full (max 64 files/dirs).'' w2
           | (Some (sector, i, buf), w2) \<Rightarrow>
               okmsg done_msg
                 (write_sector sector (inode_store buf i (new_inode sector i ty (current_dir_id w) name)) w2)))"

definition rexfs_mkdir :: "bytes \<Rightarrow> 'a fsworld_scheme \<Rightarrow> 'a fsworld_scheme" where
  "rexfs_mkdir name w = rexfs_create 2 ''Usage: mkdir <name>'' ''Directory created successfully.'' name w"

definition rexfs_touch :: "bytes \<Rightarrow> 'a fsworld_scheme \<Rightarrow> 'a fsworld_scheme" where
  "rexfs_touch name w = rexfs_create 1 ''Usage: touch <name>'' ''File created successfully.'' name w"

definition rexfs_cd :: "bytes \<Rightarrow> 'a fsworld_scheme \<Rightarrow> 'a fsworld_scheme" where
  "rexfs_cd path w =
     (if \<not> fs_mounted w then err ''Error: Filesystem is not mounted.'' w
      else if char_at path 0 = 0 then err ''Usage: cd <path>'' w
      else if strcmp path (str ''/'') = 0 then w\<lparr>current_dir_id := 0\<rparr>
      else if strcmp path (str ''..'') = 0 then
        (if current_dir_id w = 0 then w
         else case scan_inodes (has_id (current_dir_id w)) w of
           (Some (sector, i, buf), w1) \<Rightarrow> w1\<lparr>current_dir_id := parent_id (inode_ptr buf i)\<rparr>
         | (None, w1) \<Rightarrow> w1)
      else case scan_inodes (typed_entry 2 (current_dir_id w) path) w of
        (Some (sector, i, buf), w1) \<Rightarrow> w1\<lparr>current_dir_id := ucast (ino_id (inode_ptr buf i))\<rparr>
      | (None, w1) \<Rightarrow> err ''Error: Directory not found.'' w1)"

text \<open>The upward walk of \<open>pwd\<close>; the first argument is \<open>64 - depth\<close>.\<close>

fun pwd_collect :: "nat \<Rightarrow> u16 \<Rightarrow> 'a fsworld_scheme \<Rightarrow> u16 list \<times> 'a fsworld_scheme" where
  "pwd_collect 0 cur w = ([], w)"
| "pwd_collect (Suc n) cur w =
     (if cur = 0 then ([], w)
      else
        let (r, w1) = scan_inodes (has_id cur) w;
            parent = (case r of Some (sector, i, buf) \<Rightarrow> parent_id (inode_ptr buf i) | None \<Rightarrow> 0);
            (ids, w2) = pwd_collect n parent w1
        in (cur # ids, w2))"

definition pwd_name :: "u16 \<Rightarrow> 'a fsworld_scheme \<Rightarrow> 'a fsworld_scheme" where
  "pwd_name d w =
     (case scan_inodes (has_id d) (kputc 47 w) of
        (Some (sector, i, buf), w1) \<Rightarrow> kprint (inode_name buf i) w1
      | (None, w1) \<Rightarrow> w1)"

definition rexfs_pwd :: "'a fsworld_scheme \<Rightarrow> 'a fsworld_scheme" where
  "rexfs_pwd w =
     (if \<not> fs_mounted w then err ''Error: Filesystem is not mounted.'' w
      else if current_dir_id w = 0 then kprint (str ''/'' @ [10]) w
      else let (ids, w1) = pwd_collect 64 (current_dir_id w) w
           in kputc 10 (fold pwd_name (rev ids) w1))"

section \<open>Blocks\<close>

text \<open>The order in which the two nested loops try the bits.\<close>

definition bit_candidates :: "bytes \<Rightarrow> nat list" where
  "bit_candidates bm =
     concat (map (\<lambda>i. map (\<lambda>b. i * 8 + b) [0..<8]) (filter (\<lambda>i. bm ! i \<noteq> 0xFF) [0..<512]))"

definition allocate_free_block :: "'a fsworld_scheme \<Rightarrow> nat \<times> 'a fsworld_scheme" where
  "allocate_free_block w =
     (let (bm, w1) = read_sector 10 w in
      case find (\<lambda>idx. \<not> test_bit_at bm idx \<and> of_nat idx < total_blocks (active_sb w) - 11)
             (bit_candidates bm) of
        Some idx \<Rightarrow> (unat (data_offset (active_sb w) + of_nat idx), write_sector 10 (set_bit_at idx bm) w1)
      | None \<Rightarrow> (0, w1))"

definition free_block :: "nat \<Rightarrow> 'a fsworld_scheme \<Rightarrow> 'a fsworld_scheme option" where
  "free_block block_lba w =
     (if block_lba < unat (data_offset (active_sb w)) then Some w
      else
        let idx = block_lba - unat (data_offset (active_sb w)); (bm, w1) = read_sector 10 w
        in if idx div 8 < 512 then Some (write_sector 10 (clear_bit_at idx bm) w1) else None)"

fun free_each :: "u16 list \<Rightarrow> 'a fsworld_scheme \<Rightarrow> 'a fsworld_scheme option" where
  "free_each [] w = Some w"
| "free_each (b # bs) w =
     (if b \<noteq> 0 then do { w1 \<leftarrow> free_block (unat b) w; free_each bs w1 } else free_each bs w)"

text \<open>Freeing all blocks of a file: the same statements in \<open>rm\<close>, \<open>write\<close> and \<open>writehex\<close>.\<close>

definition free_file_blocks :: "nr_inode \<Rightarrow> 'a fsworld_scheme \<Rightarrow> 'a fsworld_scheme option" where
  "free_file_blocks ino w =
     do { w1 \<leftarrow> free_each (direct_blocks ino) w;
          if indirect_block ino \<noteq> 0
          then (let (buf, w2) = read_sector (unat (indirect_block ino)) w1
                in do { w3 \<leftarrow> free_each (words16 0 256 buf) w2;
                        free_block (unat (indirect_block ino)) w3 })
          else Some w1 }"

definition update_inode :: "nat \<Rightarrow> nat \<Rightarrow> (nr_inode \<Rightarrow> nr_inode) \<Rightarrow> 'a fsworld_scheme \<Rightarrow> 'a fsworld_scheme" where
  "update_inode sector i f w =
     (let (buf, w1) = read_sector sector w
      in write_sector sector (inode_store buf i (f (inode_ptr buf i))) w1)"

definition rexfs_rm :: "bytes \<Rightarrow> 'a fsworld_scheme \<Rightarrow> 'a fsworld_scheme option" where
  "rexfs_rm name w =
     (if \<not> fs_mounted w then Some (err ''Error: Filesystem is not mounted.'' w)
      else if char_at name 0 = 0 then Some (err ''Usage: rm <name>'' w)
      else case scan_inodes (entry_named (current_dir_id w) name) w of
        (None, w1) \<Rightarrow> Some (err ''Error: File or directory not found.'' w1)
      | (Some (sector, i, buf), w1) \<Rightarrow>
          let inode = inode_ptr buf i in
          if ino_type inode = 2 then
            (case scan_inodes (\<lambda>ino nm. ino_id ino \<noteq> 0 \<and> ucast (parent_id ino) = ino_id inode) w1 of
               (Some _, w2) \<Rightarrow> Some (err ''Error: Directory not empty.'' w2)
             | (None, w2) \<Rightarrow>
                 Some (okmsg ''Removed successfully.'' (update_inode sector i (\<lambda>p. p\<lparr>ino_id := 0\<rparr>) w2)))
          else do { w2 \<leftarrow> free_file_blocks inode w1;
                    Some (okmsg ''Removed successfully.'' (update_inode sector i (\<lambda>p. p\<lparr>ino_id := 0\<rparr>) w2)) })"

section \<open>Files\<close>

text \<open>The file name (at most 31 characters) and the payload behind it, from the command's argument.\<close>

definition split_args :: "bytes \<Rightarrow> bytes \<times> bytes" where
  "split_args args =
     (let name = take 31 (takeWhile (\<lambda>c. c \<noteq> 32) (cstr args))
      in (name, drop (length name) (cstr args)))"

text \<open>Allocation and writing of the data blocks; \<open>ks\<close> are the block numbers still to come.\<close>

definition index_block :: "nat \<Rightarrow> nat \<Rightarrow> nr_inode \<Rightarrow> 'a fsworld_scheme \<Rightarrow> 'a fsworld_scheme" where
  "index_block k lba ino w =
     (let (ib, w1) = read_sector (unat (indirect_block ino)) w
      in write_sector (unat (indirect_block ino)) (put (2 * (k - 10)) (le16 (of_nat lba)) ib) w1)"

fun write_blocks :: "bytes \<Rightarrow> nat list \<Rightarrow> nr_inode \<Rightarrow> nat \<Rightarrow> 'a fsworld_scheme \<Rightarrow>
    nr_inode \<times> nat \<times> 'a fsworld_scheme" where
  "write_blocks text [] inode bytes_written w = (inode, bytes_written, w)"
| "write_blocks text (k # ks) inode bytes_written w =
     (let (lba, w1) = allocate_free_block w in
      if lba = 0 then (inode, bytes_written, err ''Error: Out of disk space.'' w1)
      else
        let chunk_size = min 512 (length text - bytes_written);
            w2 = write_sector lba (put 0 (get bytes_written chunk_size text) (replicate 512 0)) w1;
            bw = bytes_written + chunk_size
        in if k < 10
           then write_blocks text ks (inode\<lparr>direct_blocks := (direct_blocks inode)[k := of_nat lba]\<rparr>) bw w2
           else if indirect_block inode = 0 then
             (let (ind, w3) = allocate_free_block w2 in
              if ind = 0 then (inode, bw, err ''Error: Out of disk space for indirect index.'' w3)
              else
                let inode' = inode\<lparr>indirect_block := of_nat ind\<rparr>;
                    w4 = write_sector ind (replicate 512 0) w3
                in write_blocks text ks inode' bw (index_block k lba inode' w4))
           else write_blocks text ks inode bw (index_block k lba inode w2))"

definition store_file :: "nat \<Rightarrow> nat \<Rightarrow> nr_inode \<Rightarrow> bytes \<Rightarrow> string \<Rightarrow> 'a fsworld_scheme \<Rightarrow> 'a fsworld_scheme" where
  "store_file sector i inode text done_msg w =
     (let (ino, n, w1) = write_blocks text [0..<(length text + 511) div 512] inode 0 w
      in okmsg done_msg (update_inode sector i (\<lambda>_. ino\<lparr>ino_size := of_nat n\<rparr>) w1))"

definition rexfs_write :: "bytes \<Rightarrow> 'a fsworld_scheme \<Rightarrow> 'a fsworld_scheme option" where
  "rexfs_write args w =
     (if \<not> fs_mounted w then Some (err ''Error: Filesystem is not mounted.'' w)
      else if char_at args 0 = 0 then Some (err ''Usage: write <file> <text>'' w)
      else let (filename, rest) = split_args args in
        if rest = [] then Some (err ''Error: No text payload provided.'' w)
        else let text = dropWhile (\<lambda>c. c = 32) rest in
          case scan_inodes (typed_entry 1 (current_dir_id w) filename) w of
            (None, w1) \<Rightarrow> Some (err ''Error: File not found. Create it with \\'touch\\' first.'' w1)
          | (Some (sector, i, buf), w1) \<Rightarrow>
              do { w2 \<leftarrow> free_file_blocks (inode_ptr buf i) w1;
                   let inode = (inode_ptr buf i)\<lparr>direct_blocks := replicate 10 0, indirect_block := 0\<rparr>;
                   if text = [] then
                     Some (okmsg ''File written (empty).'' (update_inode sector i (\<lambda>_. inode\<lparr>ino_size := 0\<rparr>) w2))
                   else if (length text + 511) div 512 > 266 then
                     Some (err ''Error: Text payload exceeds maximum file size (133 KB).'' w2)
                   else Some (store_file sector i inode text ''File written successfully.'' w2) })"

text \<open>
  The reading loop of \<open>cat\<close> and \<open>exec\<close>; \<open>body off chunk\<close> is what they do with a chunk.  The
  chunk size is a signed \<open>int\<close>, and \<open>indirect_buf\<close> has 256 elements.
\<close>

definition block_of :: "nr_inode \<Rightarrow> nat \<Rightarrow> 'a fsworld_scheme \<Rightarrow> (nat \<times> 'a fsworld_scheme) option" where
  "block_of inode k w =
     (if k < 10 then Some (unat (direct_blocks inode ! k), w)
      else if indirect_block inode = 0 then Some (0, w)
      else let (ib, w1) = read_sector (unat (indirect_block inode)) w
           in if k - 10 < 256 then Some (unat (words16 0 256 ib ! (k - 10)), w1) else None)"

fun read_blocks :: "(nat \<Rightarrow> bytes \<Rightarrow> 'c \<times> 'a fsworld_scheme \<Rightarrow> 'c \<times> 'a fsworld_scheme) \<Rightarrow> nr_inode \<Rightarrow>
    nat list \<Rightarrow> u32 \<Rightarrow> 'c \<times> 'a fsworld_scheme \<Rightarrow> ('c \<times> 'a fsworld_scheme) option" where
  "read_blocks body inode [] n (c, w) = Some (c, w)"
| "read_blocks body inode (k # ks) n (c, w) =
     (case block_of inode k w of
        None \<Rightarrow> None
      | Some (lba, w1) \<Rightarrow>
          if lba = 0 then Some (c, w1)
          else
            let (buf, w2) = read_sector lba w1;
                chunk_size = min 512 (sint (ino_size inode - n))
            in read_blocks body inode ks (n + of_int chunk_size) (body (unat n) (take (nat chunk_size) buf) (c, w2)))"

definition file_block_count :: "nr_inode \<Rightarrow> nat" where
  "file_block_count inode = unat (ino_size inode + 511) div 512"

definition rexfs_cat :: "bytes \<Rightarrow> 'a fsworld_scheme \<Rightarrow> 'a fsworld_scheme option" where
  "rexfs_cat filename w =
     (if \<not> fs_mounted w then Some (err ''Error: Filesystem is not mounted.'' w)
      else if char_at filename 0 = 0 then Some (err ''Usage: cat <file>'' w)
      else case scan_inodes (typed_entry 1 (current_dir_id w) filename) w of
        (None, w1) \<Rightarrow> Some (err ''Error: File not found.'' w1)
      | (Some (sector, i, buf), w1) \<Rightarrow>
          let inode = inode_ptr buf i in
          if ino_size inode = 0 then Some w1
          else map_option (\<lambda>(c, w2). kputc 10 w2)
            (read_blocks (\<lambda>off chunk (c, v). (c, fold kputc chunk v)) inode
               [0..<file_block_count inode] 0 ((), w1)))"

text \<open>The digit pairs of \<open>writehex\<close>; the flag is the warning about an odd trailing digit.\<close>

definition nibble :: "u8 \<Rightarrow> u8" where
  "nibble c =
     (if 48 \<le> c \<and> c \<le> 57 then c - 48 else if 97 \<le> c \<and> c \<le> 102 then c - 97 + 10
      else if 65 \<le> c \<and> c \<le> 70 then c - 65 + 10 else 0)"

function hex_bytes :: "bytes \<Rightarrow> bytes \<times> bool" where
  "hex_bytes s =
     (case dropWhile (\<lambda>c. c = 32) s of
        [] \<Rightarrow> ([], False)
      | [c1] \<Rightarrow> ([], True)
      | c1 # c2 # r \<Rightarrow> (case hex_bytes r of (bs, rest) \<Rightarrow> ((push_bit 4 (nibble c1) + nibble c2) # bs, rest)))"
  by pat_completeness auto
termination
proof (relation "measure length")
  show "wf (measure (length :: bytes \<Rightarrow> nat))" by simp
next
  fix s :: bytes and c1 c2 :: u8 and r t :: bytes
  assume "dropWhile (\<lambda>c. c = 32) s = c1 # t" and "t = c2 # r"
  then have "length (c1 # c2 # r) \<le> length s" using length_dropWhile_le [of "\<lambda>c. c = 32" s] by simp
  then show "(r, s) \<in> measure length" by simp
qed

definition rexfs_writehex :: "bytes \<Rightarrow> 'a fsworld_scheme \<Rightarrow> 'a fsworld_scheme option" where
  "rexfs_writehex args w =
     (if \<not> fs_mounted w then Some (err ''Error: Filesystem is not mounted.'' w)
      else if char_at args 0 = 0 then Some (err ''Usage: writehex <file> <hex_string>'' w)
      else let (filename, rest) = split_args args in
        if rest = [] then Some (err ''Error: No hex payload provided.'' w)
        else let hex_str = dropWhile (\<lambda>c. c = 32) rest in
          case scan_inodes (typed_entry 1 (current_dir_id w) filename) w of
            (None, w1) \<Rightarrow> Some (err ''Error: File not found. Create it with \\'touch\\' first.'' w1)
          | (Some (sector, i, buf), w1) \<Rightarrow>
              do { w2 \<leftarrow> free_file_blocks (inode_ptr buf i) w1;
                   let inode = (inode_ptr buf i)\<lparr>direct_blocks := replicate 10 0, indirect_block := 0\<rparr>;
                   (p, w3) \<leftarrow> kmalloc (length hex_str div 2 + 1) w2;
                   if p = 0 then Some (err ''Error: Out of memory for parsing hex.'' w3)
                   else do {
                     let (bin, warn) = hex_bytes hex_str;
                     let w4 = (if warn
                       then kprint_color (str ''Warning: Odd number of hex characters. Ignoring trailing digit.'' @ [10])
                              COLOR_YELLOW w3
                       else w3);
                     if bin = [] then
                       kfree p (okmsg ''File written (empty).'' (update_inode sector i (\<lambda>_. inode\<lparr>ino_size := 0\<rparr>) w4))
                     else if (length bin + 511) div 512 > 266 then
                       kfree p (err ''Error: Payload exceeds maximum file size (133 KB).'' w4)
                     else kfree p (store_file sector i inode bin ''Hex file written successfully.'' w4) } })"

text \<open>
  Program loading.  \<open>hlt\<close> is what happens while the processor is halted: the interrupts up to the next
  return to this loop, with whatever the scheduler runs in between.
\<close>

definition load_file :: "nr_inode \<Rightarrow> nat \<Rightarrow> 'a fsworld_scheme \<Rightarrow> (unit \<times> 'a fsworld_scheme) option" where
  "load_file inode code_buffer w =
     read_blocks (\<lambda>off chunk (c, v). (c, v\<lparr>ram := poke_bytes (code_buffer + off) chunk (ram v)\<rparr>)) inode
       [0..<file_block_count inode] 0 ((), w)"

partial_function (option) wait_exit :: "('a fsworld_scheme \<Rightarrow> 'a fsworld_scheme option) \<Rightarrow> nat \<Rightarrow>
    'a fsworld_scheme \<Rightarrow> 'a fsworld_scheme option" where
  "wait_exit hlt t w =
     (case tasks w t of
        None \<Rightarrow> None
      | Some p \<Rightarrow>
          if t_state p \<noteq> TASK_SUSPENDED
          then (case hlt w of None \<Rightarrow> None | Some w' \<Rightarrow> wait_exit hlt t w')
          else Some w)"

text \<open>\<open>run_program\<close> is the part that hands the entry address to the scheduler.\<close>

definition run_program :: "nat \<Rightarrow> nat \<Rightarrow> 'a fsworld_scheme \<Rightarrow> (nat \<times> 'a fsworld_scheme) option" where
  "run_program stack_space entry_addr w =
     do { w1 \<leftarrow> (if \<not> scheduler_active w then init_scheduler stack_space w else Some w);
          task_create entry_addr 0 True w1 }"

definition rexfs_exec :: "nat \<Rightarrow> ('a fsworld_scheme \<Rightarrow> 'a fsworld_scheme option) \<Rightarrow> bytes \<Rightarrow>
    'a fsworld_scheme \<Rightarrow> 'a fsworld_scheme option" where
  "rexfs_exec stack_space hlt filename w =
     (if \<not> fs_mounted w then Some (err ''Error: Filesystem is not mounted.'' w)
      else if char_at filename 0 = 0 then Some (err ''Usage: exec <file>'' w)
      else case scan_inodes (typed_entry 1 (current_dir_id w) filename) w of
        (None, w1) \<Rightarrow> Some (err ''Error: File not found.'' w1)
      | (Some (sector, i, buf), w1) \<Rightarrow>
          let inode = inode_ptr buf i in
          if ino_size inode < 8 then Some (err ''Error: File is too small to be an executable.'' w1)
          else do {
            (p, w2) \<leftarrow> kmalloc (unat (ino_size inode)) w1;
            if p = 0 then Some (err ''Error: Out of memory loading executable.'' w2)
            else do {
              (_, w3) \<leftarrow> load_file inode p w2;
              let header = peek_bytes (ram w3) p 8;
              if take 4 header \<noteq> str ''NEX!'' then
                kfree p (err ''Error: Invalid executable signature (expected NEX!).'' w3)
              else if unat (rd16 header 6) \<ge> unat (ino_size inode) then
                kfree p (err ''Error: Executable entry point out of bounds.'' w3)
              else do {
                (t, w4) \<leftarrow> run_program stack_space ((p + unat (rd16 header 6)) mod W32)
                        (kprint_color (str ''[Kernel] Executing program in Ring 3...'' @ [10]) COLOR_LIGHT_CYAN w3);
                w5 \<leftarrow> wait_exit hlt t w4;
                kfree p (kprint_color ([10] @ str ''[Kernel] Program returned safely.'' @ [10]) COLOR_LIGHT_GREEN w5) } } })"

end
