(* ===== verification/RexfsInv.thy ===== *)
theory RexfsInv
  imports Rexfs
begin

text \<open>
  Basic facts about the file system operations: what reading, searching, allocating and freeing do
  to the state, and the invariant of the file system.  The block allocator is shown to be a
  \<open>unit_pool\<close>.
\<close>

section \<open>Frames\<close>

text \<open>
  \<open>frame S w w'\<close>: outside the sectors \<open>S\<close> the disk is unchanged, and so are the mount state and
  the kernel heap.
\<close>

definition frame :: "nat set \<Rightarrow> 'a fsworld_scheme \<Rightarrow> 'a fsworld_scheme \<Rightarrow> bool" where
  "frame S w w' \<longleftrightarrow> (\<forall>s. s \<notin> S \<longrightarrow> disk w' s = disk w s) \<and> fs_mounted w' = fs_mounted w \<and>
     active_sb w' = active_sb w \<and> current_dir_id w' = current_dir_id w \<and> kheap w' = kheap w"

lemma frame_refl [simp, intro]: "frame S w w"
  by (simp add: frame_def)

lemma frame_trans: "frame S w w' \<Longrightarrow> frame T w' w'' \<Longrightarrow> frame (S \<union> T) w w''"
  by (simp add: frame_def)

lemma frame_mono: "frame S w w' \<Longrightarrow> S \<subseteq> T \<Longrightarrow> frame T w w'"
  by (auto simp: frame_def)

lemma frame_disk: "frame S w w' \<Longrightarrow> s \<notin> S \<Longrightarrow> disk w' s = disk w s"
  by (simp add: frame_def)

lemma frame_quiet: "frame {} w w' \<Longrightarrow> disk w' = disk w"
  by (simp add: frame_def fun_eq_iff)

lemma frame_print [simp, intro]: "frame S w (con_update f w)"
  by (simp add: frame_def)

lemma frame_print_after: "frame S w w' \<Longrightarrow> frame S w (con_update f w')"
  by (simp add: frame_def)

lemma sys_trace_fs [simp]:
  "disk (sys_trace e w) = disk w" "fs_mounted (sys_trace e w) = fs_mounted w"
  "active_sb (sys_trace e w) = active_sb w" "current_dir_id (sys_trace e w) = current_dir_id w"
  "kheap (sys_trace e w) = kheap w" "con (sys_trace e w) = con w"
  by (simp_all add: sys_trace_def)

lemma read_sectorE:
  assumes "read_sector lba w = (b, w')" and "lba < 2 ^ 28"
  shows "b = disk w lba" and "frame {} w w'" and "disk w' = disk w" and "con w' = con w"
  using assms by (auto simp: read_sector_def frame_def)

lemma read_sector_frame: "frame {} w (snd (read_sector lba w))"
  by (simp add: read_sector_def frame_def)

lemma write_sector_simps [simp]:
  "lba < 2 ^ 28 \<Longrightarrow> disk (write_sector lba b w) = (disk w)(lba := b)"
  "fs_mounted (write_sector lba b w) = fs_mounted w" "active_sb (write_sector lba b w) = active_sb w"
  "current_dir_id (write_sector lba b w) = current_dir_id w" "kheap (write_sector lba b w) = kheap w"
  "con (write_sector lba b w) = con w"
  by (simp_all add: write_sector_def)

lemma write_sector_frame: "lba < 2 ^ 28 \<Longrightarrow> frame {lba} w (write_sector lba b w)"
  by (simp add: frame_def)

section \<open>The inode table\<close>

definition slot :: "(nat \<Rightarrow> bytes) \<Rightarrow> nat \<Rightarrow> nr_inode" where
  "slot d k = inode_ptr (d (2 + k div 8)) (k mod 8)"

definition slot_name :: "(nat \<Rightarrow> bytes) \<Rightarrow> nat \<Rightarrow> bytes" where
  "slot_name d k = inode_name (d (2 + k div 8)) (k mod 8)"

definition disk_wf :: "(nat \<Rightarrow> bytes) \<Rightarrow> bool" where
  "disk_wf d \<longleftrightarrow> (\<forall>s. length (d s) = 512)"

lemma inode_wf_slot [simp]: "disk_wf d \<Longrightarrow> inode_wf (slot d k)"
  by (simp add: slot_def disk_wf_def)

lemma scan_sectors_spec:
  assumes "\<forall>s \<in> set ss. 2 \<le> s \<and> s < 10"
  shows "\<exists>w'. scan_sectors P ss w =
      (map_option (\<lambda>k. (2 + k div 8, k mod 8, disk w (2 + k div 8)))
         (find (\<lambda>k. P (slot (disk w) k) (slot_name (disk w) k))
            (concat (map (\<lambda>s. map (\<lambda>i. (s - 2) * 8 + i) [0..<8]) ss))), w') \<and>
      frame {} w w' \<and> con w' = con w"
  using assms
proof (induction ss arbitrary: w)
  case Nil
  then show ?case by simp
next
  case (Cons s ss)
  obtain b w1 where r: "read_sector s w = (b, w1)" by (cases "read_sector s w")
  have s: "2 \<le> s" "s < 2 ^ 28" using Cons.prems by auto
  note rs = read_sectorE [OF r s(2)]
  let ?Q = "\<lambda>k. P (slot (disk w) k) (slot_name (disk w) k)"
  have sl: "slot (disk w) ((s - 2) * 8 + i) = inode_ptr b i" "slot_name (disk w) ((s - 2) * 8 + i) = inode_name b i"
    if "i < 8" for i
  proof -
    have "2 + ((s - 2) * 8 + i) div 8 = s" "((s - 2) * 8 + i) mod 8 = i" using that s by auto
    then show "slot (disk w) ((s - 2) * 8 + i) = inode_ptr b i"
      "slot_name (disk w) ((s - 2) * 8 + i) = inode_name b i"
      using rs(1) by (simp_all only: slot_def slot_name_def)
  qed
  have find_app: "find Q (xs @ ys) = (case find Q xs of None \<Rightarrow> find Q ys | r \<Rightarrow> r)" for Q :: "nat \<Rightarrow> bool" and xs ys
    by (induction xs) auto
  have "find ?Q (map (\<lambda>i. (s - 2) * 8 + i) is) = map_option (\<lambda>i. (s - 2) * 8 + i) (find (\<lambda>i. P (inode_ptr b i) (inode_name b i)) is)"
    if "\<forall>i \<in> set is. i < 8" for "is" using that by (induction "is") (auto simp: sl)
  then have hd: "find ?Q (map (\<lambda>i. (s - 2) * 8 + i) [0..<8]) = map_option (\<lambda>i. (s - 2) * 8 + i) (scan_slots P b)"
    by (simp add: scan_slots_def)
  show ?case
  proof (cases "scan_slots P b")
    case None
    then have "scan_sectors P (s # ss) w = scan_sectors P ss w1" using r by simp
    moreover obtain w' where "scan_sectors P ss w1 = (map_option (\<lambda>k. (2 + k div 8, k mod 8, disk w (2 + k div 8)))
         (find ?Q (concat (map (\<lambda>s. map (\<lambda>i. (s - 2) * 8 + i) [0..<8]) ss))), w')" "frame {} w1 w'" "con w' = con w1"
      using Cons.IH [of w1] Cons.prems rs(3) by auto
    ultimately show ?thesis using None hd rs(2,4) frame_trans [of "{}" w w1 "{}" w'] by (simp add: find_app)
  next
    case (Some i)
    then have "i < 8" by (auto simp: scan_slots_def find_Some_iff)
    then have "2 + ((s - 2) * 8 + i) div 8 = s" "((s - 2) * 8 + i) mod 8 = i" using s by auto
    then show ?thesis using Some r hd rs by (simp add: find_app)
  qed
qed

definition find_slot :: "(nr_inode \<Rightarrow> bytes \<Rightarrow> bool) \<Rightarrow> (nat \<Rightarrow> bytes) \<Rightarrow> nat option" where
  "find_slot P d = find (\<lambda>k. P (slot d k) (slot_name d k)) [0..<64]"

lemma scan_inodes_spec:
  "\<exists>w'. scan_inodes P w =
     (map_option (\<lambda>k. (2 + k div 8, k mod 8, disk w (2 + k div 8))) (find_slot P (disk w)), w') \<and>
   frame {} w w' \<and> con w' = con w"
proof -
  have "concat (map (\<lambda>s. map (\<lambda>i. (s - 2) * 8 + i) [0..<8]) [2..<10]) = [0..<64]"
    by (simp add: upt_rec)
  then show ?thesis using scan_sectors_spec [of "[2..<10]" P w] by (simp add: scan_inodes_def find_slot_def)
qed

lemma find_slot_Some:
  "find_slot P d = Some k \<Longrightarrow> k < 64 \<and> P (slot d k) (slot_name d k) \<and>
   (\<forall>j<k. \<not> P (slot d j) (slot_name d j))"
  by (auto simp: find_slot_def find_Some_iff)

lemma find_slot_None: "find_slot P d = None \<longleftrightarrow> (\<forall>k<64. \<not> P (slot d k) (slot_name d k))"
  by (auto simp: find_slot_def find_None_iff)

lemma find_slot_unique:
  assumes "k < 64" and "P (slot d k) (slot_name d k)"
    and "\<And>j. j < 64 \<Longrightarrow> P (slot d j) (slot_name d j) \<Longrightarrow> j = k"
  shows "find_slot P d = Some k"
proof (cases "find_slot P d")
  case None
  then show ?thesis using assms(1,2) by (simp add: find_slot_None)
next
  case (Some j)
  then show ?thesis using assms(3) find_slot_Some [OF Some] by auto
qed

section \<open>The block allocator\<close>

definition geom_ok :: "'a fsworld_scheme \<Rightarrow> bool" where
  "geom_ok w \<longleftrightarrow> disk_wf (disk w) \<and> data_offset (active_sb w) = 11 \<and>
     11 \<le> unat (total_blocks (active_sb w)) \<and> unat (total_blocks (active_sb w)) \<le> 4096"

definition block_pool :: "'a fsworld_scheme \<Rightarrow> nat set" where
  "block_pool w = {11..<unat (total_blocks (active_sb w))}"

definition bits_used :: "bytes \<Rightarrow> nat set" where
  "bits_used bm = {11 + i | i. i < 4096 \<and> test_bit_at bm i}"

definition block_used :: "'a fsworld_scheme \<Rightarrow> nat set" where
  "block_used w = bits_used (disk w 10)"

lemma geom_frame:
  "geom_ok w \<Longrightarrow> frame S w w' \<Longrightarrow> (\<And>s. s \<in> S \<Longrightarrow> length (disk w' s) = 512) \<Longrightarrow> geom_ok w'"
  unfolding geom_ok_def disk_wf_def frame_def by (metis (no_types))

lemma block_pool_frame: "frame S w w' \<Longrightarrow> block_pool w' = block_pool w"
  by (simp add: block_pool_def frame_def)

lemma block_used_frame: "frame S w w' \<Longrightarrow> 10 \<notin> S \<Longrightarrow> block_used w' = block_used w"
  by (simp add: block_used_def frame_def)

lemma bits_used_set:
  "length bm = 512 \<Longrightarrow> i < 4096 \<Longrightarrow> bits_used (set_bit_at i bm) = insert (11 + i) (bits_used bm)"
  by (auto simp: bits_used_def test_set_bit_at)

lemma bits_used_clear:
  "length bm = 512 \<Longrightarrow> i < 4096 \<Longrightarrow> bits_used (clear_bit_at i bm) = bits_used bm - {11 + i}"
  by (auto simp: bits_used_def test_clear_bit_at)

lemma bit_candidates_mem:
  assumes "idx < 4096" and "\<not> test_bit_at bm idx"
  shows "idx \<in> set (bit_candidates bm)"
proof -
  have "idx mod 8 < 8" "\<not> bit (bm ! (idx div 8)) (idx mod 8)" using assms(2) by (simp_all add: test_bit_at_bit)
  then have "bm ! (idx div 8) \<noteq> 0xFF" using byte_full by blast
  moreover have "idx div 8 < 512" "idx = idx div 8 * 8 + idx mod 8" using assms(1) by auto
  ultimately show ?thesis
    unfolding bit_candidates_def by (auto intro!: bexI [of _ "idx div 8"] image_eqI [of _ _ "idx mod 8"])
qed

lemma bit_candidates_lt: "idx \<in> set (bit_candidates bm) \<Longrightarrow> idx < 4096"
  by (auto simp: bit_candidates_def)

lemma small_less_sub:
  fixes t :: u32
  assumes "11 \<le> unat t" and "idx < 4096"
  shows "(of_nat idx < t - 11) = (idx + 11 < unat t)"
proof -
  have "unat (t - 11) = unat t - 11" using assms(1) unat_sub [of "11 :: u32" t] by (simp add: word_le_nat_alt)
  moreover have "unat (of_nat idx :: u32) = idx" using assms(2) by (simp add: unat_of_nat)
  ultimately show ?thesis by (simp add: word_less_nat_alt less_diff_conv)
qed

lemma allocate_cases:
  assumes "geom_ok w"
  shows "(\<exists>w'. allocate_free_block w = (0, w') \<and> frame {} w w' \<and> con w' = con w \<and> block_pool w \<subseteq> block_used w) \<or>
    (\<exists>u w'. allocate_free_block w = (u, w') \<and> u \<in> block_pool w \<and> u \<notin> block_used w \<and> frame {10} w w' \<and>
       con w' = con w \<and> length (disk w' 10) = 512 \<and> block_used w' = insert u (block_used w))"
proof -
  obtain bm w1 where r: "read_sector 10 w = (bm, w1)" by (cases "read_sector 10 w")
  note rs = read_sectorE [OF r, simplified]
  let ?t = "total_blocks (active_sb w)"
  have g: "11 \<le> unat ?t" "unat ?t \<le> 4096" "data_offset (active_sb w) = 11" "length bm = 512"
    using assms rs(1) by (auto simp: geom_ok_def disk_wf_def)
  let ?P = "\<lambda>idx. \<not> test_bit_at bm idx \<and> of_nat idx < ?t - 11"
  show ?thesis
  proof (cases "find ?P (bit_candidates bm)")
    case None
    have "block_pool w \<subseteq> block_used w"
    proof
      fix u
      assume "u \<in> block_pool w"
      then obtain i where i: "u = 11 + i" "i + 11 < unat ?t" unfolding block_pool_def
        by (auto simp: le_iff_add)
      then have "i < 4096" "of_nat i < ?t - 11" using g small_less_sub [of ?t i] by auto
      then have "test_bit_at bm i" using None bit_candidates_mem [of i bm] by (auto simp: find_None_iff)
      then show "u \<in> block_used w" using i \<open>i < 4096\<close> rs(1) by (auto simp: block_used_def bits_used_def)
    qed
    then show ?thesis using None r rs by (simp add: allocate_free_block_def)
  next
    case (Some i)
    then have i: "i < 4096" "\<not> test_bit_at bm i" "of_nat i < ?t - 11"
      using bit_candidates_lt [of i bm] by (auto simp: find_Some_iff)
    then have lt: "i + 11 < unat ?t" using g small_less_sub by blast
    let ?w' = "write_sector 10 (set_bit_at i bm) w1"
    have u: "unat (11 + of_nat i :: u32) = 11 + i" using i(1) by (simp add: unat_word_ariths unat_of_nat)
    have "allocate_free_block w = (11 + i, ?w')" using Some r g(3) u by (simp add: allocate_free_block_def)
    moreover have "frame {10} w ?w'" using rs(2) write_sector_frame [of 10 w1] frame_trans [of "{}" w w1 "{10}"] by simp
    moreover have "block_used ?w' = insert (11 + i) (block_used w)"
      using bits_used_set [OF g(4) i(1)] rs(1) by (simp add: block_used_def)
    moreover have "11 + i \<in> block_pool w" "11 + i \<notin> block_used w"
      using lt i rs(1) by (auto simp: block_pool_def block_used_def bits_used_def)
    ultimately show ?thesis using g(4) rs(4)
      by (intro disjI2 exI [of _ "11 + i"] exI [of _ ?w']) simp
  qed
qed

lemma free_block_spec:
  assumes "geom_ok w" and "u \<in> block_pool w"
  shows "\<exists>w'. free_block u w = Some w' \<and> frame {10} w w' \<and> con w' = con w \<and> length (disk w' 10) = 512 \<and>
    block_used w' = block_used w - {u}"
proof -
  obtain bm w1 where r: "read_sector 10 w = (bm, w1)" by (cases "read_sector 10 w")
  note rs = read_sectorE [OF r, simplified]
  have g: "unat (total_blocks (active_sb w)) \<le> 4096" "data_offset (active_sb w) = 11" "length bm = 512"
    using assms rs(1) by (auto simp: geom_ok_def disk_wf_def)
  then have u: "11 \<le> u" "u - 11 < 4096" "(u - 11) div 8 < 512" using assms(2) by (auto simp: block_pool_def)
  let ?w' = "write_sector 10 (clear_bit_at (u - 11) bm) w1"
  have "free_block u w = Some ?w'" using r g(2) u by (simp add: free_block_def)
  moreover have "frame {10} w ?w'" using rs(2) write_sector_frame [of 10 w1] frame_trans [of "{}" w w1 "{10}"] by simp
  moreover have "block_used ?w' = block_used w - {u}"
    using bits_used_clear [OF g(3) u(2)] u(1) rs(1) by (simp add: block_used_def)
  ultimately show ?thesis using g(3) rs(4) by simp
qed

interpretation fb: unit_pool geom_ok block_pool block_used allocate_free_block free_block
proof (unfold_locales, goal_cases)
  case (1 s)
  then show ?case by (simp add: block_pool_def)
next
  case (2 s)
  then show ?case by (simp add: block_pool_def)
next
  case (3 s s')
  then have "frame {} s s'" "block_pool s \<subseteq> block_used s"
    using allocate_cases [OF 3(1)] by (auto simp: block_pool_def)
  then show ?case using geom_frame [OF 3(1), of "{}" s'] block_pool_frame [of "{}" s s']
      block_used_frame [of "{}" s s'] by simp
next
  case (4 s u s')
  then have "u \<in> block_pool s" "u \<notin> block_used s" "frame {10} s s'" "length (disk s' 10) = 512"
      "block_used s' = insert u (block_used s)"
    using allocate_cases [OF 4(1)] by auto
  then show ?case using geom_frame [OF 4(1), of "{10}" s'] block_pool_frame [of "{10}" s s'] by simp
next
  case (5 s u)
  then obtain s' where "free_block u s = Some s'" "frame {10} s s'" "length (disk s' 10) = 512"
      "block_used s' = block_used s - {u}"
    using free_block_spec by blast
  then show ?case using geom_frame [OF 5(1), of "{10}" s'] block_pool_frame [of "{10}" s s'] by simp
qed

end
