(* ===== verification/RexfsFiles.thy ===== *)
theory RexfsFiles
  imports RexfsInv
begin

text \<open>
  File contents: the block map of an inode, freeing and filling it (\<open>write\<close>, \<open>rm\<close>), and
  reading it back (\<open>cat\<close>, \<open>exec\<close>).
\<close>

section \<open>The block map of an inode\<close>

definition bnum :: "(nat \<Rightarrow> bytes) \<Rightarrow> nr_inode \<Rightarrow> nat \<Rightarrow> nat" where
  "bnum d ino k =
     (if k < 10 then unat (direct_blocks ino ! k)
      else if indirect_block ino = 0 then 0
      else unat (words16 0 256 (d (unat (indirect_block ino))) ! (k - 10)))"

definition owned :: "(nat \<Rightarrow> bytes) \<Rightarrow> nr_inode \<Rightarrow> nat set" where
  "owned d ino = (bnum d ino ` {..<266} \<union> {unat (indirect_block ino)}) - {0}"

text \<open>No block is named twice in the map, and the index block is not a data block.\<close>

definition sep :: "(nat \<Rightarrow> bytes) \<Rightarrow> nr_inode \<Rightarrow> bool" where
  "sep d ino \<longleftrightarrow>
     (\<forall>i<266. \<forall>j<266. i \<noteq> j \<longrightarrow> bnum d ino i = bnum d ino j \<longrightarrow> bnum d ino i = 0) \<and>
     (\<forall>i<266. bnum d ino i = unat (indirect_block ino) \<longrightarrow> bnum d ino i = 0)"

lemma u16_lt_28: "unat (b :: u16) < 2 ^ 28"
  using unsigned_less [of b, where ?'a = nat] by simp

lemma bnum_lt_28: "bnum d ino k < 2 ^ 28"
  using u16_lt_28 by (simp add: bnum_def)

lemma bnum_owned: "k < 266 \<Longrightarrow> bnum d ino k \<noteq> 0 \<Longrightarrow> bnum d ino k \<in> owned d ino"
  by (auto simp: owned_def)

lemma block_pool_small: "geom_ok w \<Longrightarrow> u \<in> block_pool w \<Longrightarrow> 11 \<le> u \<and> u < 4096 \<and> u < 2 ^ 28"
  by (auto simp: geom_ok_def block_pool_def)

lemma bnum_cong:
  "direct_blocks ino' = direct_blocks ino \<Longrightarrow> indirect_block ino' = indirect_block ino \<Longrightarrow>
   (indirect_block ino \<noteq> 0 \<Longrightarrow> d' (unat (indirect_block ino)) = d (unat (indirect_block ino))) \<Longrightarrow>
   bnum d' ino' = bnum d ino"
  by (auto simp: bnum_def fun_eq_iff)

lemma owned_cong:
  "direct_blocks ino' = direct_blocks ino \<Longrightarrow> indirect_block ino' = indirect_block ino \<Longrightarrow>
   (\<And>b. b \<in> owned d ino \<Longrightarrow> d' b = d b) \<Longrightarrow>
   bnum d' ino' = bnum d ino \<and> owned d' ino' = owned d ino \<and> sep d' ino' = sep d ino"
proof -
  assume a: "direct_blocks ino' = direct_blocks ino" "indirect_block ino' = indirect_block ino"
    "\<And>b. b \<in> owned d ino \<Longrightarrow> d' b = d b"
  have "unat (indirect_block ino) \<in> owned d ino" if "indirect_block ino \<noteq> 0"
    using that by (auto simp: owned_def unat_eq_zero)
  then have "bnum d' ino' = bnum d ino" using a by (intro bnum_cong) auto
  then show ?thesis using a by (simp add: owned_def sep_def)
qed

section \<open>Freeing\<close>

lemma free_each_spec:
  assumes "geom_ok w" and "\<forall>b \<in> set bs. b \<noteq> 0 \<longrightarrow> unat b \<in> block_pool w"
  shows "\<exists>w'. free_each bs w = Some w' \<and> frame {10} w w' \<and> con w' = con w \<and> geom_ok w' \<and>
    block_used w' = block_used w - unat ` set bs"
  using assms
proof (induction bs arbitrary: w)
  case Nil
  then show ?case by simp
next
  case (Cons b bs)
  show ?case
  proof (cases "b = 0")
    case True
    have "0 \<notin> block_used w" by (simp add: block_used_def bits_used_def)
    then show ?thesis using Cons True by auto
  next
    case False
    then obtain w1 where w1: "free_block (unat b) w = Some w1" "frame {10} w w1" "con w1 = con w"
      "length (disk w1 10) = 512" "block_used w1 = block_used w - {unat b}"
      using Cons.prems free_block_spec [of w "unat b"] by auto
    have g: "geom_ok w1" using geom_frame [OF Cons.prems(1) w1(2)] w1(4) by simp
    have "\<forall>b \<in> set bs. b \<noteq> 0 \<longrightarrow> unat b \<in> block_pool w1"
      using Cons.prems(2) block_pool_frame [OF w1(2)] by simp
    then obtain w' where w': "free_each bs w1 = Some w'" "frame {10} w1 w'" "con w' = con w1" "geom_ok w'"
      "block_used w' = block_used w1 - unat ` set bs"
      using Cons.IH [OF g] by blast
    moreover have "frame {10} w w'" using frame_trans [OF w1(2) w'(2)] by simp
    moreover have "block_used w' = block_used w - unat ` set (b # bs)" using w1(5) w'(5) by auto
    ultimately show ?thesis using w1(1,3) False by auto
  qed
qed

lemma unat_set_direct: "inode_wf ino \<Longrightarrow> unat ` set (direct_blocks ino) = bnum d ino ` {..<10}"
  by (auto simp: inode_wf_def bnum_def set_conv_nth image_iff)

lemma unat_set_index:
  assumes "indirect_block ino \<noteq> 0"
  shows "unat ` set (words16 0 256 (d (unat (indirect_block ino)))) = bnum d ino ` {10..<266}"
proof -
  let ?ws = "words16 0 256 (d (unat (indirect_block ino)))"
  have "unat ` set ?ws = (\<lambda>i. unat (?ws ! i)) ` {..<256}" by (auto simp: set_conv_nth image_iff)
  also have "\<dots> = (\<lambda>k. unat (?ws ! (k - 10))) ` ((\<lambda>i. i + 10) ` {..<256})" by (simp add: image_image)
  also have "(\<lambda>i. i + 10) ` {..<256 :: nat} = {10..<266}"
  proof -
    have "x \<in> (\<lambda>i. i + 10) ` {..<256}" if "10 \<le> x" "x < 266" for x :: nat
      by (rule image_eqI [of _ _ "x - 10"]) (use that in auto)
    then show ?thesis by auto
  qed
  also have "(\<lambda>k. unat (?ws ! (k - 10))) ` {10..<266} = bnum d ino ` {10..<266}"
    by (rule image_cong) (simp_all add: bnum_def assms)
  finally show ?thesis .
qed

lemma free_file_blocks_spec:
  assumes "geom_ok w" and "inode_wf ino" and "owned (disk w) ino \<subseteq> block_pool w"
  shows "\<exists>w'. free_file_blocks ino w = Some w' \<and> frame {10} w w' \<and> con w' = con w \<and> geom_ok w' \<and>
    block_used w' = block_used w - owned (disk w) ino"
proof -
  let ?d = "disk w"
  let ?ib = "unat (indirect_block ino)"
  have z: "0 \<notin> block_used w" by (simp add: block_used_def bits_used_def)
  have dir: "\<forall>b \<in> set (direct_blocks ino). b \<noteq> 0 \<longrightarrow> unat b \<in> block_pool w"
  proof (intro ballI impI)
    fix b
    assume b: "b \<in> set (direct_blocks ino)" "b \<noteq> 0"
    then have "unat b \<in> bnum ?d ino ` {..<10}" using unat_set_direct [OF assms(2)] by blast
    then have "unat b \<in> owned ?d ino" using b by (auto simp: owned_def unat_eq_zero)
    then show "unat b \<in> block_pool w" using assms(3) by blast
  qed
  obtain w1 where w1: "free_each (direct_blocks ino) w = Some w1" "frame {10} w w1" "con w1 = con w" "geom_ok w1"
    "block_used w1 = block_used w - bnum ?d ino ` {..<10}"
    using free_each_spec [OF assms(1) dir] unat_set_direct [OF assms(2)] by metis
  show ?thesis
  proof (cases "indirect_block ino = 0")
    case True
    then have "owned ?d ino = bnum ?d ino ` {..<10} - {0}" by (force simp: owned_def bnum_def)
    then have "block_used w1 = block_used w - owned ?d ino" using w1(5) z by auto
    then show ?thesis using w1 True by (simp add: free_file_blocks_def)
  next
    case False
    have ib: "?ib \<in> owned ?d ino" using False by (auto simp: owned_def unat_eq_zero)
    then have ip: "?ib \<in> block_pool w" using assms(3) by blast
    then have i10: "?ib \<noteq> 10" using block_pool_small [OF assms(1)] by fastforce
    obtain b w2 where r: "read_sector ?ib w1 = (b, w2)" by (cases "read_sector ?ib w1")
    note rs = read_sectorE [OF r u16_lt_28]
    have b: "b = ?d ?ib" using rs(1) frame_disk [OF w1(2)] i10 by simp
    have g2: "geom_ok w2" using geom_frame [OF w1(4) rs(2)] by simp
    have p2: "block_pool w2 = block_pool w" using block_pool_frame [OF rs(2)] block_pool_frame [OF w1(2)] by simp
    have idx: "\<forall>c \<in> set (words16 0 256 b). c \<noteq> 0 \<longrightarrow> unat c \<in> block_pool w2"
    proof (intro ballI impI)
      fix c
      assume c: "c \<in> set (words16 0 256 b)" "c \<noteq> 0"
      then have "unat c \<in> bnum ?d ino ` {10..<266}" using unat_set_index [OF False, of ?d] b by blast
      then have "unat c \<in> owned ?d ino" using c by (auto simp: owned_def unat_eq_zero)
      then show "unat c \<in> block_pool w2" using assms(3) p2 by blast
    qed
    obtain w3 where w3: "free_each (words16 0 256 b) w2 = Some w3" "frame {10} w2 w3" "con w3 = con w2" "geom_ok w3"
      "block_used w3 = block_used w2 - bnum ?d ino ` {10..<266}"
      using free_each_spec [OF g2 idx] unat_set_index [OF False, of ?d] b by metis
    have "?ib \<in> block_pool w3" using ip p2 block_pool_frame [OF w3(2)] by simp
    then obtain w4 where w4: "free_block ?ib w3 = Some w4" "frame {10} w3 w4" "con w4 = con w3"
      "length (disk w4 10) = 512" "block_used w4 = block_used w3 - {?ib}"
      using free_block_spec [OF w3(4)] by blast
    have "frame {10} w w4"
      using frame_trans [OF frame_trans [OF w1(2) rs(2)] frame_trans [OF w3(2) w4(2)]] by simp
    moreover have "geom_ok w4" using geom_frame [OF w3(4) w4(2)] w4(4) by simp
    moreover have "block_used w4 = block_used w - owned ?d ino"
    proof -
      have "bnum ?d ino ` {..<266} = bnum ?d ino ` {..<10} \<union> bnum ?d ino ` {10..<266}"
        unfolding image_Un [symmetric] by (rule arg_cong [of _ _ "image (bnum ?d ino)"]) auto
      then show ?thesis
        using w1(5) w3(5) w4(5) block_used_frame [OF rs(2)] z by (auto simp: owned_def)
    qed
    ultimately show ?thesis using w1(1,3) r rs(4) w3(1,3) w4(1,3) False by (simp add: free_file_blocks_def)
  qed
qed

section \<open>Filling\<close>

definition ind_ok :: "'a fsworld_scheme \<Rightarrow> nr_inode \<Rightarrow> bool" where
  "ind_ok w ino \<longleftrightarrow> indirect_block ino = 0 \<or>
     unat (indirect_block ino) \<in> block_pool w \<inter> block_used w"

definition chunk_at :: "bytes \<Rightarrow> nat \<Rightarrow> bytes" where
  "chunk_at text off = get off (min 512 (length text - off)) text"

definition padded :: "bytes \<Rightarrow> bytes" where
  "padded ch = put 0 ch (replicate 512 0)"

lemma length_chunk_at: "length (chunk_at text off) = min 512 (length text - off)"
  by (simp add: chunk_at_def get_def)

lemma length_padded [simp]: "length ch \<le> 512 \<Longrightarrow> length (padded ch) = 512"
  by (simp add: padded_def)

lemma length_padded_chunk [simp]: "length (padded (chunk_at text off)) = 512"
  by (simp add: length_chunk_at)

lemma take_padded: "take (length ch) (padded ch) = ch"
  by (simp add: padded_def put_def)

text \<open>Allocating a block and writing data to it.\<close>

lemma alloc_write:
  assumes "geom_ok w" and "\<not> block_pool w \<subseteq> block_used w" and "length b = 512"
  shows "\<exists>u w1. allocate_free_block w = (u, w1) \<and> u \<noteq> 0 \<and> u < 2 ^ 28 \<and> unat (of_nat u :: u16) = u \<and>
    (of_nat u :: u16) \<noteq> 0 \<and>
    u \<in> block_pool w \<and> u \<notin> block_used w \<and> u \<noteq> 10 \<and>
    frame {10, u} w (write_sector u b w1) \<and> con (write_sector u b w1) = con w \<and>
    geom_ok (write_sector u b w1) \<and> disk (write_sector u b w1) u = b \<and>
    block_used (write_sector u b w1) = insert u (block_used w)"
proof -
  obtain u w1 where a: "allocate_free_block w = (u, w1)" "u \<in> block_pool w" "u \<notin> block_used w" "frame {10} w w1"
    "con w1 = con w" "length (disk w1 10) = 512" "block_used w1 = insert u (block_used w)"
    using allocate_cases [OF assms(1)] assms(2) by blast
  have u: "11 \<le> u" "u < 4096" "u < 2 ^ 28" using block_pool_small [OF assms(1) a(2)] by auto
  let ?w2 = "write_sector u b w1"
  have f2: "frame {u} w1 ?w2" by (rule write_sector_frame [OF u(3)])
  have d: "disk ?w2 = (disk w1)(u := b)" using u(3) by simp
  have g1: "geom_ok w1" using geom_frame [OF assms(1) a(4)] a(6) by simp
  have "geom_ok ?w2" using geom_frame [OF g1 f2] assms(3) d by simp
  moreover have "frame {10, u} w ?w2" using frame_trans [OF a(4) f2] by (simp add: insert_commute)
  moreover have "block_used ?w2 = insert u (block_used w)"
    using block_used_frame [OF f2] u a(7) by simp
  moreover have n: "unat (of_nat u :: u16) = u" using u(2) by (simp add: unat_of_nat)
  moreover have "(of_nat u :: u16) \<noteq> 0" using n u(1) by (metis not_numeral_le_zero unat_0)
  ultimately show ?thesis using a u d by (intro exI [of _ u] exI [of _ w1]) auto
qed

text \<open>Entering block number \<open>lba\<close> in the index block.\<close>

lemma index_block_spec:
  assumes "geom_ok w" and "ind_ok w ino" and "indirect_block ino \<noteq> 0" and "10 \<le> k" and "k < 266"
    and "unat (of_nat lba :: u16) = lba"
  shows "frame {unat (indirect_block ino)} w (index_block k lba ino w) \<and> con (index_block k lba ino w) = con w \<and>
    geom_ok (index_block k lba ino w) \<and> block_used (index_block k lba ino w) = block_used w \<and>
    (\<forall>j<266. bnum (disk (index_block k lba ino w)) ino j = (if j = k then lba else bnum (disk w) ino j))"
proof -
  let ?ib = "unat (indirect_block ino)"
  obtain b w1 where r: "read_sector ?ib w = (b, w1)" by (cases "read_sector ?ib w")
  note rs = read_sectorE [OF r u16_lt_28]
  let ?b = "put (2 * (k - 10)) (le16 (of_nat lba)) b"
  let ?w2 = "write_sector ?ib ?b w1"
  have ix: "index_block k lba ino w = ?w2" using r by (simp add: index_block_def)
  have len: "length b = 512" using assms(1) rs(1) by (simp add: geom_ok_def disk_wf_def)
  then have len2: "length ?b = 512" using assms(5) by simp
  have f2: "frame {?ib} w1 ?w2" by (rule write_sector_frame [OF u16_lt_28])
  have d: "disk ?w2 = (disk w)(?ib := ?b)" using rs(3) u16_lt_28 by simp
  have f: "frame {?ib} w ?w2" using frame_trans [OF rs(2) f2] by simp
  have g: "geom_ok ?w2" using geom_frame [OF assms(1) f] d len2 by simp
  have "?ib \<noteq> 10" using assms(2,3) block_pool_small [OF assms(1), of ?ib] by (auto simp: ind_ok_def)
  then have u: "block_used ?w2 = block_used w" using block_used_frame [OF f] by simp
  have "bnum (disk ?w2) ino j = (if j = k then lba else bnum (disk w) ino j)" if "j < 266" for j
  proof (cases "j < 10")
    case True
    then show ?thesis using assms(4) by (simp add: bnum_def)
  next
    case False
    have "words16 0 256 ?b = (words16 0 256 b)[k - 10 := of_nat lba]"
      using words16_put [OF len, of "k - 10"] assms(4,5) by simp
    then show ?thesis using False that assms(3-6) d rs(1) by (auto simp: bnum_def nth_list_update)
  qed
  then show ?thesis using ix f g u rs(4) by simp
qed

text \<open>
  One round of the writing loop, when the disk has room: the block map gains exactly the entry for
  \<open>k\<close>, the block holds the chunk, and only the bitmap, that block and the index block changed.
\<close>

definition wrote :: "nr_inode \<Rightarrow> 'a fsworld_scheme \<Rightarrow> nr_inode \<Rightarrow> 'a fsworld_scheme \<Rightarrow> nat set \<Rightarrow> bool" where
  "wrote ino w ino' w' K \<longleftrightarrow>
     ino' = ino\<lparr>direct_blocks := direct_blocks ino', indirect_block := indirect_block ino'\<rparr> \<and>
     inode_wf ino' \<and> geom_ok w' \<and> ind_ok w' ino' \<and> con w' = con w \<and>
     (indirect_block ino' = indirect_block ino \<or>
      indirect_block ino = 0 \<and> unat (indirect_block ino') \<in> block_pool w - block_used w) \<and>
     (\<forall>j<266. j \<notin> K \<longrightarrow> bnum (disk w') ino' j = bnum (disk w) ino j) \<and>
     (\<forall>j \<in> K. bnum (disk w') ino' j \<in> block_pool w - block_used w) \<and>
     inj_on (bnum (disk w') ino') K \<and> unat (indirect_block ino') \<notin> bnum (disk w') ino' ` K \<and>
     block_used w' = block_used w \<union> bnum (disk w') ino' ` K \<union> ({unat (indirect_block ino')} - {0}) \<and>
     frame ({10} \<union> ({unat (indirect_block ino')} - {0}) \<union> bnum (disk w') ino' ` K) w w'"

lemma zero_not_used [simp]: "0 \<notin> block_used w"
  by (simp add: block_used_def bits_used_def)

lemma write_step_direct:
  assumes "geom_ok w" and "inode_wf ino" and "ind_ok w ino" and "k < 10"
    and "\<not> block_pool w \<subseteq> block_used w"
  shows "\<exists>ino' w'. (\<forall>ks. write_blocks text (k # ks) ino n w =
        write_blocks text ks ino' (n + min 512 (length text - n)) w') \<and>
      wrote ino w ino' w' {k} \<and> indirect_block ino' = indirect_block ino \<and>
      disk w' (bnum (disk w') ino' k) = padded (chunk_at text n)"
proof -
  obtain u w1 where a: "allocate_free_block w = (u, w1)" "u \<noteq> 0" "u < 2 ^ 28" "unat (of_nat u :: u16) = u"
    "u \<in> block_pool w" "u \<notin> block_used w" "u \<noteq> 10"
    and w2: "frame {10, u} w (write_sector u (padded (chunk_at text n)) w1)"
      "con (write_sector u (padded (chunk_at text n)) w1) = con w"
      "geom_ok (write_sector u (padded (chunk_at text n)) w1)"
      "disk (write_sector u (padded (chunk_at text n)) w1) u = padded (chunk_at text n)"
      "block_used (write_sector u (padded (chunk_at text n)) w1) = insert u (block_used w)"
    using alloc_write [OF assms(1,5), of "padded (chunk_at text n)"] by auto
  define w' where "w' = write_sector u (padded (chunk_at text n)) w1"
  let ?ino = "ino\<lparr>direct_blocks := (direct_blocks ino)[k := of_nat u]\<rparr>"
  note w2 = w2 [folded w'_def]
  have step: "write_blocks text (k # ks) ino n w = write_blocks text ks ?ino (n + min 512 (length text - n)) w'" for ks
    using a(1,2) assms(4) by (simp add: w'_def padded_def chunk_at_def Let_def)
  have ind: "indirect_block ino \<noteq> 0 \<Longrightarrow> unat (indirect_block ino) \<notin> {10, u}"
    using assms(3) a(6) block_pool_small [OF assms(1), of "unat (indirect_block ino)"] by (auto simp: ind_ok_def)
  have bk: "bnum (disk w') ?ino k = u" using assms(2,4) a(4) by (simp add: bnum_def inode_wf_def)
  have bo: "bnum (disk w') ?ino j = bnum (disk w) ino j" if "j \<noteq> k" for j
    using that ind frame_disk [OF w2(1)] by (auto simp: bnum_def)
  have "ind_ok w' ?ino" using assms(3) w2(5) block_pool_frame [OF w2(1)] by (auto simp: ind_ok_def)
  moreover have "block_used w' = block_used w \<union> {u} \<union> ({unat (indirect_block ino)} - {0})"
  proof (cases "indirect_block ino = 0")
    case True
    then show ?thesis using w2(5) by simp
  next
    case False
    then have "{unat (indirect_block ino)} \<subseteq> block_used w" using assms(3) by (simp add: ind_ok_def)
    then show ?thesis using w2(5) by blast
  qed
  moreover have "unat (indirect_block ino) \<noteq> u" using ind a(2) by (cases "indirect_block ino = 0") auto
  moreover have "frame ({10} \<union> ({unat (indirect_block ino)} - {0}) \<union> {u}) w w'"
    by (rule frame_mono [OF w2(1)]) auto
  ultimately have "wrote ino w ?ino w' {k}"
    using bk bo a w2 assms(2) by (simp add: wrote_def inode_wf_def insert_commute)
  then show ?thesis using step bk w2(4) by (intro exI [of _ ?ino] exI [of _ w']) simp
qed

lemma write_step_indexed:
  assumes "geom_ok w" and "inode_wf ino" and "ind_ok w ino" and "10 \<le> k" and "k < 266"
    and "indirect_block ino \<noteq> 0" and "\<not> block_pool w \<subseteq> block_used w"
  shows "\<exists>ino' w'. (\<forall>ks. write_blocks text (k # ks) ino n w =
        write_blocks text ks ino' (n + min 512 (length text - n)) w') \<and>
      wrote ino w ino' w' {k} \<and> indirect_block ino' \<noteq> 0 \<and>
      disk w' (bnum (disk w') ino' k) = padded (chunk_at text n)"
proof -
  obtain u w1 where a: "allocate_free_block w = (u, w1)" "u \<noteq> 0" "u < 2 ^ 28" "unat (of_nat u :: u16) = u"
    "u \<in> block_pool w" "u \<notin> block_used w" "u \<noteq> 10"
    and w2: "frame {10, u} w (write_sector u (padded (chunk_at text n)) w1)"
      "con (write_sector u (padded (chunk_at text n)) w1) = con w"
      "geom_ok (write_sector u (padded (chunk_at text n)) w1)"
      "disk (write_sector u (padded (chunk_at text n)) w1) u = padded (chunk_at text n)"
      "block_used (write_sector u (padded (chunk_at text n)) w1) = insert u (block_used w)"
    using alloc_write [OF assms(1,7), of "padded (chunk_at text n)"] by auto
  define w2 where "w2 = write_sector u (padded (chunk_at text n)) w1"
  note w2 = w2 [folded w2_def]
  define w' where "w' = index_block k u ino w2"
  let ?ib = "unat (indirect_block ino)"
  have ib: "?ib \<in> block_pool w" "?ib \<in> block_used w" using assms(3,6) by (auto simp: ind_ok_def)
  then have ne: "?ib \<noteq> u" "?ib \<noteq> 10" using a(6) block_pool_small [OF assms(1)] by fastforce+
  have ok2: "ind_ok w2 ino" using ib w2(5) block_pool_frame [OF w2(1)] by (simp add: ind_ok_def)
  have ix: "frame {?ib} w2 w'" "con w' = con w2" "geom_ok w'" "block_used w' = block_used w2"
    "\<forall>j<266. bnum (disk w') ino j = (if j = k then u else bnum (disk w2) ino j)"
    using index_block_spec [OF w2(3) ok2 assms(6,4,5) a(4)] by (auto simp: w'_def)
  have step: "write_blocks text (k # ks) ino n w = write_blocks text ks ino (n + min 512 (length text - n)) w'" for ks
    using a(1,2) assms(4,6) by (simp add: w'_def w2_def padded_def chunk_at_def Let_def)
  have old: "bnum (disk w2) ino = bnum (disk w) ino"
    by (rule bnum_cong) (use frame_disk [OF w2(1)] ne in auto)
  have f: "frame ({10} \<union> ({?ib} - {0}) \<union> {u}) w w'"
    by (rule frame_mono [OF frame_trans [OF w2(1) ix(1)]]) (use assms(6) in \<open>auto simp: unat_eq_zero\<close>)
  have "disk w' u = padded (chunk_at text n)" using frame_disk [OF ix(1)] ne w2(4) by simp
  moreover have "ind_ok w' ino" using ib w2(5) ix(4) block_pool_frame [OF f] by (simp add: ind_ok_def)
  moreover have "block_used w' = block_used w \<union> {u} \<union> ({?ib} - {0})" using w2(5) ix(4) ib by auto
  ultimately have "wrote ino w ino w' {k}" "disk w' (bnum (disk w') ino k) = padded (chunk_at text n)"
    using ix old a w2(2) f ne assms(2,5) by (simp_all add: wrote_def insert_commute)
  then show ?thesis using step assms(6) by blast
qed

lemma write_step_index_new:
  assumes "geom_ok w" and "inode_wf ino" and "10 \<le> k" and "k < 266" and "indirect_block ino = 0"
    and "2 \<le> card (block_pool w - block_used w)"
  shows "\<exists>ino' w'. (\<forall>ks. write_blocks text (k # ks) ino n w =
        write_blocks text ks ino' (n + min 512 (length text - n)) w') \<and>
      wrote ino w ino' w' {k} \<and> indirect_block ino' \<noteq> 0 \<and>
      disk w' (bnum (disk w') ino' k) = padded (chunk_at text n)"
proof -
  have room: "\<not> block_pool w \<subseteq> block_used w"
  proof
    assume "block_pool w \<subseteq> block_used w"
    then have "block_pool w - block_used w = {}" by blast
    then show False using assms(6) by (metis card.empty not_numeral_le_zero)
  qed
  obtain u w1 where a: "allocate_free_block w = (u, w1)" "u \<noteq> 0" "u < 2 ^ 28" "unat (of_nat u :: u16) = u"
    "u \<in> block_pool w" "u \<notin> block_used w" "u \<noteq> 10"
    and w2: "frame {10, u} w (write_sector u (padded (chunk_at text n)) w1)"
      "con (write_sector u (padded (chunk_at text n)) w1) = con w"
      "geom_ok (write_sector u (padded (chunk_at text n)) w1)"
      "disk (write_sector u (padded (chunk_at text n)) w1) u = padded (chunk_at text n)"
      "block_used (write_sector u (padded (chunk_at text n)) w1) = insert u (block_used w)"
    using alloc_write [OF assms(1) room, of "padded (chunk_at text n)"] by auto
  define w2 where "w2 = write_sector u (padded (chunk_at text n)) w1"
  note w2 = w2 [folded w2_def]
  have room2: "\<not> block_pool w2 \<subseteq> block_used w2"
  proof
    assume "block_pool w2 \<subseteq> block_used w2"
    then have "block_pool w - block_used w \<subseteq> {u}" using w2(5) block_pool_frame [OF w2(1)] by auto
    then have "card (block_pool w - block_used w) \<le> 1" using card_mono [of "{u}"] by simp
    then show False using assms(6) by simp
  qed
  obtain v w3 where b: "allocate_free_block w2 = (v, w3)" "v \<noteq> 0" "v < 2 ^ 28" "unat (of_nat v :: u16) = v"
      "(of_nat v :: u16) \<noteq> 0" "v \<in> block_pool w2" "v \<notin> block_used w2" "v \<noteq> 10"
    and w4: "frame {10, v} w2 (write_sector v (replicate 512 0) w3)" "con (write_sector v (replicate 512 0) w3) = con w2"
      "geom_ok (write_sector v (replicate 512 0) w3)"
      "disk (write_sector v (replicate 512 0) w3) v = replicate 512 0"
      "block_used (write_sector v (replicate 512 0) w3) = insert v (block_used w2)"
    using alloc_write [OF w2(3) room2, of "replicate 512 0"] by auto
  define w4 where "w4 = write_sector v (replicate 512 0) w3"
  note w4 = w4 [folded w4_def]
  let ?ino = "ino\<lparr>indirect_block := of_nat v\<rparr>"
  define w' where "w' = index_block k u ?ino w4"
  have ok4: "ind_ok w4 ?ino" using b w4(5) block_pool_frame [OF w4(1)] by (simp add: ind_ok_def)
  have ix: "frame {v} w4 w'" "con w' = con w4" "geom_ok w'" "block_used w' = block_used w4"
    "\<forall>j<266. bnum (disk w') ?ino j = (if j = k then u else bnum (disk w4) ?ino j)"
    using index_block_spec [OF w4(3) ok4 _ assms(3,4) a(4)] b(4,5) by (auto simp: w'_def)
  have step: "write_blocks text (k # ks) ino n w = write_blocks text ks ?ino (n + min 512 (length text - n)) w'" for ks
    using a(1,2) b(1,2) assms(3,5) unfolding w'_def w4_def w2_def
    by (simp add: padded_def chunk_at_def Let_def w2_def [unfolded padded_def chunk_at_def, symmetric])
  have ne: "v \<noteq> u" using b(7) w2(5) by auto
  have zero: "words16 0 256 (replicate 512 0) ! i = 0" if "i < 256" for i
    using that by (simp add: words16_def rd16_def)
  have old: "bnum (disk w4) ?ino j = bnum (disk w) ino j" if "j < 266" for j
    using that w4(4) b(4,5) assms(5) zero [of "j - 10"] by (auto simp: bnum_def)
  have p: "v \<in> block_pool w" "v \<notin> block_used w"
    using b(6,7) block_pool_frame [OF w2(1)] w2(5) by auto
  have f: "frame ({10} \<union> ({v} - {0}) \<union> {u}) w w'"
    using frame_trans [OF frame_trans [OF w2(1) w4(1)] ix(1)] by (rule frame_mono) (use b(2) in auto)
  have "disk w' u = padded (chunk_at text n)"
    using frame_disk [OF ix(1)] frame_disk [OF w4(1)] ne a(7) w2(4) by simp
  moreover have "ind_ok w' ?ino" using p b(4) w4(5) ix(4) block_pool_frame [OF f] by (simp add: ind_ok_def)
  moreover have "block_used w' = block_used w \<union> {u} \<union> ({v} - {0})" using w2(5) w4(5) ix(4) b(2) by auto
  moreover have "con w' = con w" using ix(2) w4(2) w2(2) by simp
  ultimately have "wrote ino w ?ino w' {k}" "disk w' (bnum (disk w') ?ino k) = padded (chunk_at text n)"
    using ix(3,5) old a f ne p b(4,5) assms(2,4,5) by (simp_all add: wrote_def insert_commute inode_wf_def)
  moreover have "indirect_block ?ino \<noteq> 0" using b(5) by simp
  ultimately show ?thesis using step by blast
qed

lemma wrote_trans:
  assumes "wrote ino w ino1 w1 K" and "wrote ino1 w1 ino2 w2 L" and "K \<inter> L = {}" and "K \<subseteq> {..<266}"
  shows "wrote ino w ino2 w2 (K \<union> L) \<and>
    (\<forall>j \<in> K. bnum (disk w2) ino2 j = bnum (disk w1) ino1 j \<and>
       disk w2 (bnum (disk w2) ino2 j) = disk w1 (bnum (disk w1) ino1 j))"
proof -
  let ?b1 = "bnum (disk w1) ino1" and ?b2 = "bnum (disk w2) ino2"
  let ?i1 = "unat (indirect_block ino1)" and ?i2 = "unat (indirect_block ino2)"
  have K: "?b2 j = ?b1 j" if "j \<in> K" for j using assms that by (auto simp: wrote_def)
  then have K': "?b2 ` K = ?b1 ` K" by (rule image_cong [OF refl])
  have f1: "frame ({10} \<union> ({?i1} - {0}) \<union> ?b1 ` K) w w1" and f2: "frame ({10} \<union> ({?i2} - {0}) \<union> ?b2 ` L) w1 w2"
    using assms by (simp_all add: wrote_def)
  have pool: "block_pool w1 = block_pool w" by (rule block_pool_frame [OF f1])
  have u1: "block_used w1 = block_used w \<union> ?b1 ` K \<union> ({?i1} - {0})"
    and u2: "block_used w2 = block_used w1 \<union> ?b2 ` L \<union> ({?i2} - {0})" using assms by (simp_all add: wrote_def)
  have ind1: "indirect_block ino1 = indirect_block ino \<or>
      indirect_block ino = 0 \<and> ?i1 \<in> block_pool w - block_used w"
    and ind2: "indirect_block ino2 = indirect_block ino1 \<or>
      indirect_block ino1 = 0 \<and> ?i2 \<in> block_pool w1 - block_used w1"
    using assms(1,2) by (simp_all add: wrote_def)
  have L: "?b2 ` L \<subseteq> block_pool w - block_used w1" using assms(2) pool by (auto simp: wrote_def)
  have bK: "?b1 ` K \<subseteq> block_pool w - block_used w" using assms(1) by (auto simp: wrote_def)
  have i2K: "?i2 \<notin> ?b1 ` K"
    using ind2
  proof
    assume "indirect_block ino2 = indirect_block ino1"
    then show ?thesis using assms(1) by (simp add: wrote_def)
  next
    assume "indirect_block ino1 = 0 \<and> ?i2 \<in> block_pool w1 - block_used w1"
    then show ?thesis using u1 by blast
  qed
  have i12: "{?i1} - {0} \<subseteq> {?i2} - {0}" using ind2 by auto
  have c1: "indirect_block ino2 = indirect_block ino \<or>
      indirect_block ino = 0 \<and> ?i2 \<in> block_pool w - block_used w"
    using ind1 ind2 u1 pool by auto
  have c2: "\<forall>j<266. j \<notin> K \<union> L \<longrightarrow> ?b2 j = bnum (disk w) ino j" using assms(1,2) by (simp add: wrote_def)
  have c3: "\<forall>j \<in> K \<union> L. ?b2 j \<in> block_pool w - block_used w" using L bK K u1 by fastforce
  have c4: "inj_on ?b2 (K \<union> L)"
  proof -
    have i1: "inj_on ?b1 K" and i2: "inj_on ?b2 L" using assms(1,2) by (simp_all add: wrote_def)
    have "?b2 ` K \<inter> ?b2 ` L = {}" unfolding K' using L u1 by blast
    then have "?b2 ` (K - L) \<inter> ?b2 ` (L - K) = {}" by blast
    moreover have "inj_on ?b2 K" using i1 K by (simp add: inj_on_def)
    ultimately show ?thesis using i2 by (simp only: inj_on_Un)
  qed
  have c5: "?i2 \<notin> ?b2 ` (K \<union> L)" using i2K K' assms(2) by (simp add: wrote_def image_Un)
  have c6: "block_used w2 = block_used w \<union> ?b2 ` (K \<union> L) \<union> ({?i2} - {0})"
    unfolding u2 u1 image_Un K' using i12 by blast
  have c7: "frame ({10} \<union> ({?i2} - {0}) \<union> ?b2 ` (K \<union> L)) w w2"
    by (rule frame_mono [OF frame_trans [OF f1 f2]]) (use i12 K' in auto)
  have c8: "disk w2 (?b2 j) = disk w1 (?b1 j)" if "j \<in> K" for j
  proof -
    have m: "?b1 j \<in> ?b1 ` K" using that by blast
    then have "?b1 j \<in> block_pool w" "?b1 j \<notin> ?b2 ` L" "?b1 j \<noteq> ?i2" using bK L u1 i2K by auto
    moreover have "?b1 j \<noteq> 10" using bK m by (auto simp: block_pool_def)
    ultimately show ?thesis using frame_disk [OF f2, of "?b1 j"] K [OF that] by simp
  qed
  have e1: "ino1 = ino\<lparr>direct_blocks := direct_blocks ino1, indirect_block := indirect_block ino1\<rparr>"
    and e2: "ino2 = ino1\<lparr>direct_blocks := direct_blocks ino2, indirect_block := indirect_block ino2\<rparr>"
    and r: "inode_wf ino2" "geom_ok w2" "ind_ok w2 ino2" "con w2 = con w"
    using assms(1,2) by (simp_all add: wrote_def)
  have "ino2 = ino\<lparr>direct_blocks := direct_blocks ino2, indirect_block := indirect_block ino2\<rparr>"
    using e1 e2 by (cases ino; cases ino1; cases ino2) simp
  then have "wrote ino w ino2 w2 (K \<union> L)" unfolding wrote_def using r c1 c2 c3 c4 c5 c6 c7 by (intro conjI)
  then show ?thesis using K c8 by blast
qed

lemma wrote_refl: "geom_ok w \<Longrightarrow> inode_wf ino \<Longrightarrow> ind_ok w ino \<Longrightarrow> wrote ino w ino w {}"
  by (auto simp: wrote_def ind_ok_def)

definition new_index :: "nr_inode \<Rightarrow> nat \<Rightarrow> nat" where
  "new_index ino n = (if n > 10 \<and> indirect_block ino = 0 then 1 else 0)"

lemma write_step:
  assumes "geom_ok w" and "inode_wf ino" and "ind_ok w ino" and "k < 266"
    and "1 + new_index ino (Suc k) \<le> card (block_pool w - block_used w)"
  shows "\<exists>ino' w'. (\<forall>ks. write_blocks text (k # ks) ino n w =
        write_blocks text ks ino' (n + min 512 (length text - n)) w') \<and>
      wrote ino w ino' w' {k} \<and> (if k < 10 then indirect_block ino' = indirect_block ino else indirect_block ino' \<noteq> 0) \<and>
      disk w' (bnum (disk w') ino' k) = padded (chunk_at text n)"
proof -
  have room: "\<not> block_pool w \<subseteq> block_used w"
  proof
    assume "block_pool w \<subseteq> block_used w"
    then have "block_pool w - block_used w = {}" by blast
    then have "card (block_pool w - block_used w) = 0" by (metis card.empty)
    then show False using assms(5) by simp
  qed
  show ?thesis
  proof (cases "k < 10")
    case True
    then show ?thesis using write_step_direct [OF assms(1-3) _ room, of k "text" n] by simp
  next
    case False
    then show ?thesis
      using write_step_indexed [OF assms(1-3) _ assms(4) _ room, of "text" n] assms(5)
        write_step_index_new [OF assms(1,2) _ assms(4), of "text" n]
      by (cases "indirect_block ino = 0") (simp_all add: new_index_def)
  qed
qed

lemma wrote_room:
  assumes "wrote ino w ino' w' {k}" and "(if k < 10 then indirect_block ino' = indirect_block ino else indirect_block ino' \<noteq> 0)"
    and "ind_ok w ino" and "Suc k \<le> n" and "n - k + new_index ino n \<le> card (block_pool w - block_used w)"
  shows "n - Suc k + new_index ino' n \<le> card (block_pool w' - block_used w')"
proof -
  let ?b = "bnum (disk w') ino' k" and ?i = "unat (indirect_block ino')"
  let ?F = "block_pool w - block_used w"
  have "frame ({10} \<union> ({?i} - {0}) \<union> {?b}) w w'" using assms(1) by (simp add: wrote_def)
  then have pool: "block_pool w' = block_pool w" by (rule block_pool_frame)
  have fin: "finite ?F" by (simp add: block_pool_def)
  have used: "block_used w' = block_used w \<union> {?b} \<union> ({?i} - {0})" using assms(1) by (simp add: wrote_def)
  have z: "0 \<notin> ?F" by (simp add: block_pool_def)
  show ?thesis
  proof (cases "indirect_block ino' = indirect_block ino")
    case True
    have "block_pool w' - block_used w' \<supseteq> ?F - {?b}"
      using used pool True assms(3) by (auto simp: ind_ok_def)
    then have "card (?F - {?b}) \<le> card (block_pool w' - block_used w')"
      using fin by (intro card_mono) (auto simp: block_pool_def)
    moreover have "card ?F - 1 \<le> card (?F - {?b})" using fin by (simp add: card_Diff_singleton_if)
    moreover have "new_index ino' n = new_index ino n" using True by (simp add: new_index_def)
    ultimately show ?thesis using assms(4,5) by linarith
  next
    case False
    then have k: "\<not> k < 10" "indirect_block ino = 0" "?i \<noteq> 0"
      using assms(1,2) by (auto simp: wrote_def unat_eq_zero split: if_splits)
    have "block_pool w' - block_used w' = ?F - {?b} - {?i}" using used pool z by auto
    then have "card ?F - 2 \<le> card (block_pool w' - block_used w')"
      using fin by (simp add: card_Diff_singleton_if, intro conjI impI) linarith+
    moreover have "new_index ino n = 1" "new_index ino' n = 0"
      using k assms(4) by (simp_all add: new_index_def unat_eq_zero)
    ultimately show ?thesis using assms(4,5) by linarith
  qed
qed

lemma write_blocks_spec:
  assumes "geom_ok w" and "inode_wf ino" and "ind_ok w ino" and "k \<le> n" and "n \<le> 266"
    and "n - k + new_index ino n \<le> card (block_pool w - block_used w)"
  shows "\<exists>ino' w'. write_blocks text [k..<n] ino (min (length text) (512 * k)) w =
        (ino', min (length text) (512 * n), w') \<and> wrote ino w ino' w' {k..<n} \<and>
      (\<forall>j \<in> {k..<n}. disk w' (bnum (disk w') ino' j) = padded (chunk_at text (min (length text) (512 * j))))"
  using assms
proof (induction "n - k" arbitrary: k ino w)
  case 0
  then show ?case using wrote_refl by auto
next
  case (Suc m)
  then have kn: "k < n" by simp
  let ?n = "min (length text) (512 * k)"
  have "new_index ino (Suc k) \<le> new_index ino n" using kn by (simp add: new_index_def)
  then have room: "1 + new_index ino (Suc k) \<le> card (block_pool w - block_used w)" using Suc.prems(6) kn by linarith
  obtain ino1 w1 where s: "\<forall>ks. write_blocks text (k # ks) ino ?n w =
        write_blocks text ks ino1 (?n + min 512 (length text - ?n)) w1" "wrote ino w ino1 w1 {k}"
      "if k < 10 then indirect_block ino1 = indirect_block ino else indirect_block ino1 \<noteq> 0"
      "disk w1 (bnum (disk w1) ino1 k) = padded (chunk_at text ?n)"
    using write_step [OF Suc.prems(1-3) _ room, of "text" ?n] kn Suc.prems(5) by auto
  have nx: "?n + min 512 (length text - ?n) = min (length text) (512 * Suc k)" by auto
  have p1: "geom_ok w1" "inode_wf ino1" "ind_ok w1 ino1" using s(2) by (simp_all add: wrote_def)
  have "m = n - Suc k" using Suc.hyps(2) by simp
  then obtain ino' w' where r: "write_blocks text [Suc k..<n] ino1 (min (length text) (512 * Suc k)) w1 =
        (ino', min (length text) (512 * n), w')" "wrote ino1 w1 ino' w' {Suc k..<n}"
      "\<forall>j \<in> {Suc k..<n}. disk w' (bnum (disk w') ino' j) = padded (chunk_at text (min (length text) (512 * j)))"
    using Suc.hyps(1) [OF _ p1 _ Suc.prems(5) wrote_room [OF s(2,3) Suc.prems(3) _ Suc.prems(6)]] kn by auto
  have set: "{k..<n} = {k} \<union> {Suc k..<n}" using kn by auto
  have t: "wrote ino w ino' w' {k..<n}" "disk w' (bnum (disk w') ino' k) = disk w1 (bnum (disk w1) ino1 k)"
    using wrote_trans [OF s(2) r(2)] kn Suc.prems(5) unfolding set by auto
  have "write_blocks text [k..<n] ino ?n w = (ino', min (length text) (512 * n), w')"
    using s(1) r(1) kn nx by (simp add: upt_conv_Cons)
  moreover have "\<forall>j \<in> {k..<n}. disk w' (bnum (disk w') ino' j) = padded (chunk_at text (min (length text) (512 * j)))"
    unfolding set using t(2) s(4) r(3) by simp
  ultimately show ?case using t(1) by blast
qed

section \<open>Reading\<close>

lemma block_of_spec:
  assumes "k < 266"
  shows "\<exists>w'. block_of ino k w = Some (bnum (disk w) ino k, w') \<and> frame {} w w' \<and> con w' = con w"
proof (cases "k < 10 \<or> indirect_block ino = 0")
  case True
  then show ?thesis by (auto simp: block_of_def bnum_def)
next
  case False
  obtain b w1 where r: "read_sector (unat (indirect_block ino)) w = (b, w1)"
    by (cases "read_sector (unat (indirect_block ino)) w")
  note rs = read_sectorE [OF r u16_lt_28]
  then show ?thesis using False r assms by (auto simp: block_of_def bnum_def)
qed

lemma fold_kputc: "fold kputc cs w = con_update (fold print_char cs) w"
  by (induction cs arbitrary: w) simp_all

lemma sint_of_nat_small: "n < 2 ^ 31 \<Longrightarrow> sint (of_nat n :: u32) = int n"
  by (simp add: signed_of_nat signed_take_bit_int_eq_self)

text \<open>
  Reading \<open>n\<close> blocks of a file of \<open>sz\<close> bytes, for a loop body that works on an accumulator and on the
  terminal.
\<close>

lemma read_blocks_spec:
  assumes "\<And>off ch c v. body off ch (c, v) = (g off ch c, con_update (h off ch) v)"
    and "ino_size ino = of_nat sz" and "sz \<le> 512 * n" and "512 * n < sz + 512" and "n \<le> 266" and "k \<le> n"
    and "\<forall>j<n. bnum (disk w) ino j \<noteq> 0" and "\<forall>s. length (disk w s) = 512"
  shows "\<exists>w'. read_blocks body ino [k..<n] (of_nat (512 * k)) (c, w) =
      Some (fold (\<lambda>j. g (512 * j) (take (min 512 (sz - 512 * j)) (disk w (bnum (disk w) ino j)))) [k..<n] c, w') \<and>
    frame {} w w' \<and>
    con w' = fold (\<lambda>j. h (512 * j) (take (min 512 (sz - 512 * j)) (disk w (bnum (disk w) ino j)))) [k..<n] (con w)"
  using assms(6-8)
proof (induction "n - k" arbitrary: k c w)
  case 0
  then show ?case by simp
next
  case (Suc m)
  then have kn: "k < n" by simp
  let ?b = "bnum (disk w) ino k"
  have bk: "?b \<noteq> 0" using Suc.prems(2) kn by blast
  obtain w1 where w1: "block_of ino k w = Some (?b, w1)" "frame {} w w1" "con w1 = con w"
    using block_of_spec [of k ino w] kn assms(5) by auto
  have d1: "disk w1 = disk w" by (rule frame_quiet [OF w1(2)])
  obtain buf w2 where r: "read_sector ?b w1 = (buf, w2)" by (cases "read_sector ?b w1")
  note rs = read_sectorE [OF r bnum_lt_28]
  let ?ch = "min 512 (sz - 512 * k)"
  have le: "512 * k < sz" using kn assms(4) by linarith
  have "sint (ino_size ino - of_nat (512 * k)) = int (sz - 512 * k)"
  proof -
    have "ino_size ino - of_nat (512 * k) = (of_nat (sz - 512 * k) :: u32)" using le assms(2) by (simp add: of_nat_diff)
    moreover have "sz - 512 * k < 2 ^ 31" using assms(3,5) by simp
    ultimately show ?thesis using sint_of_nat_small by metis
  qed
  then have cs: "min 512 (sint (ino_size ino - of_nat (512 * k))) = int ?ch" by simp
  have un: "unat (of_nat (512 * k) :: u32) = 512 * k"
    unfolding unat_of_nat using kn assms(5) by simp
  let ?t = "take ?ch (disk w ?b)"
  let ?w3 = "con_update (h (512 * k) ?t) w2"
  have step: "read_blocks body ino [k..<n] (of_nat (512 * k)) (c, w) =
      read_blocks body ino [Suc k..<n] (of_nat (512 * k) + of_nat ?ch) (g (512 * k) ?t c, ?w3)"
    using kn w1(1) bk r cs un rs(1) d1 assms(1) by (simp add: upt_conv_Cons)
  have d3: "disk ?w3 = disk w" using rs(3) d1 by simp
  show ?case
  proof (cases "Suc k = n")
    case True
    have "frame {} w ?w3"
      using frame_print_after [OF frame_trans [OF w1(2) rs(2)]] by simp
    then show ?thesis using step True kn w1(3) rs(4) by (simp add: upt_conv_Cons)
  next
    case False
    then have "512 * k + 512 \<le> sz" using kn assms(4) by linarith
    then have "?ch = 512" by simp
    then have nx: "of_nat (512 * k) + of_nat ?ch = (of_nat (512 * Suc k) :: u32)" by simp
    have "m = n - Suc k" using Suc.hyps(2) by simp
    then obtain w' where w': "read_blocks body ino [Suc k..<n] (of_nat (512 * Suc k)) (g (512 * k) ?t c, ?w3) =
        Some (fold (\<lambda>j. g (512 * j) (take (min 512 (sz - 512 * j)) (disk w (bnum (disk w) ino j)))) [Suc k..<n]
          (g (512 * k) ?t c), w')" "frame {} ?w3 w'"
      "con w' = fold (\<lambda>j. h (512 * j) (take (min 512 (sz - 512 * j)) (disk w (bnum (disk w) ino j)))) [Suc k..<n]
          (con ?w3)"
      using Suc.hyps(1) [of "Suc k" ?w3 "g (512 * k) ?t c"] kn Suc.prems(2,3) d3 by auto
    have "frame {} w w'"
      using frame_trans [OF frame_print_after [OF frame_trans [OF w1(2) rs(2)]] w'(2)] by simp
    moreover have "con ?w3 = h (512 * k) ?t (con w)" using w1(3) rs(4) by simp
    moreover note step [unfolded nx w'(1)]
    ultimately show ?thesis using w'(3) by (intro exI [of _ w']) (simp only: simp_thms fold_upt_Cons [OF kn])
  qed
qed

end
