(* ===== verification/RexfsSpec.thy ===== *)
theory RexfsSpec
  imports RexfsFiles
begin

text \<open>
  The invariant of a mounted file system, that the operations keep it, and what they do: formatting
  and mounting, creating and removing entries, writing a file and reading it back.
\<close>

section \<open>The invariant\<close>

text \<open>
  \<open>rooted d x\<close>: the directory number \<open>x\<close> is the root or a used directory whose parent is rooted, so
  that walking up from it ends at the root.
\<close>

inductive rooted :: "(nat \<Rightarrow> bytes) \<Rightarrow> u16 \<Rightarrow> bool" for d where
  root: "rooted d 0"
| sub: "k < 64 \<Longrightarrow> ino_id (slot d k) = of_nat (k + 1) \<Longrightarrow> ino_type (slot d k) = 2 \<Longrightarrow>
    rooted d (parent_id (slot d k)) \<Longrightarrow> rooted d (of_nat (k + 1))"

definition slot_ok :: "(nat \<Rightarrow> bytes) \<Rightarrow> nat \<Rightarrow> bool" where
  "slot_ok d k \<longleftrightarrow> (ino_id (slot d k) \<noteq> 0 \<longrightarrow>
     ino_id (slot d k) = of_nat (k + 1) \<and> ino_type (slot d k) \<in> {1, 2} \<and>
     0 \<in> set (ino_name (slot d k)) \<and> unat (ino_size (slot d k)) \<le> 136192 \<and> rooted d (parent_id (slot d k)))"

definition is_file :: "(nat \<Rightarrow> bytes) \<Rightarrow> nat \<Rightarrow> bool" where
  "is_file d k \<longleftrightarrow> ino_id (slot d k) \<noteq> 0 \<and> ino_type (slot d k) = 1"

definition blocks_ok :: "'a fsworld_scheme \<Rightarrow> bool" where
  "blocks_ok w \<longleftrightarrow>
     (\<forall>k<64. is_file (disk w) k \<longrightarrow>
        owned (disk w) (slot (disk w) k) \<subseteq> block_pool w \<inter> block_used w \<and> sep (disk w) (slot (disk w) k)) \<and>
     (\<forall>k<64. \<forall>l<64. k \<noteq> l \<longrightarrow> is_file (disk w) k \<longrightarrow> is_file (disk w) l \<longrightarrow>
        owned (disk w) (slot (disk w) k) \<inter> owned (disk w) (slot (disk w) l) = {})"

definition fs_inv :: "'a fsworld_scheme \<Rightarrow> bool" where
  "fs_inv w \<longleftrightarrow> geom_ok w \<and> (\<forall>k<64. slot_ok (disk w) k) \<and> blocks_ok w \<and> rooted (disk w) (current_dir_id w)"

section \<open>Changing one slot\<close>

definition store_slot :: "nat \<Rightarrow> nr_inode \<Rightarrow> (nat \<Rightarrow> bytes) \<Rightarrow> nat \<Rightarrow> bytes" where
  "store_slot k ino d = d(2 + k div 8 := inode_store (d (2 + k div 8)) (k mod 8) ino)"

lemma disk_wf_store [simp]: "disk_wf d \<Longrightarrow> inode_wf ino \<Longrightarrow> disk_wf (store_slot k ino d)"
  by (simp add: disk_wf_def store_slot_def)

lemma slot_store:
  assumes "disk_wf d" and "inode_wf ino"
  shows "slot (store_slot k ino d) j = (if j = k then ino else slot d j)"
proof (cases "j div 8 = k div 8")
  case True
  then show ?thesis using assms inode_ptr_store [of ino "k mod 8" "j mod 8" "d (2 + k div 8)"] div_mod_8_eq [of j k]
    by (auto simp: slot_def store_slot_def disk_wf_def)
next
  case False
  then show ?thesis by (auto simp: slot_def store_slot_def)
qed

lemma store_slot_high [simp]: "10 \<le> s \<Longrightarrow> k < 64 \<Longrightarrow> store_slot k ino d s = d s"
  by (auto simp: store_slot_def)

lemma store_slot_one [simp]: "store_slot k ino d 1 = d 1"
  by (auto simp: store_slot_def)

lemma slot_name_field:
  "disk_wf d \<Longrightarrow> 0 \<in> set (ino_name (slot d k)) \<Longrightarrow> slot_name d k = cstr (ino_name (slot d k))"
  by (simp add: slot_def slot_name_def disk_wf_def inode_name_field)

lemma update_inode_spec:
  assumes "geom_ok w" and "k < 64" and "inode_wf (f (slot (disk w) k))"
  shows "\<exists>w'. update_inode (2 + k div 8) (k mod 8) f w = w' \<and> disk w' = store_slot k (f (slot (disk w) k)) (disk w) \<and>
    frame {2 + k div 8} w w' \<and> con w' = con w \<and> geom_ok w' \<and> block_used w' = block_used w"
proof -
  let ?s = "2 + k div 8"
  obtain b w1 where r: "read_sector ?s w = (b, w1)" by (cases "read_sector ?s w")
  have s: "?s < 2 ^ 28" "?s \<noteq> 10" "?s < 10" using assms(2) by auto
  note rs = read_sectorE [OF r s(1)]
  let ?b = "inode_store b (k mod 8) (f (inode_ptr b (k mod 8)))"
  let ?w2 = "write_sector ?s ?b w1"
  have d: "disk ?w2 = store_slot k (f (slot (disk w) k)) (disk w)"
    using s(1) rs(1,3) by (simp add: store_slot_def slot_def)
  have f: "frame {?s} w ?w2" using frame_trans [OF rs(2) write_sector_frame [OF s(1)]] by simp
  have "length (disk ?w2 ?s) = 512" using d assms disk_wf_store [of "disk w"] by (simp add: geom_ok_def disk_wf_def)
  then have "geom_ok ?w2" using geom_frame [OF assms(1) f] by simp
  moreover have "block_used ?w2 = block_used w" using block_used_frame [OF f] s(2) by simp
  ultimately show ?thesis using r d f rs(4) by (simp add: update_inode_def)
qed

lemma rooted_mono:
  assumes "rooted d x"
    and "\<And>k. k < 64 \<Longrightarrow> ino_id (slot d k) = of_nat (k + 1) \<Longrightarrow> ino_type (slot d k) = 2 \<Longrightarrow> slot d' k = slot d k"
  shows "rooted d' x"
  using assms(1)
proof induction
  case root
  show ?case by (rule rooted.root)
next
  case (sub k)
  have "slot d' k = slot d k" using assms(2) sub by blast
  then show ?case using sub rooted.sub [of k d'] by simp
qed

lemma slot_id_nonzero: "k < 64 \<Longrightarrow> (of_nat (k + 1) :: u32) \<noteq> 0"
proof
  assume "k < 64" and "(of_nat (k + 1) :: u32) = 0"
  then have "unat (of_nat (k + 1) :: u32) = 0" by simp
  then show False using \<open>k < 64\<close> unfolding unat_of_nat by simp
qed

lemma owned_ge: "fs_inv w \<Longrightarrow> k < 64 \<Longrightarrow> is_file (disk w) k \<Longrightarrow> b \<in> owned (disk w) (slot (disk w) k) \<Longrightarrow>
    b \<in> block_pool w \<and> b \<in> block_used w \<and> 11 \<le> b"
  unfolding fs_inv_def blocks_ok_def block_pool_def by fastforce

lemma owned_disjoint:
  "fs_inv w \<Longrightarrow> k < 64 \<Longrightarrow> l < 64 \<Longrightarrow> k \<noteq> l \<Longrightarrow> is_file (disk w) k \<Longrightarrow> is_file (disk w) l \<Longrightarrow>
   owned (disk w) (slot (disk w) k) \<inter> owned (disk w) (slot (disk w) l) = {}"
  by (simp add: fs_inv_def blocks_ok_def)

text \<open>
  The common core of the preservation proofs: the new disk agrees with the old one in every slot but
  \<open>k\<close> and in every block owned by another file.
\<close>

lemma blocks_ok_change:
  assumes "fs_inv w" and "k < 64" and "block_pool w' = block_pool w"
    and "\<And>j. j < 64 \<Longrightarrow> j \<noteq> k \<Longrightarrow> slot (disk w') j = slot (disk w) j"
    and "\<And>j b. j < 64 \<Longrightarrow> j \<noteq> k \<Longrightarrow> is_file (disk w) j \<Longrightarrow> b \<in> owned (disk w) (slot (disk w) j) \<Longrightarrow>
      disk w' b = disk w b \<and> b \<in> block_used w'"
    and "is_file (disk w') k \<Longrightarrow> owned (disk w') (slot (disk w') k) \<subseteq> block_pool w \<inter> block_used w' \<and>
      sep (disk w') (slot (disk w') k) \<and>
      (\<forall>j<64. j \<noteq> k \<longrightarrow> is_file (disk w) j \<longrightarrow>
         owned (disk w') (slot (disk w') k) \<inter> owned (disk w) (slot (disk w) j) = {})"
  shows "blocks_ok w'"
proof -
  have isf: "is_file (disk w') j = is_file (disk w) j" if "j < 64" "j \<noteq> k" for j
    using assms(4) that by (simp add: is_file_def)
  have own: "owned (disk w') (slot (disk w') j) = owned (disk w) (slot (disk w) j)"
    "sep (disk w') (slot (disk w') j) = sep (disk w) (slot (disk w) j)"
    if "j < 64" "j \<noteq> k" "is_file (disk w) j" for j
    using owned_cong [of "slot (disk w') j" "slot (disk w) j" "disk w" "disk w'"] assms(4,5) that by auto
  have old: "owned (disk w) (slot (disk w) j) \<subseteq> block_pool w \<and> sep (disk w) (slot (disk w) j)"
    if "j < 64" "is_file (disk w) j" for j using assms(1) that by (auto simp: fs_inv_def blocks_ok_def)
  have disj: "owned (disk w) (slot (disk w) i) \<inter> owned (disk w) (slot (disk w) j) = {}"
    if "i < 64" "j < 64" "i \<noteq> j" "is_file (disk w) i" "is_file (disk w) j" for i j
    using assms(1) that by (auto simp: fs_inv_def blocks_ok_def)
  have "owned (disk w') (slot (disk w') j) \<subseteq> block_pool w' \<inter> block_used w' \<and> sep (disk w') (slot (disk w') j)"
    if j: "j < 64" "is_file (disk w') j" for j
  proof (cases "j = k")
    case True
    then show ?thesis using assms(3,6) j by simp
  next
    case False
    then show ?thesis using own [OF j(1) False] old [OF j(1)] isf [OF j(1) False] j assms(3,5) by auto
  qed
  moreover have "owned (disk w') (slot (disk w') i) \<inter> owned (disk w') (slot (disk w') j) = {}"
    if ij: "i < 64" "j < 64" "i \<noteq> j" "is_file (disk w') i" "is_file (disk w') j" for i j
  proof (cases "i = k \<or> j = k")
    case True
    then show ?thesis using assms(6) own isf ij by (metis (no_types, lifting) Int_commute)
  next
    case False
    then show ?thesis using disj own isf ij by auto
  qed
  ultimately show ?thesis by (simp add: blocks_ok_def)
qed

section \<open>Creating entries\<close>

lemma inode_wf_new [simp]: "inode_wf (new_inode s i ty dir name)"
  by (simp add: inode_wf_def new_inode_def)

lemma new_inode_empty:
  "owned d (new_inode s i ty dir name) = {}" "sep d (new_inode s i ty dir name)"
  by (auto simp: owned_def sep_def bnum_def new_inode_def)

lemma new_inode_name:
  "ino_name (new_inode s i ty dir name) = take 27 (cstr name) @ 0 # replicate (27 - length (take 27 (cstr name))) 0"
  by (simp add: new_inode_def put_def min_def)

lemma cstr_new_inode: "cstr (ino_name (new_inode s i ty dir name)) = take 27 (cstr name)"
  unfolding new_inode_name
  by (rule cstr_append_zero) (use cstr_no_zero [of name] in \<open>auto dest: in_set_takeD\<close>)

lemma new_inode_id: "k < 64 \<Longrightarrow> ino_id (new_inode (2 + k div 8) (k mod 8) ty dir name) = of_nat (k + 1)"
proof -
  have "(2 + k div 8 - 2) * 8 + k mod 8 + 1 = k + 1" by simp
  then show ?thesis unfolding new_inode_def by (simp only: nr_inode.simps)
qed

lemma fs_inv_store_new:
  assumes "fs_inv w" and "k < 64" and "ino_id (slot (disk w) k) = 0" and "ty \<in> {1, 2}"
    and "disk w' = store_slot k (new_inode (2 + k div 8) (k mod 8) ty (current_dir_id w) name) (disk w)"
    and "active_sb w' = active_sb w" and "current_dir_id w' = current_dir_id w"
  shows "fs_inv w'"
proof -
  let ?ino = "new_inode (2 + k div 8) (k mod 8) ty (current_dir_id w) name"
  have wf: "disk_wf (disk w)" using assms(1) by (simp add: fs_inv_def geom_ok_def)
  have sl: "slot (disk w') j = (if j = k then ?ino else slot (disk w) j)" for j
    using slot_store [OF wf] assms(5) by simp
  have root: "rooted (disk w') x" if "rooted (disk w) x" for x
    using that sl slot_id_nonzero assms(3) by (intro rooted_mono [OF that]) auto
  have used: "block_used w' = block_used w" using assms(2,5) by (simp add: block_used_def)
  have pool: "block_pool w' = block_pool w" using assms(6) by (simp add: block_pool_def)
  have "geom_ok w'" using assms(1,5,6) wf by (simp add: fs_inv_def geom_ok_def)
  moreover have "slot_ok (disk w') j" if "j < 64" for j
  proof (cases "j = k")
    case True
    have "0 \<in> set (ino_name ?ino)" by (simp add: new_inode_name)
    moreover have "rooted (disk w') (current_dir_id w)" using root assms(1) by (simp add: fs_inv_def)
    ultimately show ?thesis using True sl new_inode_id [OF assms(2)] assms(4)
      by (simp add: slot_ok_def) (simp add: new_inode_def)
  next
    case False
    have "slot_ok (disk w) j" using assms(1) that by (simp add: fs_inv_def)
    then show ?thesis using False sl root by (simp add: slot_ok_def)
  qed
  moreover have "blocks_ok w'"
  proof (rule blocks_ok_change [OF assms(1,2) pool])
    show "disk w' b = disk w b \<and> b \<in> block_used w'"
      if "j < 64" "j \<noteq> k" "is_file (disk w) j" "b \<in> owned (disk w) (slot (disk w) j)" for j b
      using owned_ge [OF assms(1) that(1,3,4)] assms(2,5) used by simp
  qed (use sl new_inode_empty in auto)
  moreover have "rooted (disk w') (current_dir_id w')" using root assms(1,7) by (simp add: fs_inv_def)
  ultimately show ?thesis by (simp add: fs_inv_def)
qed

lemma create_cases:
  assumes "fs_mounted w" and "char_at name 0 \<noteq> 0" and "fs_inv w"
  shows "case find_slot (entry_named (current_dir_id w) name) (disk w) of
      Some _ \<Rightarrow> frame {} w (rexfs_create ty us dm name w)
    | None \<Rightarrow>
        (case find_slot (\<lambda>ino nm. ino_id ino = 0) (disk w) of
           None \<Rightarrow> frame {} w (rexfs_create ty us dm name w)
         | Some k \<Rightarrow> frame {2 + k div 8} w (rexfs_create ty us dm name w) \<and>
             disk (rexfs_create ty us dm name w) =
               store_slot k (new_inode (2 + k div 8) (k mod 8) ty (current_dir_id w) name) (disk w))"
proof -
  obtain w1 where s1: "scan_inodes (entry_named (current_dir_id w) name) w =
      (map_option (\<lambda>k. (2 + k div 8, k mod 8, disk w (2 + k div 8)))
         (find_slot (entry_named (current_dir_id w) name) (disk w)), w1)" "frame {} w w1"
    using scan_inodes_spec by blast
  have d1: "disk w1 = disk w" by (rule frame_quiet [OF s1(2)])
  obtain w2 where s2: "scan_inodes (\<lambda>ino nm. ino_id ino = 0) w1 =
      (map_option (\<lambda>k. (2 + k div 8, k mod 8, disk w (2 + k div 8)))
         (find_slot (\<lambda>ino nm. ino_id ino = 0) (disk w)), w2)" "frame {} w1 w2"
    using scan_inodes_spec [of "\<lambda>ino nm. ino_id ino = 0" w1] d1 by auto
  have f2: "frame {} w w2" using frame_trans [OF s1(2) s2(2)] by simp
  show ?thesis
  proof (cases "find_slot (entry_named (current_dir_id w) name) (disk w)")
    case (Some j)
    then show ?thesis using s1 assms(1,2) frame_print_after by (simp add: rexfs_create_def)
  next
    case none: None
    show ?thesis
    proof (cases "find_slot (\<lambda>ino nm. ino_id ino = 0) (disk w)")
      case None
      then show ?thesis using none s1(1) s2(1) f2 assms(1,2) frame_print_after by (simp add: rexfs_create_def)
    next
      case (Some k)
      then have k: "k < 64" using find_slot_Some by blast
      then have s: "2 + k div 8 < 2 ^ 28" by simp
      let ?buf = "inode_store (disk w (2 + k div 8)) (k mod 8) (new_inode (2 + k div 8) (k mod 8) ty (current_dir_id w) name)"
      let ?w3 = "write_sector (2 + k div 8) ?buf w2"
      have "rexfs_create ty us dm name w = okmsg dm ?w3"
        using none Some s1(1) s2(1) assms(1,2) by (simp add: rexfs_create_def)
      moreover have "frame {2 + k div 8} w ?w3"
        using frame_trans [OF f2 write_sector_frame [OF s]] by simp
      moreover have "disk ?w3 = store_slot k (new_inode (2 + k div 8) (k mod 8) ty (current_dir_id w) name) (disk w)"
        using s frame_quiet [OF f2] by (simp add: store_slot_def)
      ultimately show ?thesis using none Some by (simp add: frame_print_after)
    qed
  qed
qed

lemma fs_inv_quiet: "fs_inv w \<Longrightarrow> frame {} w w' \<Longrightarrow> fs_inv w'"
  using frame_quiet [of w w']
  by (simp add: fs_inv_def geom_ok_def blocks_ok_def block_pool_def block_used_def frame_def)

section \<open>Writing, in every outcome\<close>

text \<open>
  What the writing loop keeps, whether or not it runs out of space: the map of the inode only gains
  blocks that were free, stays separated, and no other block in use is touched.
\<close>

definition kept :: "nr_inode \<Rightarrow> 'a fsworld_scheme \<Rightarrow> nr_inode \<Rightarrow> 'a fsworld_scheme \<Rightarrow> bool" where
  "kept ino w ino' w' \<longleftrightarrow>
     ino' = ino\<lparr>direct_blocks := direct_blocks ino', indirect_block := indirect_block ino'\<rparr> \<and>
     inode_wf ino' \<and> geom_ok w' \<and> frame {10..} w w' \<and> block_used w \<subseteq> block_used w' \<and>
     owned (disk w') ino' \<subseteq> block_pool w \<inter> block_used w' \<and>
     owned (disk w') ino' \<subseteq> owned (disk w) ino \<union> (block_pool w - block_used w) \<and>
     sep (disk w') ino' \<and> (\<forall>b \<in> block_used w - owned (disk w) ino. disk w' b = disk w b)"

lemma kept_fields:
  assumes "kept ino w ino' w'"
  shows "ino_id ino' = ino_id ino" "ino_type ino' = ino_type ino" "ino_name ino' = ino_name ino"
    "parent_id ino' = parent_id ino"
proof -
  have e: "ino' = ino\<lparr>direct_blocks := direct_blocks ino', indirect_block := indirect_block ino'\<rparr>"
    using assms by (simp add: kept_def)
  show "ino_id ino' = ino_id ino" using arg_cong [OF e, of ino_id] by simp
  show "ino_type ino' = ino_type ino" using arg_cong [OF e, of ino_type] by simp
  show "ino_name ino' = ino_name ino" using arg_cong [OF e, of ino_name] by simp
  show "parent_id ino' = parent_id ino" using arg_cong [OF e, of parent_id] by simp
qed

lemma kept_trans:
  assumes "kept ino w ino1 w1" and "kept ino1 w1 ino2 w2"
  shows "kept ino w ino2 w2"
proof -
  have pool: "block_pool w1 = block_pool w" using assms(1) block_pool_frame by (auto simp: kept_def)
  have "frame {10..} w w2" using frame_trans [of "{10..}" w w1 "{10..}" w2] assms by (simp add: kept_def)
  moreover have "owned (disk w2) ino2 \<subseteq> owned (disk w) ino \<union> (block_pool w - block_used w)"
    using assms pool by (auto simp: kept_def)
  moreover have "disk w2 b = disk w b" if "b \<in> block_used w - owned (disk w) ino" for b
  proof -
    have "b \<in> block_used w1" "b \<notin> owned (disk w1) ino1" using assms(1) that by (auto simp: kept_def)
    then show ?thesis using assms that by (simp add: kept_def)
  qed
  moreover have "ino2 = ino\<lparr>direct_blocks := direct_blocks ino2, indirect_block := indirect_block ino2\<rparr>"
  proof -
    have "ino1 = ino\<lparr>direct_blocks := direct_blocks ino1, indirect_block := indirect_block ino1\<rparr>"
      "ino2 = ino1\<lparr>direct_blocks := direct_blocks ino2, indirect_block := indirect_block ino2\<rparr>"
      using assms by (simp_all add: kept_def)
    then show ?thesis by (cases ino; cases ino1; cases ino2) simp
  qed
  ultimately show ?thesis using assms pool by (auto simp: kept_def)
qed

lemma kept_refl:
  "geom_ok w \<Longrightarrow> inode_wf ino \<Longrightarrow> owned (disk w) ino \<subseteq> block_pool w \<inter> block_used w \<Longrightarrow> sep (disk w) ino \<Longrightarrow>
   frame {} w w' \<Longrightarrow> kept ino w ino w'"
proof -
  assume a: "geom_ok w" "inode_wf ino" "owned (disk w) ino \<subseteq> block_pool w \<inter> block_used w" "sep (disk w) ino"
    "frame {} w w'"
  have "geom_ok w'" using geom_frame [OF a(1,5)] by simp
  moreover have "frame {10..} w w'" using frame_mono [OF a(5)] by simp
  ultimately show ?thesis using a frame_quiet [OF a(5)] block_used_frame [OF a(5)] by (auto simp: kept_def)
qed

lemma ind_ok_owned: "owned (disk w) ino \<subseteq> block_pool w \<inter> block_used w \<Longrightarrow> ind_ok w ino"
  by (auto simp: ind_ok_def owned_def unat_eq_zero)

lemma used_ge: "b \<in> block_used w \<Longrightarrow> 11 \<le> b"
  by (auto simp: block_used_def bits_used_def)

lemma wrote_kept:
  assumes "wrote ino w ino' w' {k}" and "geom_ok w" and "k < 266"
    and "owned (disk w) ino \<subseteq> block_pool w \<inter> block_used w" and "sep (disk w) ino"
  shows "kept ino w ino' w'"
proof -
  let ?b = "bnum (disk w) ino" and ?b' = "bnum (disk w') ino'"
  let ?i = "unat (indirect_block ino)" and ?i' = "unat (indirect_block ino')"
  have fr: "frame ({10} \<union> ({?i'} - {0}) \<union> {?b' k}) w w'" using assms(1) by (simp add: wrote_def)
  have pool: "block_pool w' = block_pool w" by (rule block_pool_frame [OF fr])
  have bk: "?b' k \<in> block_pool w" "?b' k \<notin> block_used w" "?b' k \<noteq> 0" "?i' \<noteq> ?b' k"
    using assms(1) by (auto simp: wrote_def block_pool_def)
  have bo: "?b' j = ?b j" if "j < 266" "j \<noteq> k" for j using assms(1) that by (simp add: wrote_def)
  have bu: "?b j = 0 \<or> ?b j \<in> block_used w" if "j < 266" for j
    using assms(4) bnum_owned [of j "disk w" ino] that by blast
  have ind: "?i' = ?i \<or> ?i' \<in> block_pool w - block_used w" using assms(1) by (auto simp: wrote_def)
  have iu: "?i = 0 \<or> ?i \<in> owned (disk w) ino" by (auto simp: owned_def)
  have used: "block_used w' = block_used w \<union> {?b' k} \<union> ({?i'} - {0})" using assms(1) by (simp add: wrote_def)
  have own: "owned (disk w') ino' \<subseteq> owned (disk w) ino \<union> ({?b' k} \<union> ({?i'} \<inter> (block_pool w - block_used w)))"
  proof
    fix x
    assume x: "x \<in> owned (disk w') ino'"
    then consider j where "j < 266" "x = ?b' j" "x \<noteq> 0" | "x = ?i'" "x \<noteq> 0" by (auto simp: owned_def)
    then show "x \<in> owned (disk w) ino \<union> ({?b' k} \<union> ({?i'} \<inter> (block_pool w - block_used w)))"
    proof cases
      case 1
      then show ?thesis using bo bnum_owned [of j "disk w" ino] by (cases "j = k") auto
    next
      case 2
      then show ?thesis using ind iu by auto
    qed
  qed
  have "sep (disk w') ino'"
    unfolding sep_def
  proof (intro conjI allI impI)
    fix i j :: nat
    assume ij: "i < 266" "j < 266" "i \<noteq> j" "?b' i = ?b' j"
    show "?b' i = 0"
    proof (cases "i = k \<or> j = k")
      case True
      then show ?thesis using ij bo bu bk by metis
    next
      case False
      then show ?thesis using ij bo assms(5) by (simp add: sep_def)
    qed
  next
    fix i :: nat
    assume i: "i < 266" "?b' i = ?i'"
    then have "i \<noteq> k" using bk(4) by auto
    then have bi: "?b i = ?i'" "?b' i = ?b i" using i bo by simp_all
    from ind show "?b' i = 0"
    proof
      assume "?i' = ?i"
      then show ?thesis using bi i(1) assms(5) by (simp add: sep_def)
    next
      assume "?i' \<in> block_pool w - block_used w"
      then show ?thesis using bi bu [OF i(1)] by auto
    qed
  qed
  moreover have "owned (disk w') ino' \<subseteq> block_pool w \<inter> block_used w'"
  proof
    fix x
    assume "x \<in> owned (disk w') ino'"
    then consider "x \<in> owned (disk w) ino" | "x = ?b' k" | "x = ?i'" "x \<in> block_pool w" using own by blast
    then show "x \<in> block_pool w \<inter> block_used w'"
      using assms(4) bk(1) used by cases (auto simp: block_pool_def)
  qed
  moreover have "owned (disk w') ino' \<subseteq> owned (disk w) ino \<union> (block_pool w - block_used w)"
    using own bk by blast
  moreover have "frame {10..} w w'"
    by (rule frame_mono [OF fr]) (use bk(1) ind iu assms(4) in \<open>auto simp: block_pool_def\<close>)
  moreover have "disk w' b = disk w b" if "b \<in> block_used w - owned (disk w) ino" for b
    using frame_disk [OF fr, of b] that bk(2) ind iu used_ge [of b w] by fastforce
  ultimately show ?thesis using assms(1) used by (auto simp: kept_def wrote_def)
qed

lemma write_blocks_kept:
  assumes "geom_ok w" and "inode_wf ino" and "\<forall>k \<in> set ks. k < 266"
    and "owned (disk w) ino \<subseteq> block_pool w \<inter> block_used w" and "sep (disk w) ino"
    and "write_blocks text ks ino n w = (ino', n', w')"
  shows "kept ino w ino' w'"
  using assms
proof (induction ks arbitrary: ino n w)
  case Nil
  then show ?case using kept_refl by auto
next
  case (Cons k ks)
  have k: "k < 266" using Cons.prems(3) by simp
  have ind: "ind_ok w ino" by (rule ind_ok_owned [OF Cons.prems(4)])
  have done_step: "kept ino w ino' w'"
    if s: "\<forall>ks. write_blocks text (k # ks) ino n w = write_blocks text ks ino1 n1 w1" and wr: "wrote ino w ino1 w1 {k}"
    for ino1 n1 w1
  proof -
    have kp: "kept ino w ino1 w1" by (rule wrote_kept [OF wr Cons.prems(1) k Cons.prems(4,5)])
    have "block_pool w1 = block_pool w" using kp block_pool_frame by (auto simp: kept_def)
    then have "kept ino1 w1 ino' w'"
      using Cons.IH [of w1 ino1 n1] kp Cons.prems(3,6) s by (simp add: kept_def)
    then show ?thesis by (rule kept_trans [OF kp])
  qed
  show ?case
  proof (cases "block_pool w \<subseteq> block_used w")
    case True
    then obtain w1 where a: "allocate_free_block w = (0, w1)" "frame {} w w1"
      using allocate_cases [OF Cons.prems(1)] by auto
    then have "ino' = ino" "w' = err ''Error: Out of disk space.'' w1" using Cons.prems(6) by simp_all
    then show ?thesis using kept_refl [OF Cons.prems(1,2,4,5) frame_print_after [OF a(2)]] by simp
  next
    case room: False
    consider "k < 10" | "10 \<le> k" "indirect_block ino \<noteq> 0" | "10 \<le> k" "indirect_block ino = 0" by linarith
    then show ?thesis
    proof cases
      case 1
      then show ?thesis using write_step_direct [OF Cons.prems(1,2) ind 1 room, of "text" n] done_step by blast
    next
      case 2
      then show ?thesis
        using write_step_indexed [OF Cons.prems(1,2) ind 2(1) k 2(2) room, of "text" n] done_step by blast
    next
      case 3
      show ?thesis
      proof (cases "2 \<le> card (block_pool w - block_used w)")
        case True
        then show ?thesis
          using write_step_index_new [OF Cons.prems(1,2) 3(1) k 3(2) True, of "text" n] done_step by blast
      next
        case False
        obtain u w1 where a: "allocate_free_block w = (u, w1)" "u \<noteq> 0" "u \<in> block_pool w" "u \<notin> block_used w"
          and w2: "frame {10, u} w (write_sector u (padded (chunk_at text n)) w1)"
            "geom_ok (write_sector u (padded (chunk_at text n)) w1)"
            "block_used (write_sector u (padded (chunk_at text n)) w1) = insert u (block_used w)"
          using alloc_write [OF Cons.prems(1) room, of "padded (chunk_at text n)"] by auto
        define w2 where "w2 = write_sector u (padded (chunk_at text n)) w1"
        note w2 = w2 [folded w2_def]
        have fin: "finite (block_pool w - block_used w)" by (simp add: block_pool_def)
        have "block_pool w - block_used w = {u}"
          using False a(3,4) fin card_le_Suc0_iff_eq [OF fin] by auto
        then have "block_pool w2 \<subseteq> block_used w2" using w2(3) block_pool_frame [OF w2(1)] by auto
        then obtain w3 where b: "allocate_free_block w2 = (0, w3)" "frame {} w2 w3"
          using allocate_cases [OF w2(2)] by auto
        have e: "ino' = ino" "w' = err ''Error: Out of disk space for indirect index.'' w3"
          using Cons.prems(6) a(1,2) b(1) 3 by (simp_all add: w2_def padded_def chunk_at_def Let_def)
        have f: "frame {10, u} w w'" using frame_trans [OF w2(1) b(2)] frame_print_after e(2) by simp
        have d: "disk w' b = disk w b" if "b \<in> block_used w" for b
          using frame_disk [OF f, of b] that a(4) used_ge [OF that] by auto
        have us: "block_used w' = insert u (block_used w)"
          using w2(3) block_used_frame [OF b(2)] e(2) by (simp add: block_used_def)
        have "geom_ok w'" using geom_frame [OF w2(2) frame_print_after [OF b(2)]] e(2) by simp
        moreover have "frame {10..} w w'" by (rule frame_mono [OF f]) (use a(3) in \<open>auto simp: block_pool_def\<close>)
        moreover have "owned (disk w') ino = owned (disk w) ino \<and> sep (disk w') ino = sep (disk w) ino"
          using owned_cong [of ino ino "disk w" "disk w'"] d Cons.prems(4) by auto
        ultimately show ?thesis using e(1) us d Cons.prems(2,4,5) by (auto simp: kept_def)
      qed
    qed
  qed
qed

section \<open>Replacing the contents of a file\<close>

definition cleared :: "nr_inode \<Rightarrow> nr_inode" where
  "cleared ino = ino\<lparr>direct_blocks := replicate 10 0, indirect_block := 0\<rparr>"

lemma cleared_simps [simp]:
  "inode_wf ino \<Longrightarrow> inode_wf (cleared ino)" "owned d (cleared ino) = {}" "sep d (cleared ino)"
  "ino_id (cleared ino) = ino_id ino" "ino_type (cleared ino) = ino_type ino"
  "ino_name (cleared ino) = ino_name ino" "parent_id (cleared ino) = parent_id ino"
  by (auto simp: cleared_def inode_wf_def owned_def sep_def bnum_def)

text \<open>Every slot but \<open>k\<close>, every block of another file and the mount state are as before.\<close>

definition others_kept :: "nat \<Rightarrow> 'a fsworld_scheme \<Rightarrow> 'a fsworld_scheme \<Rightarrow> bool" where
  "others_kept k w w' \<longleftrightarrow>
     (\<forall>j<64. j \<noteq> k \<longrightarrow> slot (disk w') j = slot (disk w) j) \<and>
     (\<forall>j<64. j \<noteq> k \<longrightarrow> is_file (disk w) j \<longrightarrow>
        (\<forall>b \<in> owned (disk w) (slot (disk w) j). disk w' b = disk w b)) \<and>
     fs_mounted w' = fs_mounted w \<and> active_sb w' = active_sb w \<and> current_dir_id w' = current_dir_id w \<and>
     kheap w' = kheap w \<and> disk w' 0 = disk w 0 \<and> disk w' 1 = disk w 1"

lemma fs_inv_replace:
  assumes "fs_inv w" and "k < 64" and "is_file (disk w) k"
    and "frame {10} w w2" and "geom_ok w2" and "block_used w2 = block_used w - owned (disk w) (slot (disk w) k)"
    and "kept (cleared (slot (disk w) k)) w2 ino' w3"
    and "disk w4 = store_slot k (ino'\<lparr>ino_size := sz\<rparr>) (disk w3)" and "frame {2 + k div 8} w3 w4"
    and "unat sz \<le> 136192"
  shows "fs_inv w4 \<and> others_kept k w w4"
proof -
  let ?d = "disk w"
  let ?new = "ino'\<lparr>ino_size := sz\<rparr>"
  have kp: "inode_wf ino'" "geom_ok w3" "frame {10..} w2 w3" "block_used w2 \<subseteq> block_used w3"
    "owned (disk w3) ino' \<subseteq> block_pool w2 \<inter> block_used w3" "owned (disk w3) ino' \<subseteq> block_pool w2 - block_used w2"
    "sep (disk w3) ino'" "\<forall>b \<in> block_used w2. disk w3 b = disk w2 b"
    "ino_id ino' = ino_id (slot ?d k)" "ino_type ino' = ino_type (slot ?d k)"
    "ino_name ino' = ino_name (slot ?d k)" "parent_id ino' = parent_id (slot ?d k)"
    using assms(7) kept_fields [OF assms(7)] by (auto simp: kept_def)
  have wf: "inode_wf ?new" using kp(1) by (simp add: inode_wf_def)
  have wf3: "disk_wf (disk w3)" using kp(2) by (simp add: geom_ok_def)
  have s3: "slot (disk w3) j = slot ?d j" if "j < 64" for j
    using that frame_disk [OF assms(4)] frame_disk [OF kp(3)] by (simp add: slot_def)
  have sl: "slot (disk w4) j = (if j = k then ?new else slot ?d j)" if "j < 64" for j
    using slot_store [OF wf3 wf] assms(8) s3 [OF that] by simp
  have hi: "disk w4 b = disk w3 b" if "10 \<le> b" for b using assms(2,8) that by simp
  have used: "block_used w4 = block_used w3" using hi by (simp add: block_used_def)
  have p2: "block_pool w2 = block_pool w" by (rule block_pool_frame [OF assms(4)])
  have p4: "block_pool w4 = block_pool w"
    using block_pool_frame [OF assms(9)] block_pool_frame [OF kp(3)] p2 by simp
  have own: "owned (disk w4) ?new = owned (disk w3) ino' \<and> sep (disk w4) ?new = sep (disk w3) ino'"
  proof -
    have "10 \<le> b" if "b \<in> owned (disk w3) ino'" for b using kp(5) that by (auto simp: block_pool_def)
    then show ?thesis using owned_cong [of ?new ino' "disk w3" "disk w4"] hi by simp
  qed
  have root: "rooted (disk w4) x" if "rooted ?d x" for x
    by (rule rooted_mono [OF that]) (use sl assms(3) in \<open>auto simp: is_file_def\<close>)
  have "geom_ok w4" using geom_frame [OF kp(2) assms(9)] assms(8) wf3 wf disk_wf_store [of "disk w3" ?new k]
    by (simp add: disk_wf_def)
  moreover have "slot_ok (disk w4) j" if "j < 64" for j
  proof -
    have "slot_ok ?d j" using assms(1) that by (simp add: fs_inv_def)
    then show ?thesis using sl [OF that] root kp assms(10) by (auto simp: slot_ok_def)
  qed
  moreover have bl: "disk w4 b = ?d b \<and> b \<in> block_used w4"
    if j: "j < 64" "j \<noteq> k" "is_file ?d j" and b: "b \<in> owned ?d (slot ?d j)" for j b
  proof -
    have "b \<notin> owned ?d (slot ?d k)" using owned_disjoint [OF assms(1,2) j(1) _ assms(3) j(3)] j(2) b by blast
    moreover have "b \<in> block_used w" "11 \<le> b" using owned_ge [OF assms(1) j(1,3) b] by auto
    ultimately show "disk w4 b = ?d b \<and> b \<in> block_used w4"
      using assms(6) kp(4,8) hi frame_disk [OF assms(4), of b] used by auto
  qed
  moreover have "blocks_ok w4"
  proof (rule blocks_ok_change [OF assms(1,2) p4])
    assume "is_file (disk w4) k"
    have "owned (disk w3) ino' \<inter> owned ?d (slot ?d j) = {}" if j: "j < 64" "j \<noteq> k" "is_file ?d j" for j
    proof -
      have "owned ?d (slot ?d j) \<subseteq> block_used w2"
        using assms(6) j(2) owned_ge [OF assms(1) j(1,3)] owned_disjoint [OF assms(1,2) j(1) _ assms(3) j(3)] by blast
      then show ?thesis using kp(6) by blast
    qed
    then show "owned (disk w4) (slot (disk w4) k) \<subseteq> block_pool w \<inter> block_used w4 \<and>
        sep (disk w4) (slot (disk w4) k) \<and>
        (\<forall>j<64. j \<noteq> k \<longrightarrow> is_file ?d j \<longrightarrow> owned (disk w4) (slot (disk w4) k) \<inter> owned ?d (slot ?d j) = {})"
      using own kp(5,7) used p2 sl [OF assms(2)] by simp
  qed (use sl bl in simp_all)
  moreover have st: "current_dir_id w4 = current_dir_id w" "fs_mounted w4 = fs_mounted w"
    "active_sb w4 = active_sb w" "kheap w4 = kheap w"
    using assms(4,9) kp(3) by (simp_all add: frame_def)
  moreover have "rooted (disk w4) (current_dir_id w4)" using root assms(1) st by (simp add: fs_inv_def)
  moreover have "disk w4 s = ?d s" if "s < 2" for s
    using that frame_disk [OF assms(4)] frame_disk [OF kp(3)] frame_disk [OF assms(9)] by simp
  ultimately show ?thesis using sl by (simp add: fs_inv_def others_kept_def)
qed

section \<open>The contents of a file\<close>

definition file_bytes :: "(nat \<Rightarrow> bytes) \<Rightarrow> nr_inode \<Rightarrow> bytes" where
  "file_bytes d ino =
     concat (map (\<lambda>j. take (min 512 (unat (ino_size ino) - 512 * j)) (d (bnum d ino j)))
       [0..<(unat (ino_size ino) + 511) div 512])"

text \<open>A file whose size fits the block map and whose blocks are all there.\<close>

definition complete :: "(nat \<Rightarrow> bytes) \<Rightarrow> nr_inode \<Rightarrow> bool" where
  "complete d ino \<longleftrightarrow> unat (ino_size ino) \<le> 136192 \<and>
     (\<forall>j<(unat (ino_size ino) + 511) div 512. bnum d ino j \<noteq> 0)"

lemma chunks_concat:
  "length text \<le> 512 * n \<Longrightarrow> concat (map (\<lambda>j. chunk_at text (512 * j)) [k..<n]) = drop (512 * k) text"
proof (induction "n - k" arbitrary: k)
  case 0
  then show ?case by simp
next
  case (Suc m)
  then have kn: "k < n" "m = n - Suc k" by simp_all
  have "chunk_at text (512 * k) @ drop (512 * Suc k) text = drop (512 * k) text"
  proof -
    have "take 512 (drop (512 * k) text) = chunk_at text (512 * k)"
      by (cases "512 \<le> length text - 512 * k") (simp_all add: chunk_at_def get_def min_def)
    moreover have "drop 512 (drop (512 * k) text) = drop (512 * Suc k) text" by (simp add: add.commute)
    ultimately show ?thesis by (metis append_take_drop_id)
  qed
  then show ?case using Suc.hyps(1) [OF kn(2) Suc.prems] kn(1) by (simp add: upt_conv_Cons)
qed

lemma file_bytes_written:
  assumes "ino_size ino = of_nat (length text)" and "length text \<le> 136192"
    and "\<forall>j<(length text + 511) div 512. d (bnum d ino j) = padded (chunk_at text (512 * j))"
  shows "file_bytes d ino = text"
proof -
  have sz: "unat (ino_size ino) = length text"
    unfolding assms(1) unat_of_nat using assms(2) by simp
  let ?n = "(length text + 511) div 512"
  have "take (min 512 (length text - 512 * j)) (d (bnum d ino j)) = chunk_at text (512 * j)" if "j < ?n" for j
    using assms(3) that take_padded [of "chunk_at text (512 * j)"] by (simp add: length_chunk_at)
  then have "file_bytes d ino = concat (map (\<lambda>j. chunk_at text (512 * j)) [0..<?n])"
    unfolding file_bytes_def sz by (intro arg_cong [of _ _ concat] map_cong) auto
  also have "\<dots> = text" using chunks_concat [of "text" ?n 0] by simp
  finally show ?thesis .
qed

lemma file_bytes_others:
  assumes "others_kept k w w'" and "j < 64" and "j \<noteq> k" and "is_file (disk w) j"
    and "unat (ino_size (slot (disk w) j)) \<le> 136192"
  shows "file_bytes (disk w') (slot (disk w') j) = file_bytes (disk w) (slot (disk w) j)"
proof -
  let ?ino = "slot (disk w) j"
  have s: "slot (disk w') j = ?ino" using assms by (simp add: others_kept_def)
  have b: "bnum (disk w') ?ino = bnum (disk w) ?ino"
    using owned_cong [of ?ino ?ino "disk w" "disk w'"] assms by (simp add: others_kept_def)
  have "disk w' (bnum (disk w) ?ino i) = disk w (bnum (disk w) ?ino i)"
    if "i < (unat (ino_size ?ino) + 511) div 512" for i
  proof (cases "bnum (disk w) ?ino i = 0")
    case True
    then show ?thesis using assms(1) by (simp add: others_kept_def)
  next
    case False
    have "i < 266" using that assms(5) by simp
    then show ?thesis using bnum_owned [OF _ False] assms by (simp add: others_kept_def)
  qed
  then show ?thesis unfolding file_bytes_def s b by (intro arg_cong [of _ _ concat] map_cong) auto
qed

lemma read_blocks_total:
  assumes "\<And>off ch c v. body off ch (c, v) = (g off ch c, con_update (h off ch) v)"
    and "\<forall>k \<in> set ks. k < 266"
  shows "\<exists>c' w'. read_blocks body ino ks n (c, w) = Some (c', w') \<and> frame {} w w'"
  using assms(2)
proof (induction ks arbitrary: n c w)
  case Nil
  then show ?case by simp
next
  case (Cons k ks)
  let ?b = "bnum (disk w) ino k"
  obtain w1 where w1: "block_of ino k w = Some (?b, w1)" "frame {} w w1"
    using block_of_spec [of k ino w] Cons.prems by auto
  show ?case
  proof (cases "?b = 0")
    case True
    then show ?thesis using w1 by simp
  next
    case False
    obtain buf w2 where r: "read_sector ?b w1 = (buf, w2)" by (cases "read_sector ?b w1")
    note rs = read_sectorE [OF r bnum_lt_28]
    let ?ch = "min 512 (sint (ino_size ino - n))"
    let ?w3 = "con_update (h (unat n) (take (nat ?ch) buf)) w2"
    obtain c' w' where w': "read_blocks body ino ks (n + of_int ?ch) (g (unat n) (take (nat ?ch) buf) c, ?w3) = Some (c', w')"
      "frame {} ?w3 w'"
      using Cons by fastforce
    have "frame {} w w'"
      using frame_trans [OF frame_print_after [OF frame_trans [OF w1(2) rs(2)]] w'(2)] by simp
    then show ?thesis using w1(1) False r w'(1) assms(1) by simp
  qed
qed

end
