(* ===== verification/RexfsOps.thy ===== *)
theory RexfsOps
  imports RexfsSpec
begin

text \<open>
  The commands of the file system: what each does on every branch, that a written file reads back,
  and that any sequence of commands runs without a fault and keeps the invariant.
\<close>

section \<open>Writing\<close>

definition blocks_needed :: "nat \<Rightarrow> nat" where
  "blocks_needed n = (n + 511) div 512 + (if (n + 511) div 512 > 10 then 1 else 0)"

lemma write_blocks_le:
  "write_blocks text ks ino n w = (ino', n', w') \<Longrightarrow> n \<le> length text \<Longrightarrow> n' \<le> length text"
proof (induction ks arbitrary: ino n w)
  case (Cons k ks)
  have "n + min 512 (length text - n) \<le> length text" using Cons.prems(2) by simp
  then show ?case using Cons.prems by (auto simp: Let_def split: prod.splits if_splits dest!: Cons.IH)
qed simp

lemma store_file_spec:
  assumes "fs_inv w" and "k < 64" and "is_file (disk w) k"
    and "frame {10} w w2" and "geom_ok w2" and "block_used w2 = block_used w - owned (disk w) (slot (disk w) k)"
    and "length text \<le> 136192"
  shows "\<exists>w'. store_file (2 + k div 8) (k mod 8) (cleared (slot (disk w) k)) text msg w2 = w' \<and>
    fs_inv w' \<and> others_kept k w w' \<and>
    ino_name (slot (disk w') k) = ino_name (slot (disk w) k) \<and> parent_id (slot (disk w') k) = parent_id (slot (disk w) k) \<and>
    is_file (disk w') k \<and>
    (blocks_needed (length text) \<le> card (block_pool w2 - block_used w2) \<longrightarrow>
       ino_size (slot (disk w') k) = of_nat (length text) \<and> complete (disk w') (slot (disk w') k) \<and>
       file_bytes (disk w') (slot (disk w') k) = text)"
proof -
  let ?ino0 = "cleared (slot (disk w) k)" and ?n = "(length text + 511) div 512"
  have wf: "inode_wf (slot (disk w) k)" using assms(1) by (simp add: fs_inv_def geom_ok_def)
  obtain ino' n' w3 where wb: "write_blocks text [0..<?n] ?ino0 0 w2 = (ino', n', w3)"
    by (cases "write_blocks text [0..<?n] ?ino0 0 w2")
  have kp: "kept ?ino0 w2 ino' w3"
    by (rule write_blocks_kept [OF assms(5) _ _ _ _ wb]) (use wf assms(7) in auto)
  have n': "n' \<le> length text" by (rule write_blocks_le [OF wb]) simp
  let ?new = "ino'\<lparr>ino_size := of_nat n'\<rparr>"
  have k3: "inode_wf ino'" "geom_ok w3" "frame {10..} w2 w3" "owned (disk w3) ino' \<subseteq> block_pool w2 \<inter> block_used w3"
    using kp by (auto simp: kept_def)
  have keep: "ino_id ino' = ino_id ?ino0" "ino_type ino' = ino_type ?ino0" "ino_name ino' = ino_name ?ino0"
      "parent_id ino' = parent_id ?ino0"
    using kept_fields [OF kp] by simp_all
  obtain w4 where w4: "update_inode (2 + k div 8) (k mod 8) (\<lambda>_. ?new) w3 = w4"
    "disk w4 = store_slot k ?new (disk w3)" "frame {2 + k div 8} w3 w4"
    using update_inode_spec [OF k3(2) assms(2), of "\<lambda>_. ?new"] k3(1) by (auto simp: inode_wf_def)
  let ?w' = "okmsg msg w4"
  have st: "store_file (2 + k div 8) (k mod 8) ?ino0 text msg w2 = ?w'"
    using wb w4(1) by (simp add: store_file_def)
  have sz: "unat (of_nat n' :: u32) \<le> 136192" unfolding unat_of_nat using n' assms(7) by simp
  have inv: "fs_inv ?w'" "others_kept k w ?w'"
    using fs_inv_replace [OF assms(1-6) kp _ _ sz, of ?w'] w4(2) frame_print_after [OF w4(3)] by auto
  have wf3: "disk_wf (disk w3)" using k3(2) by (simp add: geom_ok_def)
  have sl: "slot (disk ?w') k = ?new" using slot_store [OF wf3, of ?new] w4(2) k3(1) by (simp add: inode_wf_def)
  have hi: "disk ?w' b = disk w3 b" if "10 \<le> b" for b using w4(2) that assms(2) by simp
  have "10 \<le> b" if "b \<in> owned (disk w3) ino'" for b using k3(4) that by (auto simp: block_pool_def)
  then have bn: "bnum (disk ?w') ?new = bnum (disk w3) ino'"
    using owned_cong [of ?new ino' "disk w3" "disk ?w'"] hi by simp
  have "ino_size (slot (disk ?w') k) = of_nat (length text) \<and> complete (disk ?w') (slot (disk ?w') k) \<and>
      file_bytes (disk ?w') (slot (disk ?w') k) = text"
    if room: "blocks_needed (length text) \<le> card (block_pool w2 - block_used w2)"
  proof -
    have "?n \<le> 266" using assms(7) by simp
    moreover have "?n - 0 + new_index ?ino0 ?n \<le> card (block_pool w2 - block_used w2)"
      using room by (simp add: blocks_needed_def new_index_def cleared_def)
    moreover have "ind_ok w2 ?ino0" by (simp add: ind_ok_def cleared_def)
    moreover have "inode_wf ?ino0" using wf by simp
    ultimately obtain ino2 w5 where s: "write_blocks text [0..<?n] ?ino0 (min (length text) (512 * 0)) w2 =
        (ino2, min (length text) (512 * ?n), w5)" "wrote ?ino0 w2 ino2 w5 {0..<?n}"
      "\<forall>j \<in> {0..<?n}. disk w5 (bnum (disk w5) ino2 j) = padded (chunk_at text (min (length text) (512 * j)))"
      using write_blocks_spec [OF assms(5), of ?ino0 0 ?n "text"] by auto
    have eq: "ino2 = ino'" "w5 = w3" "n' = length text" using s(1) wb by auto
    have bj: "bnum (disk w3) ino' j \<in> block_pool w2" if "j < ?n" for j
      using s(2) that unfolding eq by (auto simp: wrote_def)
    have "disk ?w' (bnum (disk ?w') ?new j) = padded (chunk_at text (512 * j))" if "j < ?n" for j
    proof -
      have "10 \<le> bnum (disk w3) ino' j" using bj [OF that] by (simp add: block_pool_def)
      moreover have "min (length text) (512 * j) = 512 * j" using that by auto
      ultimately show ?thesis using s(3) that bn hi unfolding eq by simp
    qed
    then have "file_bytes (disk ?w') ?new = text"
      using eq(3) assms(7) by (intro file_bytes_written) auto
    moreover have "complete (disk ?w') ?new"
    proof -
      have "unat (ino_size ?new) = length text" using eq(3) assms(7) by (simp add: unat_of_nat)
      moreover have "bnum (disk w3) ino' j \<noteq> 0" if "j < ?n" for j using bj [OF that] by (auto simp: block_pool_def)
      ultimately show ?thesis using assms(7) bn by (simp add: complete_def)
    qed
    ultimately show ?thesis using sl eq(3) by simp
  qed
  then show ?thesis using st inv sl keep assms(3) by (auto simp: is_file_def)
qed

lemma scan_E:
  obtains w1 where "scan_inodes P w =
      (map_option (\<lambda>k. (2 + k div 8, k mod 8, disk w (2 + k div 8))) (find_slot P (disk w)), w1)"
    "frame {} w w1" "con w1 = con w" "disk w1 = disk w"
  using scan_inodes_spec [of P w] frame_quiet by blast

lemma typed_entry_file: "k < 64 \<Longrightarrow> typed_entry 1 dir name (slot d k) nm \<Longrightarrow> is_file d k"
  by (simp add: typed_entry_def is_file_def)

definition write_ok :: "nat \<Rightarrow> bytes \<Rightarrow> 'a fsworld_scheme \<Rightarrow> 'a fsworld_scheme \<Rightarrow> bool" where
  "write_ok k text w w' \<longleftrightarrow> fs_inv w' \<and> others_kept k w w' \<and> is_file (disk w') k \<and>
     ino_name (slot (disk w') k) = ino_name (slot (disk w) k) \<and>
     parent_id (slot (disk w') k) = parent_id (slot (disk w) k) \<and>
     (blocks_needed (length text) \<le> card (block_pool w - (block_used w - owned (disk w) (slot (disk w) k))) \<longrightarrow>
        ino_size (slot (disk w') k) = of_nat (length text) \<and> complete (disk w') (slot (disk w') k) \<and>
        file_bytes (disk w') (slot (disk w') k) = text)"

lemma rexfs_write_found:
  assumes "fs_inv w" and "fs_mounted w" and "char_at args 0 \<noteq> 0" and "split_args args = (name, rest)" and "rest \<noteq> []"
    and "length (dropWhile (\<lambda>c. c = 32) rest) \<le> 136192"
    and "find_slot (typed_entry 1 (current_dir_id w) name) (disk w) = Some k"
  shows "\<exists>w'. rexfs_write args w = Some w' \<and> write_ok k (dropWhile (\<lambda>c. c = 32) rest) w w'"
proof -
  let ?t = "dropWhile (\<lambda>c. c = 32) rest" and ?ino = "slot (disk w) k"
  have k: "k < 64" "is_file (disk w) k"
    using find_slot_Some [OF assms(7)] typed_entry_file by blast+
  obtain w1 where s: "scan_inodes (typed_entry 1 (current_dir_id w) name) w =
      (map_option (\<lambda>k. (2 + k div 8, k mod 8, disk w (2 + k div 8)))
        (find_slot (typed_entry 1 (current_dir_id w) name) (disk w)), w1)" "frame {} w w1" "disk w1 = disk w"
    using scan_E [of "typed_entry 1 (current_dir_id w) name" w] by blast
  have g: "geom_ok w" using assms(1) by (simp add: fs_inv_def)
  have g1: "geom_ok w1" using geom_frame [OF g s(2)] by simp
  have wf: "inode_wf ?ino" using g by (simp add: geom_ok_def)
  have own: "owned (disk w) ?ino \<subseteq> block_pool w1" using owned_ge [OF assms(1) k] block_pool_frame [OF s(2)] by blast
  obtain w2 where f: "free_file_blocks ?ino w1 = Some w2" "frame {10} w1 w2" "geom_ok w2"
      "block_used w2 = block_used w1 - owned (disk w) ?ino"
    using free_file_blocks_spec [OF g1 wf] own s(3) by auto
  have f2: "frame {10} w w2" using frame_trans [OF s(2) f(2)] by simp
  have u2: "block_used w2 = block_used w - owned (disk w) ?ino" using f(4) block_used_frame [OF s(2)] by simp
  have p2: "block_pool w2 = block_pool w" by (rule block_pool_frame [OF f2])
  have ptr: "inode_ptr (disk w (2 + k div 8)) (k mod 8) = ?ino" by (simp add: slot_def)
  have cl: "?ino\<lparr>direct_blocks := replicate 10 0, indirect_block := 0\<rparr> = cleared ?ino" by (simp add: cleared_def)
  show ?thesis
  proof (cases "?t = []")
    case True
    have kp: "kept (cleared ?ino) w2 (cleared ?ino) w2"
      by (rule kept_refl) (use f(3) wf in auto)
    let ?new = "(cleared ?ino)\<lparr>ino_size := 0\<rparr>"
    have wfn: "inode_wf ?new" using wf by (simp add: inode_wf_def cleared_def)
    obtain w4 where w4: "update_inode (2 + k div 8) (k mod 8) (\<lambda>_. ?new) w2 = w4"
      "disk w4 = store_slot k ?new (disk w2)" "frame {2 + k div 8} w2 w4"
      using update_inode_spec [OF f(3) k(1), of "\<lambda>_. ?new"] wfn by auto
    let ?w' = "okmsg ''File written (empty).'' w4"
    have "rexfs_write args w = Some ?w'"
      using assms(2-5,7) s(1) f(1) True w4(1) ptr cl by (simp add: rexfs_write_def Let_def)
    moreover have "fs_inv ?w'" "others_kept k w ?w'"
      using fs_inv_replace [OF assms(1) k f2 f(3) u2 kp, where ?w4.0 = ?w' and sz = 0] w4(2) frame_print_after [OF w4(3)] by auto
    moreover have sl: "slot (disk ?w') k = ?new"
      using slot_store [of "disk w2" ?new k] w4(2) f(3) wfn by (simp add: geom_ok_def)
    ultimately show ?thesis using k(2) unfolding True
      by (intro exI [of _ ?w']) (simp add: write_ok_def is_file_def complete_def file_bytes_def)
  next
    case False
    have n: "\<not> 266 < (length ?t + 511) div 512" using assms(6) by simp
    let ?w' = "store_file (2 + k div 8) (k mod 8) (cleared ?ino) ?t ''File written successfully.'' w2"
    have "rexfs_write args w = Some ?w'"
      using assms(2-5,7) s(1) f(1) False n ptr cl by (auto simp: rexfs_write_def Let_def)
    then show ?thesis using store_file_spec [OF assms(1) k f2 f(3) u2 assms(6)] u2 p2
      by (simp add: write_ok_def)
  qed
qed

lemma slot_name_used:
  "fs_inv w \<Longrightarrow> j < 64 \<Longrightarrow> ino_id (slot (disk w) j) \<noteq> 0 \<Longrightarrow> slot_name (disk w) j = cstr (ino_name (slot (disk w) j))"
  using slot_name_field [of "disk w" j] by (auto simp: fs_inv_def geom_ok_def slot_ok_def)

lemma entry_slots_cong:
  assumes "fs_inv w" and "fs_inv w'"
    and "\<And>j. j < 64 \<Longrightarrow> ino_id (slot (disk w') j) = ino_id (slot (disk w) j) \<and>
      parent_id (slot (disk w') j) = parent_id (slot (disk w) j) \<and>
      ino_type (slot (disk w') j) = ino_type (slot (disk w) j) \<and> ino_name (slot (disk w') j) = ino_name (slot (disk w) j)"
  shows "find_slot (typed_entry ty dir name) (disk w') = find_slot (typed_entry ty dir name) (disk w)"
proof -
  have "typed_entry ty dir name (slot (disk w') j) (slot_name (disk w') j) =
      typed_entry ty dir name (slot (disk w) j) (slot_name (disk w) j)" if "j < 64" for j
    using assms(3) [OF that] slot_name_used [OF assms(1) that] slot_name_used [OF assms(2) that] by (auto simp: typed_entry_def)
  then show ?thesis unfolding find_slot_def by (intro find_cong) auto
qed

section \<open>Reading\<close>

lemma rexfs_cat_found:
  assumes "fs_inv w" and "fs_mounted w" and "char_at name 0 \<noteq> 0"
    and "find_slot (typed_entry 1 (current_dir_id w) name) (disk w) = Some k"
    and "complete (disk w) (slot (disk w) k)"
  shows "\<exists>w'. rexfs_cat name w = Some w' \<and> frame {} w w' \<and>
    con w' = (if ino_size (slot (disk w) k) = 0 then con w
              else print_char 10 (fold print_char (file_bytes (disk w) (slot (disk w) k)) (con w)))"
proof -
  let ?ino = "slot (disk w) k"
  obtain w1 where s: "scan_inodes (typed_entry 1 (current_dir_id w) name) w =
      (map_option (\<lambda>k. (2 + k div 8, k mod 8, disk w (2 + k div 8)))
        (find_slot (typed_entry 1 (current_dir_id w) name) (disk w)), w1)" "frame {} w w1" "con w1 = con w" "disk w1 = disk w"
    using scan_E [of "typed_entry 1 (current_dir_id w) name" w] by blast
  have ptr: "inode_ptr (disk w (2 + k div 8)) (k mod 8) = ?ino" by (simp add: slot_def)
  show ?thesis
  proof (cases "ino_size ?ino = 0")
    case True
    then have "rexfs_cat name w = Some w1" using assms(2-4) s(1) ptr by (simp add: rexfs_cat_def)
    then show ?thesis using True s by simp
  next
    case False
    define sz where "sz = unat (ino_size ?ino)"
    define n where "n = (sz + 511) div 512"
    have sz: "ino_size ?ino = of_nat sz" "sz \<le> 136192" using assms(5) by (simp_all add: sz_def complete_def)
    have cnt: "file_block_count ?ino = n"
    proof -
      have "unat (ino_size ?ino + 511) = sz + 511" using sz by (simp add: unat_word_ariths unat_of_nat)
      then show ?thesis by (simp add: file_block_count_def n_def)
    qed
    have n: "sz \<le> 512 * n" "512 * n < sz + 512" "n \<le> 266" using sz(2) unfolding n_def by linarith+
    have bn: "\<forall>j<n. bnum (disk w1) ?ino j \<noteq> 0"
      using assms(5) s(4) by (simp add: complete_def n_def sz_def)
    have len: "\<forall>x. length (disk w1 x) = 512" using assms(1) s(4) by (simp add: fs_inv_def geom_ok_def disk_wf_def)
    let ?body = "\<lambda>off chunk (c :: unit, v). (c, con_update (fold print_char chunk) v)"
    obtain w2 where r: "read_blocks ?body ?ino [0..<n] (of_nat (512 * 0)) ((), w1) = Some ((), w2)" "frame {} w1 w2"
      "con w2 = fold (\<lambda>j. fold print_char (take (min 512 (sz - 512 * j)) (disk w (bnum (disk w) ?ino j)))) [0..<n] (con w1)"
      using read_blocks_spec [of ?body "\<lambda>off ch c. c" "\<lambda>off ch. fold print_char ch" ?ino sz n 0 w1 "()"]
        sz(1) n bn len s(4) by auto
    have "con w2 = fold print_char (file_bytes (disk w) ?ino) (con w)"
      using r(3) s(3) by (simp add: file_bytes_def sz_def n_def fold_concat_lists fold_map comp_def)
    moreover have "rexfs_cat name w = Some (kputc 10 w2)"
      using assms(2-4) s(1) ptr False r(1) cnt by (simp add: rexfs_cat_def fold_kputc)
    moreover have "frame {} w (kputc 10 w2)" using frame_print_after [OF frame_trans [OF s(2) r(2)]] by simp
    ultimately show ?thesis using False by (intro exI [of _ "kputc 10 w2"]) simp
  qed
qed

section \<open>Removing\<close>

lemma rooted_id_dir:
  assumes "rooted d (of_nat (k + 1))" and "k < 64"
  shows "ino_type (slot d k) = 2"
  using assms(1)
proof cases
  case root
  then have "unat (of_nat (k + 1) :: u16) = 0" by simp
  then show ?thesis using assms(2) unfolding unat_of_nat by simp
next
  case (sub j)
  from sub(1) have "unat (of_nat (k + 1) :: u16) = unat (of_nat (j + 1) :: u16)" by simp
  then have "k = j" using assms(2) sub(2) unfolding unat_of_nat by simp
  then show ?thesis using sub by simp
qed

lemma fs_inv_remove:
  assumes "fs_inv w" and "k < 64" and "ino_id (slot (disk w) k) \<noteq> 0"
    and "frame {10} w w2" and "geom_ok w2"
    and "block_used w2 = block_used w - (if is_file (disk w) k then owned (disk w) (slot (disk w) k) else {})"
    and "disk w4 = store_slot k ((slot (disk w) k)\<lparr>ino_id := 0\<rparr>) (disk w2)" and "frame {2 + k div 8} w2 w4"
    and "\<forall>j<64. ino_id (slot (disk w) j) \<noteq> 0 \<longrightarrow> parent_id (slot (disk w) j) \<noteq> of_nat (k + 1)"
    and "parent_id (slot (disk w) k) = current_dir_id w"
  shows "fs_inv w4 \<and> others_kept k w w4 \<and> ino_id (slot (disk w4) k) = 0 \<and> block_used w4 = block_used w2"
proof -
  let ?d = "disk w"
  let ?new = "(slot ?d k)\<lparr>ino_id := 0\<rparr>"
  have wf2: "disk_wf (disk w2)" using assms(5) by (simp add: geom_ok_def)
  have wf: "inode_wf ?new" using assms(1) inode_wf_slot [of ?d k] by (simp add: fs_inv_def geom_ok_def inode_wf_def)
  have s2: "slot (disk w2) j = slot ?d j" if "j < 64" for j
    using that frame_disk [OF assms(4)] by (simp add: slot_def)
  have sl: "slot (disk w4) j = (if j = k then ?new else slot ?d j)" if "j < 64" for j
    using slot_store [OF wf2 wf] assms(7) s2 [OF that] by simp
  have hi: "disk w4 b = disk w2 b" if "10 \<le> b" for b using assms(2,7) that by simp
  have used: "block_used w4 = block_used w2" using hi by (simp add: block_used_def)
  have p4: "block_pool w4 = block_pool w"
    using block_pool_frame [OF assms(8)] block_pool_frame [OF assms(4)] by simp
  have root: "x \<noteq> of_nat (k + 1) \<Longrightarrow> rooted (disk w4) x" if "rooted ?d x" for x
    using that
  proof induction
    case root
    show ?case by (rule rooted.root)
  next
    case (sub j)
    then have "j \<noteq> k" by blast
    moreover have "parent_id (slot ?d j) \<noteq> of_nat (k + 1)"
      using assms(9) sub(1,2) slot_id_nonzero [OF sub(1)] by simp
    ultimately show ?case using sub sl rooted.sub [of j "disk w4"] by simp
  qed
  have "geom_ok w4" using geom_frame [OF assms(5,8)] assms(7) wf2 wf disk_wf_store [of "disk w2" ?new k]
    by (simp add: disk_wf_def)
  moreover have "slot_ok (disk w4) j" if "j < 64" for j
  proof (cases "j = k")
    case True
    then show ?thesis using sl [OF that] by (simp add: slot_ok_def)
  next
    case False
    have "slot_ok ?d j" using assms(1) that by (simp add: fs_inv_def)
    then show ?thesis using False sl [OF that] root assms(9) that by (auto simp: slot_ok_def)
  qed
  moreover have bl: "disk w4 b = ?d b \<and> b \<in> block_used w4"
    if j: "j < 64" "j \<noteq> k" "is_file ?d j" and b: "b \<in> owned ?d (slot ?d j)" for j b
  proof -
    have "b \<notin> (if is_file ?d k then owned ?d (slot ?d k) else {})"
      using owned_disjoint [OF assms(1,2) j(1) _ _ j(3)] j(2) b by auto
    moreover have "b \<in> block_used w" "11 \<le> b" using owned_ge [OF assms(1) j(1,3) b] by auto
    ultimately show ?thesis using assms(6) hi frame_disk [OF assms(4), of b] used by auto
  qed
  moreover have "blocks_ok w4"
    by (rule blocks_ok_change [OF assms(1,2) p4]) (use sl bl assms(2) in \<open>auto simp: is_file_def\<close>)
  moreover have st: "current_dir_id w4 = current_dir_id w" "fs_mounted w4 = fs_mounted w"
    "active_sb w4 = active_sb w" "kheap w4 = kheap w"
    using assms(4,8) by (simp_all add: frame_def)
  moreover have "rooted (disk w4) (current_dir_id w4)"
  proof -
    have "current_dir_id w \<noteq> of_nat (k + 1)" using assms(2,3,9,10) by metis
    then show ?thesis using root st assms(1) by (simp add: fs_inv_def)
  qed
  moreover have "disk w4 s = ?d s" if "s < 2" for s
    using that frame_disk [OF assms(4)] frame_disk [OF assms(8)] by simp
  ultimately show ?thesis using sl assms(2) used by (simp add: fs_inv_def others_kept_def)
qed

lemma unat_ucast_u16: "unat (ucast (p :: u16) :: u32) = unat p"
  using unsigned_less [of p, where ?'a = nat] by (simp add: unsigned_ucast_eq take_bit_nat_eq_self)

lemma ucast_zero_u16: "(ucast (p :: u16) :: u32) = 0 \<longleftrightarrow> p = 0"
  using unat_ucast_u16 [of p] by (metis unat_0 unsigned_word_eqI)

lemma ucast_parent: "k < 64 \<Longrightarrow> (ucast (p :: u16) = (of_nat (k + 1) :: u32)) = (p = of_nat (k + 1))"
proof -
  assume k: "k < 64"
  have a: "unat (of_nat (k + 1) :: u32) = k + 1" "unat (of_nat (k + 1) :: u16) = k + 1"
    unfolding unat_of_nat using k by simp_all
  show ?thesis using a unat_ucast_u16 [of p] by (metis unsigned_word_eqI)
qed

lemma rexfs_rm_found:
  assumes "fs_inv w" and "fs_mounted w" and "char_at name 0 \<noteq> 0"
    and "find_slot (entry_named (current_dir_id w) name) (disk w) = Some k"
    and "ino_type (slot (disk w) k) = 1 \<or>
      (\<forall>j<64. ino_id (slot (disk w) j) \<noteq> 0 \<longrightarrow> parent_id (slot (disk w) j) \<noteq> of_nat (k + 1))"
  shows "\<exists>w'. rexfs_rm name w = Some w' \<and> fs_inv w' \<and> others_kept k w w' \<and> ino_id (slot (disk w') k) = 0 \<and>
    block_used w' = block_used w - (if is_file (disk w) k then owned (disk w) (slot (disk w) k) else {})"
proof -
  let ?ino = "slot (disk w) k" and ?f = "\<lambda>p. p\<lparr>ino_id := 0\<rparr> :: nr_inode"
  have k: "k < 64" "ino_id ?ino \<noteq> 0" "parent_id ?ino = current_dir_id w"
    using find_slot_Some [OF assms(4)] by (auto simp: entry_named_def)
  have so: "slot_ok (disk w) j" if "j < 64" for j using assms(1) that by (simp add: fs_inv_def)
  obtain w1 where s: "scan_inodes (entry_named (current_dir_id w) name) w =
      (map_option (\<lambda>k. (2 + k div 8, k mod 8, disk w (2 + k div 8)))
        (find_slot (entry_named (current_dir_id w) name) (disk w)), w1)" "frame {} w w1" "disk w1 = disk w"
    using scan_E [of "entry_named (current_dir_id w) name" w] by blast
  have g: "geom_ok w" using assms(1) by (simp add: fs_inv_def)
  have g1: "geom_ok w1" using geom_frame [OF g s(2)] by simp
  have ptr: "inode_ptr (disk w (2 + k div 8)) (k mod 8) = ?ino" by (simp add: slot_def)
  have wf: "inode_wf ?ino" using g by (simp add: geom_ok_def)
  have wff: "inode_wf (?f ?ino)" using wf by (simp add: inode_wf_def)
  have fin: "\<exists>w'. okmsg ''Removed successfully.'' (update_inode (2 + k div 8) (k mod 8) ?f w2) = w' \<and> fs_inv w' \<and>
      others_kept k w w' \<and> ino_id (slot (disk w') k) = 0 \<and> block_used w' = block_used w2"
    if f2: "frame {10} w w2" "geom_ok w2"
      "block_used w2 = block_used w - (if is_file (disk w) k then owned (disk w) ?ino else {})"
      and nc: "\<forall>j<64. ino_id (slot (disk w) j) \<noteq> 0 \<longrightarrow> parent_id (slot (disk w) j) \<noteq> of_nat (k + 1)" for w2
  proof -
    have sk: "slot (disk w2) k = ?ino" using k(1) frame_disk [OF f2(1)] by (simp add: slot_def)
    then obtain w4 where w4: "update_inode (2 + k div 8) (k mod 8) ?f w2 = w4"
      "disk w4 = store_slot k (?f ?ino) (disk w2)" "frame {2 + k div 8} w2 w4"
      using update_inode_spec [OF f2(2) k(1), of ?f] wff by auto
    then show ?thesis
      using fs_inv_remove [OF assms(1) k(1,2) f2 _ _ nc k(3), of "okmsg ''Removed successfully.'' w4"]
        frame_print_after [OF w4(3)] by simp
  qed
  show ?thesis
  proof (cases "ino_type ?ino = 2")
    case True
    then have nf: "\<not> is_file (disk w) k" by (simp add: is_file_def)
    have nc: "\<forall>j<64. ino_id (slot (disk w) j) \<noteq> 0 \<longrightarrow> parent_id (slot (disk w) j) \<noteq> of_nat (k + 1)"
      using assms(5) True by simp
    let ?P = "\<lambda>ino nm. ino_id ino \<noteq> 0 \<and> ucast (parent_id ino) = ino_id ?ino"
    have "ino_id ?ino = of_nat (k + 1)" using so [OF k(1)] k(2) by (simp add: slot_ok_def)
    then have "find_slot ?P (disk w) = None"
      using nc ucast_parent [OF k(1)] by (auto simp: find_slot_None)
    then obtain w2 where s2: "scan_inodes ?P w1 = (None, w2)" "frame {} w1 w2"
      using scan_inodes_spec [of ?P w1] s(3) by auto
    have f: "frame {} w w2" using frame_trans [OF s(2) s2(2)] by simp
    have "rexfs_rm name w = Some (okmsg ''Removed successfully.'' (update_inode (2 + k div 8) (k mod 8) ?f w2))"
      using assms(2-4) s(1) s2(1) ptr True by (simp add: rexfs_rm_def)
    then show ?thesis
      using fin [OF frame_mono [OF f] _ _ nc] geom_frame [OF g f] block_used_frame [OF f] nf by auto
  next
    case False
    then have isf: "ino_type ?ino = 1" "is_file (disk w) k"
      using so [OF k(1)] k(2) by (auto simp: slot_ok_def is_file_def)
    have nc: "\<forall>j<64. ino_id (slot (disk w) j) \<noteq> 0 \<longrightarrow> parent_id (slot (disk w) j) \<noteq> of_nat (k + 1)"
    proof (intro allI impI notI)
      fix j
      assume j: "j < 64" "ino_id (slot (disk w) j) \<noteq> 0" "parent_id (slot (disk w) j) = of_nat (k + 1)"
      then have "rooted (disk w) (of_nat (k + 1))" using so [OF j(1)] by (simp add: slot_ok_def)
      then show False using rooted_id_dir [OF _ k(1)] False by blast
    qed
    have own: "owned (disk w) ?ino \<subseteq> block_pool w1" using owned_ge [OF assms(1) k(1) isf(2)] block_pool_frame [OF s(2)] by blast
    obtain w2 where f: "free_file_blocks ?ino w1 = Some w2" "frame {10} w1 w2" "geom_ok w2"
        "block_used w2 = block_used w1 - owned (disk w) ?ino"
      using free_file_blocks_spec [OF g1 wf] own s(3) by auto
    have f2: "frame {10} w w2" using frame_trans [OF s(2) f(2)] by simp
    have "rexfs_rm name w = Some (okmsg ''Removed successfully.'' (update_inode (2 + k div 8) (k mod 8) ?f w2))"
      using assms(2-4) s(1) f(1) ptr False by (simp add: rexfs_rm_def)
    then show ?thesis using fin [OF f2 f(3) _ nc] f(4) isf(2) block_used_frame [OF s(2)] by auto
  qed
qed

section \<open>Directories\<close>

lemma rooted_parent: "rooted d (of_nat (k + 1)) \<Longrightarrow> k < 64 \<Longrightarrow> rooted d (parent_id (slot d k))"
proof -
  assume r: "rooted d (of_nat (k + 1))" and k: "k < 64"
  have inj: "of_nat (j + 1) = (of_nat (k + 1) :: u16) \<Longrightarrow> j = k" if "j < 64" for j
  proof -
    assume "of_nat (j + 1) = (of_nat (k + 1) :: u16)"
    then have "unat (of_nat (j + 1) :: u16) = unat (of_nat (k + 1) :: u16)" by simp
    then show "j = k" using k that unfolding unat_of_nat by simp
  qed
  have nz: "(of_nat (k + 1) :: u16) \<noteq> 0"
  proof
    assume "(of_nat (k + 1) :: u16) = 0"
    then have "unat (of_nat (k + 1) :: u16) = 0" by simp
    then show False using k unfolding unat_of_nat by simp
  qed
  from r show ?thesis
    by cases (use nz inj in auto)
qed

lemma ucast_id: "k < 64 \<Longrightarrow> (ucast (of_nat (k + 1) :: u32) :: u16) = of_nat (k + 1)"
proof -
  assume k: "k < 64"
  have a: "unat (of_nat (k + 1) :: u32) = k + 1" "unat (of_nat (k + 1) :: u16) = k + 1"
    unfolding unat_of_nat using k by simp_all
  have "unat (ucast (of_nat (k + 1) :: u32) :: u16) = take_bit 16 (unat (of_nat (k + 1) :: u32))"
    by (simp only: unsigned_ucast_eq) simp
  then have "unat (ucast (of_nat (k + 1) :: u32) :: u16) = unat (of_nat (k + 1) :: u16)"
    unfolding a using k by (simp add: take_bit_nat_eq_self)
  then show ?thesis by (rule unsigned_word_eqI)
qed

lemma rexfs_cd_inv: "fs_inv w \<Longrightarrow> fs_inv (rexfs_cd path w) \<and> disk (rexfs_cd path w) = disk w"
proof -
  assume inv: "fs_inv w"
  have upd: "fs_inv (w1\<lparr>current_dir_id := x\<rparr>)" if "frame {} w w1" "rooted (disk w) x" for w1 x
    using fs_inv_quiet [OF inv that(1)] that frame_quiet [OF that(1)]
    by (simp add: fs_inv_def geom_ok_def blocks_ok_def block_pool_def block_used_def)
  have so: "slot_ok (disk w) j" if "j < 64" for j using inv that by (simp add: fs_inv_def)
  have ptr: "inode_ptr (disk w (2 + k div 8)) (k mod 8) = slot (disk w) k" for k by (simp add: slot_def)
  obtain w1 where s1: "scan_inodes (has_id (current_dir_id w)) w =
      (map_option (\<lambda>k. (2 + k div 8, k mod 8, disk w (2 + k div 8)))
        (find_slot (has_id (current_dir_id w)) (disk w)), w1)" "frame {} w w1"
    using scan_inodes_spec [of "has_id (current_dir_id w)" w] by blast
  obtain w2 where s2: "scan_inodes (typed_entry 2 (current_dir_id w) path) w =
      (map_option (\<lambda>k. (2 + k div 8, k mod 8, disk w (2 + k div 8)))
        (find_slot (typed_entry 2 (current_dir_id w) path) (disk w)), w2)" "frame {} w w2"
    using scan_inodes_spec [of "typed_entry 2 (current_dir_id w) path" w] by blast
  have up: "rooted (disk w) (parent_id (slot (disk w) k))"
    if "find_slot (has_id (current_dir_id w)) (disk w) = Some k" "current_dir_id w \<noteq> 0" for k
  proof -
    have k: "k < 64" "ino_id (slot (disk w) k) = ucast (current_dir_id w)"
      using find_slot_Some [OF that(1)] by (auto simp: has_id_def)
    have "(ucast (current_dir_id w) :: u32) \<noteq> 0" using that(2) ucast_zero_u16 by blast
    then show ?thesis using so [OF k(1)] k(2) by (simp add: slot_ok_def)
  qed
  have down: "rooted (disk w) (ucast (ino_id (slot (disk w) k)))"
    if "find_slot (typed_entry 2 (current_dir_id w) path) (disk w) = Some k" for k
  proof -
    have k: "k < 64" "ino_id (slot (disk w) k) \<noteq> 0" "ino_type (slot (disk w) k) = 2"
      using find_slot_Some [OF that] by (auto simp: typed_entry_def)
    then have "ino_id (slot (disk w) k) = of_nat (k + 1)" "rooted (disk w) (parent_id (slot (disk w) k))"
      using so [OF k(1)] by (simp_all add: slot_ok_def)
    then show ?thesis using rooted.sub [OF k(1)] k(3) ucast_id [OF k(1)] by simp
  qed
  consider "\<not> fs_mounted w" | "fs_mounted w" "char_at path 0 = 0" | "fs_mounted w" "char_at path 0 \<noteq> 0" "strcmp path (str ''/'') = 0"
    | "fs_mounted w" "char_at path 0 \<noteq> 0" "strcmp path (str ''/'') \<noteq> 0" "strcmp path (str ''..'') = 0"
    | "fs_mounted w" "char_at path 0 \<noteq> 0" "strcmp path (str ''/'') \<noteq> 0" "strcmp path (str ''..'') \<noteq> 0" by blast
  then show ?thesis
  proof cases
    case 3
    then show ?thesis using upd [OF frame_refl rooted.root] by (simp add: rexfs_cd_def)
  next
    case 4
    show ?thesis
    proof (cases "current_dir_id w = 0 \<or> find_slot (has_id (current_dir_id w)) (disk w) = None")
      case True
      then show ?thesis using 4 inv s1 fs_inv_quiet [OF inv s1(2)] frame_quiet [OF s1(2)] by (auto simp: rexfs_cd_def)
    next
      case False
      then show ?thesis using 4 s1 upd [OF s1(2)] up frame_quiet [OF s1(2)] ptr by (auto simp: rexfs_cd_def)
    qed
  next
    case 5
    then show ?thesis
      using s2 upd [OF s2(2)] down frame_quiet [OF s2(2)] ptr fs_inv_quiet [OF inv frame_print_after [OF s2(2)]]
      by (cases "find_slot (typed_entry 2 (current_dir_id w) path) (disk w)") (auto simp: rexfs_cd_def)
  qed (use inv fs_inv_quiet [OF inv frame_print] in \<open>auto simp: rexfs_cd_def\<close>)
qed

end
