(* ===== verification/RexfsProps.thy ===== *)
theory RexfsProps
  imports RexfsOps
begin

text \<open>
  Properties of the file system: a formatted disk mounts to a good state, sequences of commands run
  without a fault and keep the invariant, files read back what was written, and commands on one file
  leave the others alone.
\<close>

section \<open>Sequences of commands\<close>

datatype fs_cmd = C_ls | C_pwd | C_fsinfo | C_mkdir bytes | C_touch bytes | C_cd bytes | C_rm bytes
  | C_write bytes | C_cat bytes

fun fs_step :: "fs_cmd \<Rightarrow> 'a fsworld_scheme \<Rightarrow> 'a fsworld_scheme option" where
  "fs_step C_ls w = Some (rexfs_ls w)"
| "fs_step C_pwd w = Some (rexfs_pwd w)"
| "fs_step C_fsinfo w = Some (rexfs_fsinfo w)"
| "fs_step (C_mkdir name) w = Some (rexfs_mkdir name w)"
| "fs_step (C_touch name) w = Some (rexfs_touch name w)"
| "fs_step (C_cd path) w = Some (rexfs_cd path w)"
| "fs_step (C_rm name) w = rexfs_rm name w"
| "fs_step (C_write args) w = rexfs_write args w"
| "fs_step (C_cat name) w = rexfs_cat name w"

fun fs_run :: "fs_cmd list \<Rightarrow> 'a fsworld_scheme \<Rightarrow> 'a fsworld_scheme option" where
  "fs_run [] w = Some w"
| "fs_run (c # cs) w = do { w1 \<leftarrow> fs_step c w; fs_run cs w1 }"

text \<open>The payload of a write command fits a file; the shell's 256-byte line always does.\<close>

fun cmd_fits :: "fs_cmd \<Rightarrow> bool" where
  "cmd_fits (C_write args) \<longleftrightarrow> length args \<le> 136192"
| "cmd_fits _ \<longleftrightarrow> True"

section \<open>Commands that only read\<close>

lemma ls_entry_frame: "frame {} (snd cw) (snd (ls_entry buf i cw))"
  by (auto simp: ls_entry_def Let_def frame_def split: prod.splits)

lemma fold_frame:
  assumes "\<And>x cw. frame {} (snd cw) (snd (f x cw))"
  shows "frame {} (snd cw) (snd (fold f xs cw))"
proof (induction xs arbitrary: cw)
  case (Cons x xs)
  show ?case using frame_trans [OF assms [of cw x] Cons.IH [of "f x cw"]] by simp
qed simp

lemma ls_sector_frame:
  "frame {} (snd cw) (snd ((\<lambda>sector (c, v). let (buf, v1) = read_sector sector v
     in fold (ls_entry buf) [0..<8] (c, v1)) sector cw))"
proof -
  obtain c v where cw: "cw = (c, v)" by (cases cw)
  obtain buf v1 where r: "read_sector sector v = (buf, v1)" by (cases "read_sector sector v")
  then have "frame {} v v1" using read_sector_frame [of v sector] by simp
  moreover have "frame {} v1 (snd (fold (ls_entry buf) [0..<8] (c, v1)))"
    using fold_frame [where f = "ls_entry buf" and cw = "(c, v1)" and xs = "[0..<8]", OF ls_entry_frame] by simp
  ultimately show ?thesis using frame_trans [of "{}" v v1 "{}"] cw r by simp
qed

lemma rexfs_ls_frame: "frame {} w (rexfs_ls w)"
proof (cases "fs_mounted w")
  case True
  let ?w1 = "kprint_color (str ''--- RexFS DIRECTORY LISTING ---'' @ [10]) COLOR_LIGHT_CYAN w"
  let ?f = "\<lambda>sector (c, v). let (buf, v1) = read_sector sector v in fold (ls_entry buf) [0..<8] (c, v1)"
  obtain n w2 where r: "fold ?f [2..<10] (0, ?w1) = (n, w2)" by (cases "fold ?f [2..<10] (0, ?w1)")
  have "frame {} ?w1 w2"
    using fold_frame [of ?f "(0, ?w1)" "[2..<10]"] ls_sector_frame r by (metis snd_conv)
  then have "frame {} w w2" using frame_trans [OF frame_print [of "{}" w]] by (metis Un_empty)
  then show ?thesis using True r frame_print_after by (auto simp: rexfs_ls_def Let_def)
qed (simp add: rexfs_ls_def)

lemma pwd_collect_frame: "pwd_collect n cur w = (ids, w') \<Longrightarrow> frame {} w w'"
proof (induction n arbitrary: cur w ids)
  case (Suc n)
  obtain w1 where s: "\<exists>r. scan_inodes (has_id cur) w = (r, w1)" "frame {} w w1"
    using scan_inodes_spec [of "has_id cur" w] by blast
  show ?case
  proof (cases "cur = 0")
    case True
    then show ?thesis using Suc.prems by simp
  next
    case False
    then have "frame {} w1 w'" using Suc s(1) by (auto split: prod.splits option.splits)
    then show ?thesis using frame_trans [OF s(2)] by (metis Un_empty)
  qed
qed simp

lemma pwd_name_frame: "frame {} w (pwd_name d w)"
proof -
  obtain r w1 where s: "scan_inodes (has_id d) (kputc 47 w) = (r, w1)" "frame {} (kputc 47 w) w1"
    using scan_inodes_spec [of "has_id d" "kputc 47 w"] by blast
  have "frame {} w w1" using frame_trans [OF frame_print [of "{}" w] s(2)] by simp
  then show ?thesis using s(1) frame_print_after by (auto simp: pwd_name_def split: option.splits)
qed

lemma rexfs_pwd_frame: "frame {} w (rexfs_pwd w)"
proof -
  obtain ids w1 where c: "pwd_collect 64 (current_dir_id w) w = (ids, w1)" by (cases "pwd_collect 64 (current_dir_id w) w")
  have "frame {} v (fold pwd_name ds v)" for ds and v :: "'a fsworld_scheme"
  proof (induction ds arbitrary: v)
    case (Cons d ds)
    show ?case using frame_trans [OF pwd_name_frame [of v d] Cons.IH] by simp
  qed simp
  then have "frame {} w (fold pwd_name (rev ids) w1)"
    using frame_trans [OF pwd_collect_frame [OF c]] by (metis Un_empty)
  then show ?thesis using c by (auto simp: rexfs_pwd_def intro: frame_print_after)
qed

lemma rexfs_cat_total:
  assumes "fs_inv w"
  shows "\<exists>w'. rexfs_cat name w = Some w' \<and> frame {} w w'"
proof -
  obtain w1 where s: "scan_inodes (typed_entry 1 (current_dir_id w) name) w =
      (map_option (\<lambda>k. (2 + k div 8, k mod 8, disk w (2 + k div 8)))
        (find_slot (typed_entry 1 (current_dir_id w) name) (disk w)), w1)" "frame {} w w1"
    using scan_inodes_spec [of "typed_entry 1 (current_dir_id w) name" w] by blast
  show ?thesis
  proof (cases "fs_mounted w \<and> char_at name 0 \<noteq> 0")
    case False
    then show ?thesis by (auto simp: rexfs_cat_def)
  next
    case m: True
    show ?thesis
    proof (cases "find_slot (typed_entry 1 (current_dir_id w) name) (disk w)")
      case None
      then show ?thesis using m s frame_print_after by (auto simp: rexfs_cat_def)
    next
      case (Some k)
      let ?ino = "slot (disk w) k"
      have ptr: "inode_ptr (disk w (2 + k div 8)) (k mod 8) = ?ino" by (simp add: slot_def)
      have k: "k < 64" "ino_id ?ino \<noteq> 0" using find_slot_Some [OF Some] by (auto simp: typed_entry_def)
      then have sz: "unat (ino_size ?ino) \<le> 136192" using assms by (simp add: fs_inv_def slot_ok_def)
      then have "unat (ino_size ?ino + 511) = unat (ino_size ?ino) + 511"
        by (simp add: unat_word_ariths)
      then have "file_block_count ?ino \<le> 266" using sz by (simp add: file_block_count_def)
      then obtain c' w2 where "read_blocks (\<lambda>off chunk (c :: unit, v). (c, con_update (fold print_char chunk) v)) ?ino
          [0..<file_block_count ?ino] 0 ((), w1) = Some (c', w2)" "frame {} w1 w2"
        using read_blocks_total [of "\<lambda>off chunk (c, v). (c, con_update (fold print_char chunk) v)"
            "\<lambda>off ch c. c" "\<lambda>off ch. fold print_char ch" "[0..<file_block_count ?ino]" ?ino 0 "()" w1] by auto
      moreover have "frame {} w (kputc 10 w2)" if "frame {} w1 w2" for w2
        using frame_print_after [OF frame_trans [OF s(2) that]] by simp
      ultimately show ?thesis using m s Some ptr by (auto simp: rexfs_cat_def fold_kputc Let_def)
    qed
  qed
qed

section \<open>Every command keeps the invariant\<close>

lemma rexfs_create_inv:
  assumes "fs_inv w" and "ty \<in> {1, 2}"
  shows "fs_inv (rexfs_create ty us dm name w) \<and> fs_mounted (rexfs_create ty us dm name w) = fs_mounted w"
proof (cases "fs_mounted w \<and> char_at name 0 \<noteq> 0")
  case False
  then show ?thesis using fs_inv_quiet [OF assms(1) frame_print] by (auto simp: rexfs_create_def)
next
  case True
  let ?w' = "rexfs_create ty us dm name w"
  note c = create_cases [of w name ty us dm, OF _ _ assms(1)]
  consider "frame {} w ?w'" | k where "find_slot (\<lambda>ino nm. ino_id ino = 0) (disk w) = Some k"
      "frame {2 + k div 8} w ?w'"
      "disk ?w' = store_slot k (new_inode (2 + k div 8) (k mod 8) ty (current_dir_id w) name) (disk w)"
    using c True by (auto split: option.splits)
  then show ?thesis
  proof cases
    case 1
    then show ?thesis using fs_inv_quiet [OF assms(1) 1] by (simp add: frame_def)
  next
    case 2
    then have "k < 64" "ino_id (slot (disk w) k) = 0" using find_slot_Some by blast+
    then show ?thesis using fs_inv_store_new [OF assms(1) _ _ assms(2) 2(3)] 2(2) by (simp add: frame_def)
  qed
qed

lemma rexfs_rm_inv:
  assumes "fs_inv w"
  shows "\<exists>w'. rexfs_rm name w = Some w' \<and> fs_inv w' \<and> fs_mounted w' = fs_mounted w"
proof (cases "fs_mounted w \<and> char_at name 0 \<noteq> 0")
  case False
  then show ?thesis using fs_inv_quiet [OF assms frame_print] by (auto simp: rexfs_rm_def)
next
  case m: True
  obtain w1 where s: "scan_inodes (entry_named (current_dir_id w) name) w =
      (map_option (\<lambda>k. (2 + k div 8, k mod 8, disk w (2 + k div 8)))
        (find_slot (entry_named (current_dir_id w) name) (disk w)), w1)" "frame {} w w1"
    using scan_inodes_spec [of "entry_named (current_dir_id w) name" w] by blast
  show ?thesis
  proof (cases "find_slot (entry_named (current_dir_id w) name) (disk w)")
    case None
    then have "rexfs_rm name w = Some (err ''Error: File or directory not found.'' w1)"
      using m s(1) by (simp add: rexfs_rm_def)
    then show ?thesis using fs_inv_quiet [OF assms frame_print_after [OF s(2)]] s(2) by (simp add: frame_def)
  next
    case (Some k)
    let ?ino = "slot (disk w) k"
    show ?thesis
    proof (cases "ino_type ?ino = 1 \<or>
        (\<forall>j<64. ino_id (slot (disk w) j) \<noteq> 0 \<longrightarrow> parent_id (slot (disk w) j) \<noteq> of_nat (k + 1))")
      case True
      then show ?thesis using rexfs_rm_found [OF assms _ _ Some] m by (auto simp: others_kept_def)
    next
      case False
      have k: "k < 64" "ino_id ?ino \<noteq> 0" using find_slot_Some [OF Some] by (auto simp: entry_named_def)
      then have t: "ino_type ?ino = 2" "ino_id ?ino = of_nat (k + 1)"
        using False assms by (auto simp: fs_inv_def slot_ok_def)
      have ptr: "inode_ptr (disk w (2 + k div 8)) (k mod 8) = ?ino" by (simp add: slot_def)
      let ?P = "\<lambda>ino nm. ino_id ino \<noteq> 0 \<and> ucast (parent_id ino) = ino_id ?ino"
      have "find_slot ?P (disk w) \<noteq> None"
        using False ucast_parent [OF k(1)] t(2) by (auto simp: find_slot_None)
      then obtain r w2 where s2: "scan_inodes ?P w1 = (Some r, w2)" "frame {} w1 w2"
        using scan_inodes_spec [of ?P w1] frame_quiet [OF s(2)] by auto
      have "rexfs_rm name w = Some (err ''Error: Directory not empty.'' w2)"
        using m s(1) Some s2(1) ptr t(1) by (simp add: rexfs_rm_def)
      moreover have "frame {} w w2" using frame_trans [OF s(2) s2(2)] by simp
      ultimately show ?thesis using fs_inv_quiet [OF assms frame_print_after] by (simp add: frame_def)
    qed
  qed
qed

lemma rexfs_write_inv:
  assumes "fs_inv w" and "length args \<le> 136192"
  shows "\<exists>w'. rexfs_write args w = Some w' \<and> fs_inv w' \<and> fs_mounted w' = fs_mounted w"
proof (cases "fs_mounted w \<and> char_at args 0 \<noteq> 0")
  case False
  then show ?thesis using fs_inv_quiet [OF assms(1) frame_print] by (auto simp: rexfs_write_def)
next
  case m: True
  obtain name rest where sp: "split_args args = (name, rest)" by (cases "split_args args")
  have "length rest \<le> length args"
    using sp length_cstr_le [of args] by (auto simp: split_args_def Let_def)
  then have len: "length (dropWhile (\<lambda>c. c = 32) rest) \<le> 136192"
    using length_dropWhile_le [of "\<lambda>c. c = 32" rest] assms(2) by linarith
  obtain w1 where s: "scan_inodes (typed_entry 1 (current_dir_id w) name) w =
      (map_option (\<lambda>k. (2 + k div 8, k mod 8, disk w (2 + k div 8)))
        (find_slot (typed_entry 1 (current_dir_id w) name) (disk w)), w1)" "frame {} w w1"
    using scan_inodes_spec [of "typed_entry 1 (current_dir_id w) name" w] by blast
  show ?thesis
  proof (cases "rest = [] \<or> find_slot (typed_entry 1 (current_dir_id w) name) (disk w) = None")
    case True
    then obtain v msg where "rexfs_write args w = Some (err msg v)" "frame {} w v"
      using m sp s by (cases "rest = []") (auto simp: rexfs_write_def)
    then show ?thesis using fs_inv_quiet [OF assms(1) frame_print_after] by (simp add: frame_def)
  next
    case False
    then show ?thesis using rexfs_write_found [OF assms(1) _ _ sp _ len] m
      by (auto simp: write_ok_def others_kept_def)
  qed
qed

lemma fs_step_inv:
  assumes "fs_inv w" and "cmd_fits c"
  shows "\<exists>w'. fs_step c w = Some w' \<and> fs_inv w' \<and> fs_mounted w' = fs_mounted w"
proof (cases c)
  case C_ls
  then show ?thesis using fs_inv_quiet [OF assms(1) rexfs_ls_frame] rexfs_ls_frame [of w] by (simp add: frame_def)
next
  case C_pwd
  then show ?thesis using fs_inv_quiet [OF assms(1) rexfs_pwd_frame] rexfs_pwd_frame [of w] by (simp add: frame_def)
next
  case C_fsinfo
  have "frame {} w (rexfs_fsinfo w)" by (simp add: rexfs_fsinfo_def frame_def Let_def)
  then show ?thesis using fs_inv_quiet [OF assms(1)] C_fsinfo by (simp add: frame_def)
next
  case (C_mkdir x)
  then show ?thesis using rexfs_create_inv [OF assms(1)] by (simp add: rexfs_mkdir_def)
next
  case (C_touch x)
  then show ?thesis using rexfs_create_inv [OF assms(1)] by (simp add: rexfs_touch_def)
next
  case (C_cd x)
  have "fs_mounted (rexfs_cd x w) = fs_mounted w"
    using scan_inodes_spec [of "has_id (current_dir_id w)" w] scan_inodes_spec [of "typed_entry 2 (current_dir_id w) x" w]
    by (auto simp: rexfs_cd_def frame_def split: prod.splits option.splits)
  then show ?thesis using C_cd rexfs_cd_inv [OF assms(1)] by simp
next
  case (C_rm x)
  then show ?thesis using rexfs_rm_inv [OF assms(1)] by simp
next
  case (C_write x)
  then show ?thesis using rexfs_write_inv [OF assms(1)] assms(2) by simp
next
  case (C_cat x)
  then obtain w' where "rexfs_cat x w = Some w'" "frame {} w w'" using rexfs_cat_total [OF assms(1)] by blast
  then show ?thesis using fs_inv_quiet [OF assms(1)] C_cat by (simp add: frame_def)
qed

section \<open>Formatting and mounting\<close>

lemma fold_zero_sectors:
  assumes "\<forall>s \<in> set ss. s < 2 ^ 28"
  shows "disk (fold (\<lambda>s. write_sector s (replicate 512 0)) ss w) =
      (\<lambda>x. if x \<in> set ss then replicate 512 0 else disk w x)"
  using assms by (induction ss arbitrary: w) (auto simp: fun_eq_iff)

definition mkfs_sb :: "nat \<Rightarrow> nr_superblock" where
  "mkfs_sb capacity =
     \<lparr>sb_magic = REXFS_MAGIC, sb_version = REXFS_VERSION, total_blocks = of_nat (min 4096 capacity),
      inode_count = REXFS_MAX_INODES, data_offset = 11, clean_shutdown = 1, sb_reserved = replicate 488 0\<rparr>"

lemma mkfs_disk:
  assumes "0 < capacity"
  shows "disk (rexfs_mkfs capacity w) =
    (\<lambda>s. if s = 1 then encode_superblock (mkfs_sb capacity)
         else if 2 \<le> s \<and> s \<le> 10 then replicate 512 0 else disk w s)"
proof -
  have "(if capacity > 4096 then 4096 else capacity) = min 4096 capacity" by simp
  then show ?thesis using assms
    by (auto simp: rexfs_mkfs_def Let_def mkfs_sb_def fold_zero_sectors fun_eq_iff)
qed

lemma zero_inode: "ino_id (inode_ptr (replicate 512 0) i) = 0" if "i < 8"
  using that by (simp add: inode_ptr_def decode_inode_def rd32_def get_def)

lemma mount_good:
  assumes "decode_superblock (disk w 1) = sb" and "sb_magic sb = REXFS_MAGIC" and "sb_version sb = REXFS_VERSION"
  shows "disk (rexfs_mount w) = (disk w)(1 := encode_superblock (sb\<lparr>clean_shutdown := 0\<rparr>)) \<and>
    fs_mounted (rexfs_mount w) \<and> active_sb (rexfs_mount w) = sb\<lparr>clean_shutdown := 0\<rparr> \<and>
    current_dir_id (rexfs_mount w) = 0 \<and> kheap (rexfs_mount w) = kheap w"
proof -
  obtain b w1 where r: "read_sector 1 w = (b, w1)" by (cases "read_sector 1 w")
  have rs: "b = disk w 1" "disk w1 = disk w" "kheap w1 = kheap w"
    using read_sectorE [OF r] by (simp_all add: frame_def)
  then show ?thesis using assms r by (simp add: rexfs_mount_def Let_def)
qed

lemma mkfs_mount_state:
  assumes "\<forall>s. length (disk w s) = 512" and "11 \<le> capacity" and "v = rexfs_mount (rexfs_mkfs capacity w)"
  shows "fs_inv v" "fs_mounted v" "\<And>k. k < 64 \<Longrightarrow> ino_id (slot (disk v) k) = 0" "block_used v = {}"
    "block_pool v = {11..<min 4096 capacity}" "current_dir_id v = 0"
proof -
  let ?m = "rexfs_mkfs capacity w"
  let ?sb = "mkfs_sb capacity"
  have wf: "superblock_wf ?sb" by (simp add: superblock_wf_def mkfs_sb_def)
  have md: "disk ?m = (\<lambda>s. if s = 1 then encode_superblock ?sb
      else if 2 \<le> s \<and> s \<le> 10 then replicate 512 0 else disk w s)"
    by (rule mkfs_disk) (use assms(2) in simp)
  have mm: "disk v = (disk ?m)(1 := encode_superblock (?sb\<lparr>clean_shutdown := 0\<rparr>))" "fs_mounted v"
      "active_sb v = ?sb\<lparr>clean_shutdown := 0\<rparr>" "current_dir_id v = 0"
    using mount_good [of ?m ?sb] md wf assms(3) by (simp_all add: mkfs_sb_def)
  have d10: "disk v 10 = replicate 512 0" using mm(1) md by simp
  have ids: "ino_id (slot (disk v) k) = 0" if "k < 64" for k
  proof -
    have "2 + k div 8 \<le> 10" "2 + k div 8 \<noteq> 1" using that by auto
    then have "disk v (2 + k div 8) = replicate 512 0" using mm(1) md by simp
    then show ?thesis unfolding slot_def using zero_inode by simp
  qed
  have cap: "unat (of_nat (min 4096 capacity) :: u32) = min 4096 capacity"
    unfolding unat_of_nat by simp
  have len: "disk_wf (disk v)" unfolding disk_wf_def
  proof
    fix s
    have "superblock_wf (?sb\<lparr>clean_shutdown := 0\<rparr>)" using wf by (simp add: superblock_wf_def)
    then show "length (disk v s) = 512" using mm(1) md assms(1) wf by (simp add: mkfs_sb_def)
  qed
  then have "geom_ok v" using mm(3) cap assms(2) by (simp add: geom_ok_def mkfs_sb_def)
  moreover have "block_used v = {}" using d10 test_replicate_zero by (auto simp: block_used_def bits_used_def)
  moreover have "block_pool v = {11..<min 4096 capacity}" using mm(3) cap by (simp add: block_pool_def mkfs_sb_def)
  ultimately show "fs_inv v" "fs_mounted v" "\<And>k. k < 64 \<Longrightarrow> ino_id (slot (disk v) k) = 0" "block_used v = {}"
    "block_pool v = {11..<min 4096 capacity}" "current_dir_id v = 0"
    using ids mm(2,4) rooted.root by (simp_all add: fs_inv_def slot_ok_def blocks_ok_def is_file_def)
qed

text \<open>
  C13: formatting a disk of at least 11 sectors and mounting it gives a well-formed file system in
  which every inode slot and every block is free, the root is the current directory, and at most 4096
  sectors are used.
\<close>

theorem mkfs_mount:
  assumes "\<forall>s. length (disk w s) = 512" and "11 \<le> capacity"
  shows "fs_inv (rexfs_mount (rexfs_mkfs capacity w)) \<and> fs_mounted (rexfs_mount (rexfs_mkfs capacity w)) \<and>
    (\<forall>k<64. ino_id (slot (disk (rexfs_mount (rexfs_mkfs capacity w))) k) = 0) \<and>
    block_used (rexfs_mount (rexfs_mkfs capacity w)) = {} \<and>
    block_pool (rexfs_mount (rexfs_mkfs capacity w)) = {11..<min 4096 capacity} \<and>
    current_dir_id (rexfs_mount (rexfs_mkfs capacity w)) = 0"
  using mkfs_mount_state [OF assms refl] by blast

definition fs_start :: fsworld where
  "fs_start = rexfs_mount (rexfs_mkfs 4096 (fsworld0 (\<lambda>_. 0) 0x200000))"

lemma fsworld0_disk: "disk (fsworld0 vram base) = (\<lambda>_. replicate 512 0)"
  by (simp add: fsworld0_def sworld.defs)

theorem mkfs_mount_witness: "fs_inv fs_start \<and> fs_mounted fs_start \<and> block_pool fs_start = {11..<4096}"
  using mkfs_mount [of "fsworld0 (\<lambda>_. 0) 0x200000" 4096] by (simp add: fsworld0_disk fs_start_def)

lemma fs_start_facts:
  "fs_inv fs_start" "fs_mounted fs_start" "\<And>k. k < 64 \<Longrightarrow> ino_id (slot (disk fs_start) k) = 0"
  "block_used fs_start = {}" "block_pool fs_start = {11..<4096}" "current_dir_id fs_start = 0"
  using mkfs_mount_state [OF _ _ fs_start_def] by (simp_all add: fsworld0_disk)



section \<open>Entries and contents\<close>

lemma entry_iff:
  assumes "fs_inv w" and "j < 64"
  shows "entry_named dir name (slot (disk w) j) (slot_name (disk w) j) \<longleftrightarrow>
    ino_id (slot (disk w) j) \<noteq> 0 \<and> parent_id (slot (disk w) j) = dir \<and> cstr name = cstr (ino_name (slot (disk w) j))"
  using slot_name_used [OF assms] cstr_no_zero by (auto simp: entry_named_def strcmp_cstr cstr_id)

lemma typed_iff:
  assumes "fs_inv w" and "j < 64"
  shows "typed_entry ty dir name (slot (disk w) j) (slot_name (disk w) j) \<longleftrightarrow>
    ino_id (slot (disk w) j) \<noteq> 0 \<and> parent_id (slot (disk w) j) = dir \<and> ino_type (slot (disk w) j) = ty \<and>
    cstr name = cstr (ino_name (slot (disk w) j))"
  using entry_iff [OF assms, of dir name] by (auto simp: entry_named_def typed_entry_def)

lemma typed_entry_named: "typed_entry ty dir name ino nm \<Longrightarrow> entry_named dir name ino nm"
  by (simp add: typed_entry_def entry_named_def)

lemma create_new:
  assumes "fs_inv w" and "fs_mounted w" and "ty \<in> {1, 2}" and "cstr name \<noteq> []" and "length (cstr name) \<le> 27"
    and "find_slot (entry_named (current_dir_id w) name) (disk w) = None"
    and "find_slot (\<lambda>ino nm. ino_id ino = 0) (disk w) = Some k" and "w' = rexfs_create ty us dm name w"
  shows "fs_inv w'" "fs_mounted w'" "current_dir_id w' = current_dir_id w" "others_kept k w w'"
    "slot (disk w') k = new_inode (2 + k div 8) (k mod 8) ty (current_dir_id w) name"
    "find_slot (entry_named (current_dir_id w) name) (disk w') = Some k"
    "find_slot (typed_entry ty (current_dir_id w) name) (disk w') = Some k"
    "block_used w' = block_used w" "block_pool w' = block_pool w"
proof -
  let ?ino = "new_inode (2 + k div 8) (k mod 8) ty (current_dir_id w) name"
  have c0: "char_at name 0 \<noteq> 0" using assms(4) char_at_0 by blast
  have k: "k < 64" "ino_id (slot (disk w) k) = 0" using find_slot_Some [OF assms(7)] by auto
  have f: "frame {2 + k div 8} w w'" and d: "disk w' = store_slot k ?ino (disk w)"
    using create_cases [OF assms(2) c0 assms(1), of ty us dm] assms(6-8) by simp_all
  have wf: "disk_wf (disk w)" using assms(1) by (simp add: fs_inv_def geom_ok_def)
  have sl: "slot (disk w') j = (if j = k then ?ino else slot (disk w) j)" for j using slot_store [OF wf] d by simp
  show inv: "fs_inv w'" using fs_inv_store_new [OF assms(1) k assms(3) d] f by (simp add: frame_def)
  show "fs_mounted w'" "current_dir_id w' = current_dir_id w" using f assms(2) by (simp_all add: frame_def)
  show "slot (disk w') k = ?ino" using sl by simp
  have "disk w' b = disk w b" if "j < 64" "is_file (disk w) j" "b \<in> owned (disk w) (slot (disk w) j)" for j b
    using owned_ge [OF assms(1) that] frame_disk [OF f, of b] k(1) by auto
  moreover have "disk w' 0 = disk w 0" "disk w' 1 = disk w 1" using frame_disk [OF f] by simp_all
  ultimately show "others_kept k w w'" using f sl by (simp add: others_kept_def frame_def)
  show "block_used w' = block_used w" using d k(1) by (simp add: block_used_def)
  show "block_pool w' = block_pool w" by (rule block_pool_frame [OF f])
  have nm: "cstr (ino_name ?ino) = cstr name" using cstr_new_inode assms(5) by simp
  have none: "\<not> entry_named (current_dir_id w) name (slot (disk w) j) (slot_name (disk w) j)" if "j < 64" for j
    using assms(6) that by (simp add: find_slot_None)
  have new: "ino_id ?ino \<noteq> 0" "parent_id ?ino = current_dir_id w" "ino_type ?ino = ty"
    using new_inode_id [OF k(1)] slot_id_nonzero [OF k(1)] by simp (simp_all add: new_inode_def)
  have ek: "entry_named (current_dir_id w) name (slot (disk w') k) (slot_name (disk w') k)"
    unfolding entry_iff [OF inv k(1)] using sl nm new by simp
  have eo: "j = k" if "j < 64" "entry_named (current_dir_id w) name (slot (disk w') j) (slot_name (disk w') j)" for j
    using that(2) none [OF that(1)] sl [of j] unfolding entry_iff [OF inv that(1)] entry_iff [OF assms(1) that(1)]
    by (auto split: if_splits)
  show "find_slot (entry_named (current_dir_id w) name) (disk w') = Some k"
    by (rule find_slot_unique) (use k(1) ek eo in blast)+
  show "find_slot (typed_entry ty (current_dir_id w) name) (disk w') = Some k"
  proof (rule find_slot_unique [OF k(1)])
    show "typed_entry ty (current_dir_id w) name (slot (disk w') k) (slot_name (disk w') k)"
      using ek sl [of k] new(3) by (simp add: typed_entry_def entry_named_def)
  qed (use eo typed_entry_named in blast)
qed

lemma split_args_plain:
  assumes "0 \<notin> set name" and "32 \<notin> set name" and "length name \<le> 31" and "0 \<notin> set text"
  shows "split_args (name @ 32 # text) = (name, 32 # text)"
proof -
  have "cstr (name @ 32 # text) = name @ 32 # text" using assms by (intro cstr_id) auto
  moreover have "takeWhile (\<lambda>c. c \<noteq> 32) (name @ 32 # text) = name"
    using assms(2) by (subst takeWhile_append2) auto
  ultimately show ?thesis using assms(3) by (simp add: split_args_def)
qed

lemma write_lookup:
  assumes "fs_inv w" and "k < 64" and "is_file (disk w) k" and "write_ok k text w w'"
  shows "find_slot (typed_entry ty dir name) (disk w') = find_slot (typed_entry ty dir name) (disk w)"
proof (rule entry_slots_cong [OF assms(1)])
  show inv: "fs_inv w'" using assms(4) by (simp add: write_ok_def)
  have "ino_id (slot (disk w') k) = ino_id (slot (disk w) k)"
    using assms inv by (auto simp: is_file_def fs_inv_def slot_ok_def write_ok_def)
  then show "ino_id (slot (disk w') j) = ino_id (slot (disk w) j) \<and> parent_id (slot (disk w') j) = parent_id (slot (disk w) j) \<and>
      ino_type (slot (disk w') j) = ino_type (slot (disk w) j) \<and> ino_name (slot (disk w') j) = ino_name (slot (disk w) j)"
    if "j < 64" for j
    using assms(3,4) that by (cases "j = k") (auto simp: write_ok_def others_kept_def is_file_def)
qed

lemma write_then_cat:
  assumes "fs_inv w" and "fs_mounted w" and "char_at name 0 \<noteq> 0"
    and "find_slot (typed_entry 1 (current_dir_id w) name) (disk w) = Some k"
    and "write_ok k text w w2" and "text \<noteq> []" and "length text \<le> 136192"
    and "blocks_needed (length text) \<le> card (block_pool w - (block_used w - owned (disk w) (slot (disk w) k)))"
  shows "\<exists>w3. rexfs_cat name w2 = Some w3 \<and> fs_inv w3 \<and> con w3 = print_char 10 (fold print_char text (con w2))"
proof -
  have k: "k < 64" "is_file (disk w) k" using find_slot_Some [OF assms(4)] typed_entry_file by blast+
  have wr: "fs_inv w2" "others_kept k w w2" "ino_size (slot (disk w2) k) = of_nat (length text)"
    "complete (disk w2) (slot (disk w2) k)" "file_bytes (disk w2) (slot (disk w2) k) = text"
    using assms(5,8) by (simp_all add: write_ok_def)
  have fs: "find_slot (typed_entry 1 (current_dir_id w2) name) (disk w2) = Some k"
    using write_lookup [OF assms(1) k assms(5)] assms(4) wr(2) by (simp add: others_kept_def)
  have "ino_size (slot (disk w2) k) \<noteq> 0"
  proof
    assume "ino_size (slot (disk w2) k) = 0"
    then have "unat (of_nat (length text) :: u32) = 0" using wr(3) by simp
    then show False using assms(6,7) unfolding unat_of_nat by simp
  qed
  then obtain w3 where w3: "rexfs_cat name w2 = Some w3" "frame {} w2 w3" "con w3 = print_char 10 (fold print_char text (con w2))"
    using rexfs_cat_found [OF wr(1) _ assms(3) fs wr(4)] assms(2) wr(2,5) by (auto simp: others_kept_def)
  then show ?thesis using fs_inv_quiet [OF wr(1) w3(2)] by blast
qed

lemma plain_args:
  assumes "name \<noteq> []" and "0 \<notin> set name" and "text \<noteq> []" and "hd text \<noteq> 32"
  shows "char_at (name @ 32 # text) 0 \<noteq> 0" "char_at name 0 \<noteq> 0" "dropWhile (\<lambda>c. c = 32) (32 # text) = text"
  using assms by (cases name; cases "text"; auto simp: char_at_def)+

text \<open>
  C9: a new file can be created, written and printed: after \<open>touch name\<close> and \<open>write name text\<close> on a disk
  with enough free blocks, \<open>cat name\<close> prints exactly the text and a newline.  This holds for direct
  and for indirect blocks, up to the 266 blocks of a file.
\<close>

theorem touch_write_cat:
  assumes "fs_inv w" and "fs_mounted w"
    and "name \<noteq> []" and "length name \<le> 27" and "0 \<notin> set name" and "32 \<notin> set name"
    and "find_slot (entry_named (current_dir_id w) name) (disk w) = None"
    and "find_slot (\<lambda>ino nm. ino_id ino = 0) (disk w) \<noteq> None"
    and "text \<noteq> []" and "hd text \<noteq> 32" and "0 \<notin> set text" and "length text \<le> 136192"
    and "blocks_needed (length text) \<le> card (block_pool w - block_used w)"
  shows "\<exists>w2 w3. rexfs_write (name @ 32 # text) (rexfs_touch name w) = Some w2 \<and> rexfs_cat name w2 = Some w3 \<and>
    fs_inv w3 \<and> con w3 = print_char 10 (fold print_char text (con w2))"
proof -
  obtain k where k: "find_slot (\<lambda>ino nm. ino_id ino = 0) (disk w) = Some k" using assms(8) by blast
  have cn: "cstr name = name" by (rule cstr_id [OF assms(5)])
  let ?w1 = "rexfs_touch name w"
  have w1: "?w1 = rexfs_create 1 ''Usage: touch <name>'' ''File created successfully.'' name w"
    by (simp add: rexfs_touch_def)
  note c = create_new [OF assms(1,2) _ _ _ assms(7) k w1, unfolded cn, simplified, OF assms(3,4)]
  have own: "owned (disk ?w1) (slot (disk ?w1) k) = {}" using c(5) new_inode_empty by simp
  have sp: "split_args (name @ 32 # text) = (name, 32 # text)" by (rule split_args_plain) (use assms in auto)
  note pl = plain_args [OF assms(3,5,9,10)]
  obtain w2 where w2: "rexfs_write (name @ 32 # text) ?w1 = Some w2" "write_ok k text ?w1 w2"
    using rexfs_write_found [OF c(1,2) pl(1) sp _ _ c(7) [folded c(3)]] pl(3) assms(12) by auto
  moreover have "blocks_needed (length text) \<le>
      card (block_pool ?w1 - (block_used ?w1 - owned (disk ?w1) (slot (disk ?w1) k)))"
    using own c(8,9) assms(13) by simp
  ultimately show ?thesis
    using write_then_cat [OF c(1,2) pl(2) c(7) [folded c(3)] w2(2) assms(9,12)] by blast
qed

lemma fs_start_free: "find_slot (\<lambda>ino nm. ino_id ino = 0) (disk fs_start) = Some 0"
proof (cases "find_slot (\<lambda>ino nm. ino_id ino = 0) (disk fs_start)")
  case None
  then show ?thesis using fs_start_facts(3) [of 0] by (simp add: find_slot_None)
next
  case (Some k)
  then show ?thesis using fs_start_facts(3) [of 0] find_slot_Some [OF Some] by (cases k) auto
qed

lemma fs_start_no_entry: "find_slot (entry_named dir name) (disk fs_start) = None"
  using fs_start_facts(3) by (simp add: find_slot_None entry_named_def)

theorem touch_write_cat_witness:
  "\<exists>w2 w3. rexfs_write (str ''a'' @ 32 # replicate 6000 120) (rexfs_touch (str ''a'') fs_start) = Some w2 \<and>
     rexfs_cat (str ''a'') w2 = Some w3 \<and> con w3 = print_char 10 (fold print_char (replicate 6000 120) (con w2))"
  using touch_write_cat [OF fs_start_facts(1,2), of "str ''a''" "replicate 6000 120"]
    fs_start_free fs_start_no_entry fs_start_facts(4,5)
  by (simp add: str_def blocks_needed_def of_char_def) blast

text \<open>
  C10: \<open>write\<close> on an existing file changes that file only: name and directory of the file stay, every
  other inode is unchanged, and every other file has the same contents as before, whether or not there
  was room for all of the text.
\<close>

theorem write_isolated:
  assumes "fs_inv w" and "fs_mounted w" and "name \<noteq> []" and "length name \<le> 27" and "0 \<notin> set name" and "32 \<notin> set name"
    and "text \<noteq> []" and "hd text \<noteq> 32" and "0 \<notin> set text" and "length text \<le> 136192"
    and "find_slot (typed_entry 1 (current_dir_id w) name) (disk w) = Some k"
  shows "\<exists>w'. rexfs_write (name @ 32 # text) w = Some w' \<and> fs_inv w' \<and>
    find_slot (typed_entry 1 (current_dir_id w') name) (disk w') = Some k \<and>
    (\<forall>j<64. j \<noteq> k \<longrightarrow> slot (disk w') j = slot (disk w) j) \<and>
    (\<forall>j<64. j \<noteq> k \<longrightarrow> is_file (disk w) j \<longrightarrow>
       file_bytes (disk w') (slot (disk w') j) = file_bytes (disk w) (slot (disk w) j))"
proof -
  have k: "k < 64" "is_file (disk w) k" using find_slot_Some [OF assms(11)] typed_entry_file by blast+
  have sp: "split_args (name @ 32 # text) = (name, 32 # text)" by (rule split_args_plain) (use assms in auto)
  note pl = plain_args [OF assms(3,5,7,8)]
  obtain w' where w': "rexfs_write (name @ 32 # text) w = Some w'" "write_ok k text w w'"
    using rexfs_write_found [OF assms(1,2) pl(1) sp _ _ assms(11)] pl(3) assms(10) by auto
  then have o: "others_kept k w w'" "fs_inv w'" by (simp_all add: write_ok_def)
  have "find_slot (typed_entry 1 (current_dir_id w') name) (disk w') = Some k"
    using write_lookup [OF assms(1) k w'(2)] assms(11) o(1) by (simp add: others_kept_def)
  moreover have "file_bytes (disk w') (slot (disk w') j) = file_bytes (disk w) (slot (disk w) j)"
    if "j < 64" "j \<noteq> k" "is_file (disk w) j" for j
    using file_bytes_others [OF o(1) that] assms(1) that by (auto simp: fs_inv_def slot_ok_def is_file_def)
  ultimately show ?thesis using w'(1) o by (auto simp: others_kept_def)
qed

definition fs_one :: fsworld where
  "fs_one = rexfs_touch (str ''a'') fs_start"

lemma fs_one_facts:
  "fs_inv fs_one" "fs_mounted fs_one" "current_dir_id fs_one = 0"
  "find_slot (typed_entry 1 0 (str ''a'')) (disk fs_one) = Some 0"
  "find_slot (entry_named 0 (str ''a'')) (disk fs_one) = Some 0"
  "slot (disk fs_one) 0 = new_inode 2 0 1 0 (str ''a'')"
  "block_used fs_one = {}" "block_pool fs_one = {11..<4096}"
proof -
  have d: "fs_one = rexfs_create 1 ''Usage: touch <name>'' ''File created successfully.'' (str ''a'') fs_start"
    by (simp add: fs_one_def rexfs_touch_def)
  have n: "cstr (str ''a'') = str ''a''" "str ''a'' \<noteq> []" by (simp_all add: str_def of_char_def cstr_def)
  note c = create_new [OF fs_start_facts(1,2) _ _ _ fs_start_no_entry fs_start_free d, unfolded n(1), simplified, OF n(2)]
  show "fs_inv fs_one" "fs_mounted fs_one" "current_dir_id fs_one = 0"
    "find_slot (typed_entry 1 0 (str ''a'')) (disk fs_one) = Some 0"
    "find_slot (entry_named 0 (str ''a'')) (disk fs_one) = Some 0"
    "slot (disk fs_one) 0 = new_inode 2 0 1 0 (str ''a'')"
    "block_used fs_one = {}" "block_pool fs_one = {11..<4096}"
    using c fs_start_facts(4-6) by (simp_all add: numeral_2_eq_2)
qed

theorem write_isolated_witness:
  "\<exists>w'. rexfs_write (str ''a'' @ 32 # str ''hello'') fs_one = Some w' \<and> fs_inv w'"
  using write_isolated [OF fs_one_facts(1,2), of "str ''a''" "str ''hello''" 0] fs_one_facts(3,4)
  by (simp add: str_def of_char_def) blast



text \<open>
  C11: removing a file frees its inode and exactly the blocks it owned, data and index block, and
  touches no other entry and no other file; a directory that still has entries is not removed.
\<close>

theorem rm_file:
  assumes "fs_inv w" and "fs_mounted w" and "char_at name 0 \<noteq> 0"
    and "find_slot (entry_named (current_dir_id w) name) (disk w) = Some k" and "is_file (disk w) k"
  shows "\<exists>w'. rexfs_rm name w = Some w' \<and> fs_inv w' \<and> ino_id (slot (disk w') k) = 0 \<and>
    block_used w' = block_used w - owned (disk w) (slot (disk w) k) \<and>
    (\<forall>j<64. j \<noteq> k \<longrightarrow> slot (disk w') j = slot (disk w) j) \<and>
    (\<forall>j<64. j \<noteq> k \<longrightarrow> is_file (disk w) j \<longrightarrow>
       file_bytes (disk w') (slot (disk w') j) = file_bytes (disk w) (slot (disk w) j))"
proof -
  have "ino_type (slot (disk w) k) = 1" using assms(5) by (simp add: is_file_def)
  then obtain w' where w': "rexfs_rm name w = Some w'" "fs_inv w'" "others_kept k w w'" "ino_id (slot (disk w') k) = 0"
    "block_used w' = block_used w - owned (disk w) (slot (disk w) k)"
    using rexfs_rm_found [OF assms(1-4)] assms(5) by auto
  have "file_bytes (disk w') (slot (disk w') j) = file_bytes (disk w) (slot (disk w) j)"
    if "j < 64" "j \<noteq> k" "is_file (disk w) j" for j
    using file_bytes_others [OF w'(3) that] assms(1) that by (auto simp: fs_inv_def slot_ok_def is_file_def)
  then show ?thesis using w' by (auto simp: others_kept_def)
qed

theorem rm_file_witness:
  "\<exists>w'. rexfs_rm (str ''a'') fs_one = Some w' \<and> fs_inv w' \<and> ino_id (slot (disk w') 0) = 0"
proof -
  have "char_at (str ''a'') 0 \<noteq> 0" by (simp add: char_at_def str_def of_char_def)
  moreover have "is_file (disk fs_one) 0"
    using find_slot_Some [OF fs_one_facts(4)] typed_entry_file by blast
  ultimately show ?thesis using rm_file [OF fs_one_facts(1,2), of "str ''a''" 0] fs_one_facts(3,5) by auto
qed

text \<open>
  C14: names longer than 27 characters are stored truncated but compared in full, so no entry with such
  a name is ever found: \<open>touch\<close> does not notice that the entry exists and takes a further inode slot,
  and \<open>rm\<close> with the same name reports that there is no such entry and changes nothing.
\<close>

theorem long_names_lost:
  assumes "fs_inv w" and "fs_mounted w" and "27 < length (cstr name)"
    and "find_slot (\<lambda>ino nm. ino_id ino = 0) (disk w) = Some k"
  shows "slot (disk (rexfs_touch name w)) k = new_inode (2 + k div 8) (k mod 8) 1 (current_dir_id w) name \<and>
    find_slot (entry_named dir name) (disk w) = None \<and>
    (\<exists>w'. rexfs_rm name (rexfs_touch name w) = Some w' \<and> disk w' = disk (rexfs_touch name w))"
proof -
  have none: "find_slot (entry_named dir name) (disk v) = None" if "fs_inv v" for v :: "'a fsworld_scheme" and dir
  proof -
    have "cstr name \<noteq> cstr (ino_name (slot (disk v) j))" if j: "j < 64" "ino_id (slot (disk v) j) \<noteq> 0" for j
    proof -
      have "0 \<in> set (ino_name (slot (disk v) j))" using \<open>fs_inv v\<close> j by (simp add: fs_inv_def slot_ok_def)
      moreover have "length (ino_name (slot (disk v) j)) = 28"
        using \<open>fs_inv v\<close> inode_wf_slot [of "disk v" j] by (simp add: fs_inv_def geom_ok_def inode_wf_def)
      ultimately have "length (cstr (ino_name (slot (disk v) j))) < 28"
        using cstr_shorter by fastforce
      then show ?thesis using assms(3) by auto
    qed
    then show ?thesis using entry_iff [OF that] by (auto simp: find_slot_None)
  qed
  have c0: "char_at name 0 \<noteq> 0" using assms(3) char_at_0 [of name] by auto
  let ?w1 = "rexfs_touch name w"
  have inv1: "fs_inv ?w1" "fs_mounted ?w1"
    using rexfs_create_inv [OF assms(1)] assms(2) by (simp_all add: rexfs_touch_def)
  have d: "disk ?w1 = store_slot k (new_inode (2 + k div 8) (k mod 8) 1 (current_dir_id w) name) (disk w)"
    using create_cases [OF assms(2) c0 assms(1), of 1] none [OF assms(1)] assms(4) by (simp add: rexfs_touch_def)
  have wf: "disk_wf (disk w)" using assms(1) by (simp add: fs_inv_def geom_ok_def)
  obtain w2 where s: "scan_inodes (entry_named (current_dir_id ?w1) name) ?w1 = (None, w2)" "frame {} ?w1 w2"
    using scan_inodes_spec [of "entry_named (current_dir_id ?w1) name" ?w1] none [OF inv1(1)] by auto
  have "rexfs_rm name ?w1 = Some (err ''Error: File or directory not found.'' w2)"
    using inv1(2) c0 s(1) by (simp add: rexfs_rm_def)
  then show ?thesis using slot_store [OF wf, of _ k k] d none [OF assms(1)] frame_quiet [OF s(2)] by simp
qed

theorem long_names_lost_witness:
  "find_slot (entry_named 0 (replicate 28 97)) (disk fs_start) = None \<and>
   (\<exists>w'. rexfs_rm (replicate 28 97) (rexfs_touch (replicate 28 97) fs_start) = Some w')"
proof -
  have "cstr (replicate 28 (97 :: u8)) = replicate 28 97" by (rule cstr_id) auto
  then show ?thesis using long_names_lost [OF fs_start_facts(1,2), of "replicate 28 97" 0] fs_start_free by auto
qed

end
