(* ===== verification/Ports.thy ===== *)
theory Ports
  imports Rexfs
begin

text \<open>
  The I/O ports.  What the hardware answers is not part of the program, so it is a parameter: a value
  of \<open>ports\<close> gives, for a device state of any type, the result of each port instruction and the
  state the device is in afterwards.  \<open>p_mem\<close> is memory as the processor sees it after the transfers
  a bus-mastering device has made on its own.  The state of the machine that drivers work on extends
  the state of the kernel with the device.
\<close>

record 'd ports =
  p_inb :: "u16 \<Rightarrow> 'd \<Rightarrow> u8 \<times> 'd"
  p_inw :: "u16 \<Rightarrow> 'd \<Rightarrow> u16 \<times> 'd"
  p_inl :: "u16 \<Rightarrow> 'd \<Rightarrow> u32 \<times> 'd"
  p_outb :: "u16 \<Rightarrow> u8 \<Rightarrow> 'd \<Rightarrow> 'd"
  p_outw :: "u16 \<Rightarrow> u16 \<Rightarrow> 'd \<Rightarrow> 'd"
  p_outl :: "u16 \<Rightarrow> u32 \<Rightarrow> 'd \<Rightarrow> 'd"
  p_mem :: "'d \<Rightarrow> (nat \<Rightarrow> u8) \<Rightarrow> nat \<Rightarrow> u8"

record 'd dworld = fsworld +
  dev :: 'd

definition inb :: "'d ports \<Rightarrow> u16 \<Rightarrow> ('d, 'a) dworld_scheme \<Rightarrow> u8 \<times> ('d, 'a) dworld_scheme" where
  "inb dv port w = (let (v, d) = p_inb dv port (dev w) in (v, w\<lparr>dev := d\<rparr>))"

definition inw :: "'d ports \<Rightarrow> u16 \<Rightarrow> ('d, 'a) dworld_scheme \<Rightarrow> u16 \<times> ('d, 'a) dworld_scheme" where
  "inw dv port w = (let (v, d) = p_inw dv port (dev w) in (v, w\<lparr>dev := d\<rparr>))"

definition inl :: "'d ports \<Rightarrow> u16 \<Rightarrow> ('d, 'a) dworld_scheme \<Rightarrow> u32 \<times> ('d, 'a) dworld_scheme" where
  "inl dv port w = (let (v, d) = p_inl dv port (dev w) in (v, w\<lparr>dev := d\<rparr>))"

definition outb :: "'d ports \<Rightarrow> u16 \<Rightarrow> u8 \<Rightarrow> ('d, 'a) dworld_scheme \<Rightarrow> ('d, 'a) dworld_scheme" where
  "outb dv port v w = w\<lparr>dev := p_outb dv port v (dev w)\<rparr>"

definition outw :: "'d ports \<Rightarrow> u16 \<Rightarrow> u16 \<Rightarrow> ('d, 'a) dworld_scheme \<Rightarrow> ('d, 'a) dworld_scheme" where
  "outw dv port v w = w\<lparr>dev := p_outw dv port v (dev w)\<rparr>"

definition outl :: "'d ports \<Rightarrow> u16 \<Rightarrow> u32 \<Rightarrow> ('d, 'a) dworld_scheme \<Rightarrow> ('d, 'a) dworld_scheme" where
  "outl dv port v w = w\<lparr>dev := p_outl dv port v (dev w)\<rparr>"

definition dworld0 :: "fsworld \<Rightarrow> 'd \<Rightarrow> 'd dworld" where
  "dworld0 w d = fsworld.extend w \<lparr>dev = d\<rparr>"

text \<open>A port instruction changes nothing but the device.\<close>

lemma port_frame [simp]:
  "dev (outb dv p b w) = p_outb dv p b (dev w)" "dev (outw dv p x w) = p_outw dv p x (dev w)"
  "dev (outl dv p y w) = p_outl dv p y (dev w)"
  "dev (snd (inb dv p w)) = snd (p_inb dv p (dev w))" "fst (inb dv p w) = fst (p_inb dv p (dev w))"
  "dev (snd (inw dv p w)) = snd (p_inw dv p (dev w))" "fst (inw dv p w) = fst (p_inw dv p (dev w))"
  "dev (snd (inl dv p w)) = snd (p_inl dv p (dev w))" "fst (inl dv p w) = fst (p_inl dv p (dev w))"
  by (simp_all add: outb_def outw_def outl_def inb_def inw_def inl_def Let_def split: prod.splits)

end
