(* ===== verification/Pci.thy ===== *)
theory Pci
  imports Ports
begin

text \<open>
  PCI configuration space access and the bus scan (drivers/pci.c).  The configuration mechanism is
  hardware behind the ports 0xCF8 and 0xCFC; \<open>config_mech\<close> states what it does, and under it the scan
  is shown to return the devices that are there.
\<close>

section \<open>Operations\<close>

abbreviation (input) PCI_MAX_DEVICES :: nat where "PCI_MAX_DEVICES \<equiv> 32"

record pci_device =
  pd_bus :: u8
  pd_slot :: u8
  pd_func :: u8
  vendor_id :: u16
  device_id :: u16
  class_code :: u8
  pd_subclass :: u8

definition pci_address :: "u8 \<Rightarrow> u8 \<Rightarrow> u8 \<Rightarrow> u8 \<Rightarrow> u32" where
  "pci_address bus slot func offset =
     0x80000000 OR push_bit 16 (ucast bus) OR push_bit 11 (ucast slot) OR push_bit 8 (ucast func)
       OR (ucast offset AND 0xFC)"

definition pci_read_config32 :: "'d ports \<Rightarrow> u8 \<Rightarrow> u8 \<Rightarrow> u8 \<Rightarrow> u8 \<Rightarrow> ('d, 'a) dworld_scheme \<Rightarrow>
    u32 \<times> ('d, 'a) dworld_scheme" where
  "pci_read_config32 dv bus slot func offset w =
     inl dv 0xCFC (outl dv 0xCF8 (pci_address bus slot func offset) w)"

definition pci_read_config16 :: "'d ports \<Rightarrow> u8 \<Rightarrow> u8 \<Rightarrow> u8 \<Rightarrow> u8 \<Rightarrow> ('d, 'a) dworld_scheme \<Rightarrow>
    u16 \<times> ('d, 'a) dworld_scheme" where
  "pci_read_config16 dv bus slot func offset w =
     (let (value, w1) = pci_read_config32 dv bus slot func offset w
      in (ucast (drop_bit (unat (offset AND 2) * 8) value), w1))"

definition pci_read_config8 :: "'d ports \<Rightarrow> u8 \<Rightarrow> u8 \<Rightarrow> u8 \<Rightarrow> u8 \<Rightarrow> ('d, 'a) dworld_scheme \<Rightarrow>
    u8 \<times> ('d, 'a) dworld_scheme" where
  "pci_read_config8 dv bus slot func offset w =
     (let (value, w1) = pci_read_config32 dv bus slot func offset w
      in (ucast (drop_bit (unat (offset AND 3) * 8) value), w1))"

definition pci_write_config16 :: "'d ports \<Rightarrow> u8 \<Rightarrow> u8 \<Rightarrow> u8 \<Rightarrow> u8 \<Rightarrow> u16 \<Rightarrow> ('d, 'a) dworld_scheme \<Rightarrow>
    ('d, 'a) dworld_scheme" where
  "pci_write_config16 dv bus slot func offset value w =
     (let (current, w1) = pci_read_config32 dv bus slot func offset w;
          shift = unat (offset AND 2) * 8;
          mask = push_bit shift 0xFFFF;
          updated = (current AND NOT mask) OR push_bit shift (ucast value)
      in outl dv 0xCFC updated (outl dv 0xCF8 (pci_address bus slot func offset) w1))"

text \<open>The three loops of the scan; the devices found so far are the filled part of the array \<open>out\<close>.\<close>

fun scan_funcs :: "'d ports \<Rightarrow> nat \<Rightarrow> u8 \<Rightarrow> u8 \<Rightarrow> u8 list \<Rightarrow> pci_device list \<times> ('d, 'a) dworld_scheme \<Rightarrow>
    pci_device list \<times> ('d, 'a) dworld_scheme" where
  "scan_funcs dv mx bus slot [] s = s"
| "scan_funcs dv mx bus slot (func # fs) (out, w) =
     (let (vendor, w1) = pci_read_config16 dv bus slot func 0x00 w in
      if vendor = 0xFFFF then scan_funcs dv mx bus slot fs (out, w1)
      else
        let (out2, w2) =
              (if length out < mx then
                 (let (class_reg, v1) = pci_read_config32 dv bus slot func 0x08 w1;
                      (devid, v2) = pci_read_config16 dv bus slot func 0x02 v1
                  in (out @ [\<lparr>pd_bus = bus, pd_slot = slot, pd_func = func, vendor_id = vendor, device_id = devid,
                       class_code = ucast (drop_bit 24 class_reg AND 0xFF),
                       pd_subclass = ucast (drop_bit 16 class_reg AND 0xFF)\<rparr>], v2))
               else (out, w1));
            (header, w3) = pci_read_config8 dv bus slot func 0x0E w2
        in if header AND 0x80 = 0 then (out2, w3) else scan_funcs dv mx bus slot fs (out2, w3))"

definition scan_slot :: "'d ports \<Rightarrow> nat \<Rightarrow> u8 \<Rightarrow> u8 \<Rightarrow> pci_device list \<times> ('d, 'a) dworld_scheme \<Rightarrow>
    pci_device list \<times> ('d, 'a) dworld_scheme" where
  "scan_slot dv mx bus slot s =
     (let (vendor, w1) = pci_read_config16 dv bus slot 0 0x00 (snd s) in
      if vendor = 0xFFFF then (fst s, w1)
      else scan_funcs dv mx bus slot (map of_nat [0..<8]) (fst s, w1))"

definition pci_scan_devices :: "'d ports \<Rightarrow> nat \<Rightarrow> ('d, 'a) dworld_scheme \<Rightarrow>
    pci_device list \<times> ('d, 'a) dworld_scheme" where
  "pci_scan_devices dv mx w =
     fold (\<lambda>bus. fold (scan_slot dv mx (of_nat bus)) (map of_nat [0..<32])) [0..<256] ([], w)"

definition pci_print_device :: "pci_device \<Rightarrow> 'a kworld_scheme \<Rightarrow> 'a kworld_scheme" where
  "pci_print_device d w =
     (let w1 = kprint_int (uint (pd_slot d)) (kputc 58 (kprint_int (uint (pd_bus d)) (kprint (str ''  '') w)));
          w2 = kprint_hex (ucast (vendor_id d)) (kprint (str ''  ven '') (kprint_int (uint (pd_func d)) (kputc 46 w1)));
          w3 = kprint_hex (ucast (class_code d)) (kprint (str ''  class '')
                 (kprint_hex (ucast (device_id d)) (kprint (str '' dev '') w2)))
      in kputc 10 (kprint_hex (ucast (pd_subclass d)) (kputc 47 w3)))"

definition pci_dump_all :: "'d ports \<Rightarrow> ('d, 'a) dworld_scheme \<Rightarrow> ('d, 'a) dworld_scheme" where
  "pci_dump_all dv w =
     (let (devices, w1) = pci_scan_devices dv PCI_MAX_DEVICES w
      in fold pci_print_device devices
           (kputc 10 (kprint_int (int (length devices)) (kprint (str ''Devices found     : '')
              (kprint_color (str ''--- PCI BUS SCAN ---'' @ [10]) COLOR_YELLOW w1)))))"

section \<open>The devices behind configuration space\<close>

text \<open>
  Configuration mechanism 1: a write to 0xCF8 selects a register, a read of 0xCFC returns it, and
  neither changes the registers.  \<open>cfg d a\<close> is the register with address \<open>a\<close> in device state \<open>d\<close>.
\<close>

definition config_mech :: "'d ports \<Rightarrow> ('d \<Rightarrow> u32) \<Rightarrow> ('d \<Rightarrow> u32 \<Rightarrow> u32) \<Rightarrow> bool" where
  "config_mech dv sel cfg \<longleftrightarrow>
     (\<forall>d a. sel (p_outl dv 0xCF8 a d) = a \<and> cfg (p_outl dv 0xCF8 a d) = cfg d) \<and>
     (\<forall>d. fst (p_inl dv 0xCFC d) = cfg d (sel d) \<and> cfg (snd (p_inl dv 0xCFC d)) = cfg d)"

definition reg32 :: "(u32 \<Rightarrow> u32) \<Rightarrow> u8 \<Rightarrow> u8 \<Rightarrow> u8 \<Rightarrow> u8 \<Rightarrow> u32" where
  "reg32 c bus slot func offset = c (pci_address bus slot func offset)"

definition present :: "(u32 \<Rightarrow> u32) \<Rightarrow> u8 \<Rightarrow> u8 \<Rightarrow> u8 \<Rightarrow> bool" where
  "present c bus slot func \<longleftrightarrow> ucast (reg32 c bus slot func 0) \<noteq> (0xFFFF :: u16)"

definition multifunction :: "(u32 \<Rightarrow> u32) \<Rightarrow> u8 \<Rightarrow> u8 \<Rightarrow> u8 \<Rightarrow> bool" where
  "multifunction c bus slot func \<longleftrightarrow> bit (reg32 c bus slot func 0x0C) 23"

definition describe :: "(u32 \<Rightarrow> u32) \<Rightarrow> u8 \<Rightarrow> u8 \<Rightarrow> u8 \<Rightarrow> pci_device" where
  "describe c bus slot func =
     \<lparr>pd_bus = bus, pd_slot = slot, pd_func = func, vendor_id = ucast (reg32 c bus slot func 0),
      device_id = ucast (drop_bit 16 (reg32 c bus slot func 0)),
      class_code = ucast (drop_bit 24 (reg32 c bus slot func 8)),
      pd_subclass = ucast (drop_bit 16 (reg32 c bus slot func 8))\<rparr>"

text \<open>
  The specification of the scan: in every slot with a function 0, the functions that are present, up
  to and including the first that is not marked multifunction.
\<close>

fun funcs_found :: "(u32 \<Rightarrow> u32) \<Rightarrow> u8 \<Rightarrow> u8 \<Rightarrow> u8 list \<Rightarrow> pci_device list" where
  "funcs_found c bus slot [] = []"
| "funcs_found c bus slot (f # fs) =
     (if \<not> present c bus slot f then funcs_found c bus slot fs
      else describe c bus slot f # (if multifunction c bus slot f then funcs_found c bus slot fs else []))"

definition bus_devices :: "(u32 \<Rightarrow> u32) \<Rightarrow> pci_device list" where
  "bus_devices c = concat (map (\<lambda>bus. concat (map (\<lambda>slot.
     if present c (of_nat bus) slot 0 then funcs_found c (of_nat bus) slot (map of_nat [0..<8]) else [])
       (map of_nat [0..<32]))) [0..<256])"

lemma read_config32_mech:
  assumes "config_mech dv sel cfg"
  shows "fst (pci_read_config32 dv b s f off w) = reg32 (cfg (dev w)) b s f off"
    and "cfg (dev (snd (pci_read_config32 dv b s f off w))) = cfg (dev w)"
  using assms by (simp_all add: config_mech_def pci_read_config32_def reg32_def)

text \<open>A state that differs only in the device, and there not in the registers.\<close>

definition same_cfg :: "('d \<Rightarrow> u32 \<Rightarrow> u32) \<Rightarrow> ('d, 'a) dworld_scheme \<Rightarrow> ('d, 'a) dworld_scheme \<Rightarrow> bool" where
  "same_cfg cfg w v \<longleftrightarrow> (\<exists>d. v = w\<lparr>dev := d\<rparr> \<and> cfg d = cfg (dev w))"

lemma same_cfg_refl [simp]: "same_cfg cfg w w"
  unfolding same_cfg_def by (rule exI [of _ "dev w"]) simp

lemma same_cfg_trans: "same_cfg cfg u v \<Longrightarrow> same_cfg cfg v w \<Longrightarrow> same_cfg cfg u w"
  by (auto simp: same_cfg_def)

lemma same_cfg_dev: "same_cfg cfg w v \<Longrightarrow> cfg (dev v) = cfg (dev w)"
  by (auto simp: same_cfg_def)

text \<open>Each read returns the register and changes the device only.\<close>

lemma read_config_mech:
  assumes "config_mech dv sel cfg" and "same_cfg cfg w v"
  shows "\<exists>v'. pci_read_config32 dv b s f off v = (reg32 (cfg (dev w)) b s f off, v') \<and> same_cfg cfg w v'"
    and "\<exists>v'. pci_read_config16 dv b s f off v =
      (ucast (drop_bit (unat (off AND 2) * 8) (reg32 (cfg (dev w)) b s f off)), v') \<and> same_cfg cfg w v'"
    and "\<exists>v'. pci_read_config8 dv b s f off v =
      (ucast (drop_bit (unat (off AND 3) * 8) (reg32 (cfg (dev w)) b s f off)), v') \<and> same_cfg cfg w v'"
proof -
  let ?r = "pci_read_config32 dv b s f off v"
  have "\<exists>d. snd ?r = v\<lparr>dev := d\<rparr>"
    by (auto simp: pci_read_config32_def inl_def outl_def Let_def split: prod.splits)
  then have "same_cfg cfg v (snd ?r)"
    using read_config32_mech(2) [OF assms(1), of b s f off v] by (auto simp: same_cfg_def)
  then have s: "same_cfg cfg w (snd ?r)" by (rule same_cfg_trans [OF assms(2)])
  have v: "fst ?r = reg32 (cfg (dev w)) b s f off"
    using read_config32_mech(1) [OF assms(1), of b s f off v] same_cfg_dev [OF assms(2)] by simp
  then show "\<exists>v'. ?r = (reg32 (cfg (dev w)) b s f off, v') \<and> same_cfg cfg w v'"
    using s by (metis prod.collapse)
  then show "\<exists>v'. pci_read_config16 dv b s f off v =
      (ucast (drop_bit (unat (off AND 2) * 8) (reg32 (cfg (dev w)) b s f off)), v') \<and> same_cfg cfg w v'"
    "\<exists>v'. pci_read_config8 dv b s f off v =
      (ucast (drop_bit (unat (off AND 3) * 8) (reg32 (cfg (dev w)) b s f off)), v') \<and> same_cfg cfg w v'"
    by (auto simp: pci_read_config16_def pci_read_config8_def)
qed

lemma header_bit: "(ucast (drop_bit 16 (r :: u32)) :: u8) AND 0x80 = 0 \<longleftrightarrow> \<not> bit r 23"
proof -
  have "(ucast (drop_bit 16 r) :: u8) AND 0x80 = of_bool (bit r 23) * 0x80"
  proof (rule bit_word_eqI)
    fix n :: nat
    assume "n < LENGTH(8)"
    then have "n \<in> {0, 1, 2, 3, 4, 5, 6, 7}" by auto
    then show "bit ((ucast (drop_bit 16 r) :: u8) AND 0x80) n = bit (of_bool (bit r 23) * 0x80 :: u8) n"
      by (cases "bit r 23") (auto simp: bit_simps bit_numeral_rec)
  qed
  then show ?thesis by (cases "bit r 23") auto
qed

lemma address_of_half: "pci_address b s f 0x02 = pci_address b s f 0" "pci_address b s f 0x0E = pci_address b s f 0x0C"
  by (simp_all add: pci_address_def)

lemma low_byte: "(ucast (drop_bit n (r :: u32) AND 0xFF) :: u8) = ucast (drop_bit n r)"
proof -
  have e: "(0xFF :: u32) = mask 8" by (simp add: mask_eq_exp_minus_1)
  show ?thesis unfolding e by (rule bit_word_eqI) (auto simp: bit_simps)
qed

section \<open>The scan\<close>

lemma take_take_append: "take n (take n xs @ ys) = take n (xs @ ys)"
  by (cases "n \<le> length xs") simp_all

lemma scan_funcs_spec:
  assumes mech: "config_mech dv sel cfg" and "same_cfg cfg w v" and "length out \<le> mx"
  shows "\<exists>v'. scan_funcs dv mx b s fs (out, v) = (take mx (out @ funcs_found (cfg (dev w)) b s fs), v') \<and> same_cfg cfg w v'"
  using assms(2,3)
proof (induction fs arbitrary: out v)
  case (Cons f fs)
  let ?c = "cfg (dev w)"
  note rd = read_config_mech [OF mech]
  obtain v1 where v1: "pci_read_config16 dv b s f 0 v = (ucast (reg32 ?c b s f 0), v1)" "same_cfg cfg w v1"
    using rd(2) [OF Cons.prems(1), of b s f 0] by auto
  show ?case
  proof (cases "present ?c b s f")
    case False
    then show ?thesis using Cons.IH [OF v1(2) Cons.prems(2)] v1(1) by (simp add: present_def)
  next
    case True
    define out2 where "out2 = take mx (out @ [describe ?c b s f])"
    obtain va where va: "pci_read_config32 dv b s f 8 v1 = (reg32 ?c b s f 8, va)" "same_cfg cfg w va"
      using rd(1) [OF v1(2), of b s f 8] by auto
    obtain vb where vb: "pci_read_config16 dv b s f 2 va = (ucast (drop_bit 16 (reg32 ?c b s f 0)), vb)" "same_cfg cfg w vb"
      using rd(2) [OF va(2), of b s f 2] by (auto simp: reg32_def address_of_half)
    define v2 where "v2 = (if length out < mx then vb else v1)"
    have v2: "same_cfg cfg w v2" using v1 vb by (simp add: v2_def)
    obtain v3 where v3: "pci_read_config8 dv b s f 0xE v2 = (ucast (drop_bit 16 (reg32 ?c b s f 0xC)), v3)" "same_cfg cfg w v3"
      using rd(3) [OF v2, of b s f "0xE"] by (auto simp: reg32_def address_of_half)
    have step: "scan_funcs dv mx b s (f # fs) (out, v) =
        (if multifunction ?c b s f then scan_funcs dv mx b s fs (out2, v3) else (out2, v3))"
      using True v1(1) va(1) vb(1) v3(1) Cons.prems(2)
      by (auto simp: present_def multifunction_def header_bit out2_def v2_def describe_def low_byte)
    have "length out2 \<le> mx" by (simp add: out2_def)
    from Cons.IH [OF v3(2) this] obtain v' where
      "scan_funcs dv mx b s fs (out2, v3) = (take mx (out2 @ funcs_found ?c b s fs), v')" "same_cfg cfg w v'" by blast
    then show ?thesis unfolding step using True v3(2)
      by (cases "multifunction ?c b s f") (simp_all add: out2_def take_take_append del: take_append)
  qed
qed simp

lemma scan_slot_spec:
  assumes mech: "config_mech dv sel cfg" and "same_cfg cfg w v" and "length out \<le> mx"
  shows "\<exists>v'. scan_slot dv mx b s (out, v) =
     (take mx (out @ (if present (cfg (dev w)) b s 0 then funcs_found (cfg (dev w)) b s (map of_nat [0..<8]) else [])), v') \<and> same_cfg cfg w v'"
proof -
  obtain v1 where v1: "pci_read_config16 dv b s 0 0 v = (ucast (reg32 (cfg (dev w)) b s 0 0), v1)" "same_cfg cfg w v1"
    using read_config_mech(2) [OF mech assms(2), of b s 0 0] by auto
  show ?thesis
    using scan_funcs_spec [OF mech v1(2) assms(3), of b s "map of_nat [0..<8]"] v1 assms(3)
    by (simp add: scan_slot_def present_def del: upt_Suc)
qed

lemma fold_take_spec:
  assumes step: "\<And>x out v. x \<in> set xs \<Longrightarrow> R v \<Longrightarrow> length out \<le> mx \<Longrightarrow>
      \<exists>v'. f x (out, v) = (take mx (out @ g x), v') \<and> R v'"
  shows "R v \<Longrightarrow> length out \<le> mx \<Longrightarrow> \<exists>v'. fold f xs (out, v) = (take mx (out @ concat (map g xs)), v') \<and> R v'"
  using step
proof (induction xs arbitrary: out v)
  case (Cons x xs)
  obtain v1 where v1: "f x (out, v) = (take mx (out @ g x), v1)" "R v1"
    using Cons.prems(3) [of x v out] Cons.prems(1,2) by auto
  have "\<exists>v'. fold f xs (take mx (out @ g x), v1) = (take mx (take mx (out @ g x) @ concat (map g xs)), v') \<and> R v'"
    using Cons.prems(3) by (intro Cons.IH v1(2)) auto
  then obtain v' where "fold f xs (take mx (out @ g x), v1) = (take mx (out @ g x @ concat (map g xs)), v')" "R v'"
    unfolding take_take_append append.assoc by blast
  then show ?case using v1(1) by (simp del: take_append)
qed simp

lemma pci_scan_spec:
  assumes "config_mech dv sel cfg"
  shows "\<exists>v. pci_scan_devices dv mx w = (take mx (bus_devices (cfg (dev w))), v) \<and> same_cfg cfg w v"
proof -
  let ?c = "cfg (dev w)"
  let ?slot = "\<lambda>bus slot. if present ?c bus slot 0 then funcs_found ?c bus slot (map of_nat [0..<8]) else []"
  have A: "\<exists>v'. fold (scan_slot dv mx (of_nat bus)) (map of_nat [0..<32]) (out, v) =
      (take mx (out @ concat (map (?slot (of_nat bus)) (map of_nat [0..<32]))), v') \<and> same_cfg cfg w v'"
    if "same_cfg cfg w v" "length out \<le> mx" for bus :: nat and out v
    by (rule fold_take_spec [where R = "same_cfg cfg w"]) (use that scan_slot_spec [OF assms] in blast)+
  have "\<exists>v'. fold (\<lambda>bus. fold (scan_slot dv mx (of_nat bus)) (map of_nat [0..<32])) [0..<256] ([], w) =
      (take mx ([] @ concat (map (\<lambda>bus. concat (map (?slot (of_nat bus)) (map of_nat [0..<32]))) [0..<256])), v') \<and> same_cfg cfg w v'"
    by (rule fold_take_spec [where R = "same_cfg cfg w"]) (rule A, simp_all)
  then show ?thesis by (simp add: pci_scan_devices_def bus_devices_def del: upt_Suc)
qed

section \<open>Properties\<close>


text \<open>A bus with one function: vendor 0x10EC, device 0x8139 in slot 3.\<close>

definition one_card :: "u32 \<Rightarrow> u32" where
  "one_card a = (if a = 0x80001800 then 0x813910EC else if a = 0x80001808 then 0x02000010
     else if a = 0x8000180C then 0 else 0xFFFFFFFF)"

definition card_ports :: "(u32 \<times> (u32 \<Rightarrow> u32)) ports" where
  "card_ports = \<lparr>p_inb = (\<lambda>p d. (0, d)), p_inw = (\<lambda>p d. (0, d)),
     p_inl = (\<lambda>p d. (if p = 0xCFC then snd d (fst d) else 0, d)),
     p_outb = (\<lambda>p v d. d), p_outw = (\<lambda>p v d. d),
     p_outl = (\<lambda>p v d. if p = 0xCF8 then (v, snd d) else d), p_mem = (\<lambda>d m. m)\<rparr>"

lemma card_mech: "config_mech card_ports fst snd"
  by (simp add: config_mech_def card_ports_def)


lemma halves:
  fixes c :: u32 and v :: u16
  assumes "sh \<in> {0, 16}"
  shows "ucast (drop_bit sh ((c AND NOT (push_bit sh 0xFFFF)) OR push_bit sh (ucast v))) = v"
    and "(ucast (drop_bit (16 - sh) ((c AND NOT (push_bit sh 0xFFFF)) OR push_bit sh (ucast v))) :: u16) =
      ucast (drop_bit (16 - sh) c)"
proof -
  have e: "(0xFFFF :: u32) = mask 16" by (simp add: mask_eq_exp_minus_1)
  show "ucast (drop_bit sh ((c AND NOT (push_bit sh 0xFFFF)) OR push_bit sh (ucast v))) = v"
    unfolding e using assms by (intro bit_word_eqI) (auto simp: bit_simps)
  show "(ucast (drop_bit (16 - sh) ((c AND NOT (push_bit sh 0xFFFF)) OR push_bit sh (ucast v))) :: u16) =
      ucast (drop_bit (16 - sh) c)"
    unfolding e using assms by (intro bit_word_eqI) (auto simp: bit_simps dest: bit_imp_le_length)
qed

lemma half_select:
  fixes off :: u8
  shows "unat (off AND 2) * 8 \<in> {0, 16}" and "unat ((off XOR 2) AND 2) * 8 = 16 - unat (off AND 2) * 8"
proof -
  have two: "x AND 2 = of_bool (bit x 1) * 2" for x :: u8
  proof (rule bit_word_eqI)
    fix n :: nat
    assume "n < LENGTH(8)"
    then have "n \<in> {0, 1, 2, 3, 4, 5, 6, 7}" by auto
    then show "bit (x AND 2) n = bit (of_bool (bit x 1) * 2 :: u8) n"
      by (cases "bit x 1") (auto simp: bit_simps bit_numeral_rec)
  qed
  show "unat (off AND 2) * 8 \<in> {0, 16}" by (simp add: two)
  show "unat ((off XOR 2) AND 2) * 8 = 16 - unat (off AND 2) * 8"
    by (simp add: two bit_xor_iff)
qed

lemma address_other_half: "pci_address b s f (off XOR 2) = pci_address b s f off"
proof -
  have "(off XOR 2) AND 0xFC = off AND 0xFC"
  proof (rule bit_word_eqI)
    fix n :: nat
    assume "n < LENGTH(8)"
    then have "n \<in> {0, 1, 2, 3, 4, 5, 6, 7}" by auto
    then show "bit ((off XOR 2) AND 0xFC) n = bit (off AND 0xFC) n" by (auto simp: bit_simps bit_numeral_rec)
  qed
  moreover have "ucast x AND (0xFC :: u32) = ucast (x AND 0xFC)" for x :: u8 by (simp add: unsigned_and_eq)
  ultimately show ?thesis by (simp add: pci_address_def)
qed

text \<open>
  \<open>pci_write_config16\<close> replaces exactly the 16 bits it addresses: on registers that store what
  is written, reading the half word back gives the value written and the other half is unchanged.
\<close>

theorem pci_write_config16_correct:
  assumes mech: "config_mech dv sel cfg"
    and store: "\<And>d v. cfg (p_outl dv 0xCFC v d) = (cfg d)(sel d := v)"
  shows "fst (pci_read_config16 dv b s f off (pci_write_config16 dv b s f off v w)) = v \<and>
    fst (pci_read_config16 dv b s f (off XOR 2) (pci_write_config16 dv b s f off v w)) =
      fst (pci_read_config16 dv b s f (off XOR 2) w)"
proof -
  let ?a = "pci_address b s f off"
  let ?sh = "unat (off AND 2) * 8"
  let ?u = "(cfg (dev w) ?a AND NOT (push_bit ?sh 0xFFFF)) OR push_bit ?sh (ucast v)"
  let ?w = "pci_write_config16 dv b s f off v w"
  have rd: "fst (pci_read_config16 dv b s f o' u) = ucast (drop_bit (unat (o' AND 2) * 8) (cfg (dev u) (pci_address b s f o')))"
    for o' and u :: "('a, 'b) dworld_scheme"
    using read_config32_mech(1) [OF mech, of b s f o' u]
    by (auto simp: pci_read_config16_def reg32_def Let_def split: prod.splits)
  have "cfg (dev ?w) = (cfg (dev w))(?a := ?u)"
    using read_config32_mech [OF mech, of b s f off w] mech
    by (auto simp: pci_write_config16_def Let_def store config_mech_def reg32_def split: prod.splits)
  then show ?thesis
    using halves [OF half_select(1) [of off]] by (simp add: rd address_other_half half_select(2))
qed

theorem pci_write_config16_correct_witness:
  "\<exists>w. fst (pci_read_config16 (card_ports\<lparr>p_outl := \<lambda>p v d. if p = 0xCF8 then (v, snd d) else (fst d, (snd d)(fst d := v))\<rparr>)
     0 3 0 4 (pci_write_config16 (card_ports\<lparr>p_outl := \<lambda>p v d. if p = 0xCF8 then (v, snd d) else (fst d, (snd d)(fst d := v))\<rparr>)
       0 3 0 4 5 (w :: (u32 \<times> (u32 \<Rightarrow> u32)) dworld))) = 5"
proof -
  let ?dv = "card_ports\<lparr>p_outl := \<lambda>p v d. if p = 0xCF8 then (v, snd d) else (fst d, (snd d)(fst d := v))\<rparr>"
  have "config_mech ?dv fst snd" by (simp add: config_mech_def card_ports_def)
  moreover have "\<And>d v. snd (p_outl ?dv 0xCFC v d) = (snd d)(fst d := v)" by simp
  ultimately show ?thesis using pci_write_config16_correct [of ?dv fst snd 0 3 0 4 5 "dworld0 (fsworld0 (\<lambda>_. 0) 0x200000) (0, one_card)"] by blast
qed

end
