(* ===== verification/Hal.thy ===== *)
theory Hal
  imports Ports
begin

text \<open>
  Processor tables: the global descriptor table and the task state segment (hal/gdt.c), the interrupt
  descriptor table (hal/idt.c) and the boot page tables (mm/vmm.c).

  Addresses the linker assigns (of the tables themselves and of the interrupt stubs) are parameters.
  \<open>gdtr\<close>, \<open>idtr\<close>, \<open>task_reg\<close> and \<open>cr0\<close> are processor registers; \<open>cr3\<close> and the \<open>esp0\<close> field of the
  task state segment belong to the scheduler's state.  A kernel panic, which halts, is the value
  \<open>Inl\<close> of the state it prints its message in.
\<close>

section \<open>State\<close>

record gdt_entry =
  limit_low :: u16
  base_low :: u16
  base_middle :: u8
  g_access :: u8
  granularity :: u8
  base_high :: u8

record tss_entry_struct =
  tss_link :: u32
  ss0 :: u32
  esp1 :: u32
  ss1 :: u32
  esp2 :: u32
  ss2 :: u32
  tss_cr3 :: u32
  tss_eip :: u32
  tss_eflags :: u32
  tss_regs :: "u32 list"
  tss_es :: u32
  tss_cs :: u32
  tss_ss :: u32
  tss_ds :: u32
  tss_fs :: u32
  tss_gs :: u32
  tss_ldt :: u32
  tss_trap :: u16
  iomap_base :: u16

record idt_entry =
  isr_low :: u16
  kernel_cs :: u16
  idt_reserved :: u8
  attributes :: u8
  isr_high :: u16

record 'd halworld = "'d dworld" +
  gdt :: "gdt_entry list"
  tss_entry :: tss_entry_struct
  gdtr :: "u16 \<times> u32"
  task_reg :: u16
  idt :: "idt_entry list"
  idtr :: "u16 \<times> u32"
  cr0 :: u32
  boot_page_directory :: "u32 list"
  boot_page_table :: "u32 list"
  kernel_page_directory :: nat

definition zero_gdt :: gdt_entry where
  "zero_gdt = \<lparr>limit_low = 0, base_low = 0, base_middle = 0, g_access = 0, granularity = 0, base_high = 0\<rparr>"

definition zero_tss :: tss_entry_struct where
  "zero_tss = \<lparr>tss_link = 0, ss0 = 0, esp1 = 0, ss1 = 0, esp2 = 0, ss2 = 0, tss_cr3 = 0, tss_eip = 0, tss_eflags = 0,
     tss_regs = replicate 8 0, tss_es = 0, tss_cs = 0, tss_ss = 0, tss_ds = 0, tss_fs = 0, tss_gs = 0, tss_ldt = 0,
     tss_trap = 0, iomap_base = 0\<rparr>"

definition zero_idt :: idt_entry where
  "zero_idt = \<lparr>isr_low = 0, kernel_cs = 0, idt_reserved = 0, attributes = 0, isr_high = 0\<rparr>"

definition halworld0 :: "'d dworld \<Rightarrow> 'd halworld" where
  "halworld0 w = dworld.extend w
     \<lparr>gdt = replicate 6 zero_gdt, tss_entry = zero_tss, gdtr = (0, 0), task_reg = 0, idt = replicate 256 zero_idt,
      idtr = (0, 0), cr0 = 1, boot_page_directory = replicate 1024 0, boot_page_table = replicate 1024 0,
      kernel_page_directory = 0\<rparr>"

section \<open>Global descriptor table\<close>

definition gdt_descriptor :: "u32 \<Rightarrow> u32 \<Rightarrow> u8 \<Rightarrow> u8 \<Rightarrow> gdt_entry" where
  "gdt_descriptor base limit access gran =
     \<lparr>limit_low = ucast (limit AND 0xFFFF), base_low = ucast (base AND 0xFFFF),
      base_middle = ucast (drop_bit 16 base AND 0xFF), g_access = access,
      granularity = ucast (drop_bit 16 limit AND 0x0F) OR (gran AND 0xF0),
      base_high = ucast (drop_bit 24 base AND 0xFF)\<rparr>"

definition gdt_set_gate :: "nat \<Rightarrow> u32 \<Rightarrow> u32 \<Rightarrow> u8 \<Rightarrow> u8 \<Rightarrow> ('d, 'a) halworld_scheme \<Rightarrow> ('d, 'a) halworld_scheme" where
  "gdt_set_gate num base limit access gran w = w\<lparr>gdt := (gdt w)[num := gdt_descriptor base limit access gran]\<rparr>"

abbreviation (input) SIZEOF_TSS :: u32 where "SIZEOF_TSS \<equiv> 104"

definition write_tss :: "u32 \<Rightarrow> nat \<Rightarrow> u16 \<Rightarrow> nat \<Rightarrow> ('d, 'a) halworld_scheme \<Rightarrow> ('d, 'a) halworld_scheme" where
  "write_tss tss_addr num ss0_sel esp0 w =
     (let base = tss_addr; limit = base + SIZEOF_TSS - 1; w1 = gdt_set_gate num base limit 0x89 0x40 w
      in w1\<lparr>tss_entry := zero_tss\<lparr>ss0 := ucast ss0_sel, tss_cs := 0x0B, tss_ss := 0x13, tss_es := 0x13, tss_ds := 0x13,
              tss_fs := 0x13, tss_gs := 0x13, iomap_base := ucast SIZEOF_TSS\<rparr>,
            tss_esp0 := esp0\<rparr>)"

definition set_kernel_stack :: "nat \<Rightarrow> 'a sworld_scheme \<Rightarrow> 'a sworld_scheme" where
  "set_kernel_stack stack w = w\<lparr>tss_esp0 := stack\<rparr>"

definition init_gdt :: "u32 \<Rightarrow> u32 \<Rightarrow> ('d, 'a) halworld_scheme \<Rightarrow> ('d, 'a) halworld_scheme" where
  "init_gdt gdt_addr tss_addr w =
     (let w1 = gdt_set_gate 0 0 0 0 0 w;
          w2 = gdt_set_gate 1 0 0xFFFFFFFF 0x9A 0xCF w1;
          w3 = gdt_set_gate 2 0 0xFFFFFFFF 0x92 0xCF w2;
          w4 = gdt_set_gate 3 0 0xFFFFFFFF 0xFA 0xCF w3;
          w5 = gdt_set_gate 4 0 0xFFFFFFFF 0xF2 0xCF w4;
          w6 = write_tss tss_addr 5 0x10 0 w5
      in w6\<lparr>gdtr := (8 * 6 - 1, gdt_addr), task_reg := 0x2B\<rparr>)"

section \<open>Interrupt descriptor table\<close>

definition idt_gate :: "u8 \<Rightarrow> u32 \<Rightarrow> idt_entry" where
  "idt_gate attr isr_address =
     \<lparr>isr_low = ucast (isr_address AND 0xFFFF), kernel_cs = 0x08, idt_reserved = 0, attributes = attr,
      isr_high = ucast (drop_bit 16 isr_address AND 0xFFFF)\<rparr>"

definition set_idt_gate_user :: "u8 \<Rightarrow> u32 \<Rightarrow> ('d, 'a) halworld_scheme \<Rightarrow> ('d, 'a) halworld_scheme" where
  "set_idt_gate_user vector isr_address w = w\<lparr>idt := (idt w)[unat vector := idt_gate 0xEE isr_address]\<rparr>"

definition set_idt_gate :: "u8 \<Rightarrow> u32 \<Rightarrow> ('d, 'a) halworld_scheme \<Rightarrow> ('d, 'a) halworld_scheme" where
  "set_idt_gate vector isr_address w = w\<lparr>idt := (idt w)[unat vector := idt_gate 0x8E isr_address]\<rparr>"

record stubs =
  default_isr :: u32
  timer_isr :: u32
  keyboard_isr :: u32
  mouse_isr :: u32
  syscall_isr :: u32

definition pic_commands :: "(u16 \<times> u8) list" where
  "pic_commands = [(0x20, 0x11), (0xA0, 0x11), (0x21, 0x20), (0xA1, 0x28), (0x21, 0x04), (0xA1, 0x02), (0x21, 0x01), (0xA1, 0x01)]"

definition init_idt :: "'d ports \<Rightarrow> u32 \<Rightarrow> stubs \<Rightarrow> ('d, 'a) halworld_scheme \<Rightarrow> ('d, 'a) halworld_scheme" where
  "init_idt dv idt_addr st w =
     (let w1 = fold (\<lambda>(port, v). outb dv port v) pic_commands w;
          w2 = fold (\<lambda>i. set_idt_gate (of_nat i) (default_isr st)) [0..<256] w1;
          w3 = set_idt_gate_user 128 (syscall_isr st)
                 (set_idt_gate 44 (mouse_isr st) (set_idt_gate 33 (keyboard_isr st) (set_idt_gate 32 (timer_isr st) w2)));
          w4 = outb dv 0xA1 0xEF (outb dv 0x21 0xF8 w3)
      in w4\<lparr>idtr := (8 * 256 - 1, idt_addr)\<rparr>)"

definition default_isr_handler :: "'a kworld_scheme \<Rightarrow> 'a kworld_scheme" where
  "default_isr_handler w = kprint ([10] @ str ''[HW TRAP] Captured unhandled interrupt trace. System locked safely.'' @ [10]) w"

section \<open>Paging\<close>

abbreviation (input) IDENTITY_MAP_PAGES :: nat where "IDENTITY_MAP_PAGES \<equiv> 1024"
abbreviation (input) PTE_PRESENT :: u32 where "PTE_PRESENT \<equiv> 1"
abbreviation (input) PTE_READ_WRITE :: u32 where "PTE_READ_WRITE \<equiv> 2"

definition paging_report_pre :: "u32 \<Rightarrow> u32 \<Rightarrow> u32 \<Rightarrow> 'a kworld_scheme \<Rightarrow> 'a kworld_scheme" where
  "paging_report_pre pd_addr pt_addr cr3_phys w =
     (let w1 = kprint_hex cr3_phys (kprint (str ''CR3 (configured)  : '')
                 (kprint_color (str ''--- PAGING REPORT (PRE-ENABLE STATE) ---'' @ [10]) COLOR_LIGHT_CYAN w));
          w2 = kprint_hex pt_addr (kprint ([10] @ str ''Page Table        : '')
                 (kprint_hex pd_addr (kprint ([10] @ str ''Page Directory    : '') w1)));
          w3 = kprint_hex 0x3FFFFF (kprint ([10] @ str ''Identity map      : 0x00000000 - 0x'') w2)
      in kprint (str '' pages)'' @ [10]) (kprint_hex 1024 (kprint (str '' ('') w3)))"

definition paging_report_post :: "u32 \<Rightarrow> ('d, 'a) halworld_scheme \<Rightarrow> ('d, 'a) halworld_scheme" where
  "paging_report_post cr3_phys w =
     (let w1 = kprint_hex cr3_phys (kprint (str ''CR3 (active)      : '')
                 (kprint_color (str ''--- PAGING REPORT (ACTIVE STATE) ---'' @ [10]) COLOR_LIGHT_GREEN w));
          w2 = kprint_color (if cr0 w1 AND 0x80000000 \<noteq> 0 then str ''ENABLED'' @ [10] else str ''DISABLED'' @ [10]) COLOR_YELLOW
                 (kprint ([10] @ str ''CR0 PG bit        : '') w1);
          w3 = kprint_hex 0x3FFFFF (kprint (str ''Identity map      : 0x00000000 - 0x'') w2)
      in kprint_color (str '' CONFIRMED'' @ [10]) COLOR_LIGHT_GREEN w3)"

definition vmm_dump_info :: "u32 \<Rightarrow> u32 \<Rightarrow> ('d, 'a) halworld_scheme \<Rightarrow> ('d, 'a) halworld_scheme" where
  "vmm_dump_info pd_addr pt_addr w =
     (let c = of_nat (cr3 w) in paging_report_post c (paging_report_pre pd_addr pt_addr c w))"

definition panic :: "string \<Rightarrow> 'a kworld_scheme \<Rightarrow> 'a kworld_scheme" where
  "panic msg w = con_update (kernel_panic (str msg)) w"

definition vmm_init :: "u32 \<Rightarrow> u32 \<Rightarrow> ('d, 'a) halworld_scheme \<Rightarrow> ('d, 'a) halworld_scheme + ('d, 'a) halworld_scheme" where
  "vmm_init pd_phys pt_phys w =
     (if pd_phys AND 0xFFF \<noteq> 0 \<or> pt_phys AND 0xFFF \<noteq> 0 then Inl (panic ''VMM: page tables not 4KB aligned'' w)
      else
        let pt = fold (\<lambda>i t. t[i := (of_nat i * 4096) OR PTE_PRESENT OR PTE_READ_WRITE]) [0..<IDENTITY_MAP_PAGES] (replicate 1024 0);
            pd = (replicate 1024 0)[0 := pt_phys OR PTE_PRESENT OR PTE_READ_WRITE];
            w1 = w\<lparr>boot_page_directory := pd, boot_page_table := pt, kernel_page_directory := unat pd_phys,
                   cr3 := unat pd_phys, cr0 := cr0 w OR 0x80000000\<rparr>
        in if cr3 w1 \<noteq> unat pd_phys then Inl (panic ''VMM: CR3 mismatch after paging enable'' w1)
           else if cr0 w1 AND 0x80000000 = 0 then Inl (panic ''VMM: CR0.PG not set after paging enable'' w1)
           else if boot_page_table w1 ! 0 AND PTE_PRESENT = 0 \<or> boot_page_table w1 ! (IDENTITY_MAP_PAGES - 1) AND PTE_PRESENT = 0
           then Inl (panic ''VMM: identity map PTE check failed'' w1)
           else Inr w1)"

section \<open>What the processor reads\<close>

definition seg_base :: "gdt_entry \<Rightarrow> u32" where
  "seg_base e = ucast (base_low e) OR push_bit 16 (ucast (base_middle e)) OR push_bit 24 (ucast (base_high e))"

definition seg_limit :: "gdt_entry \<Rightarrow> u32" where
  "seg_limit e = ucast (limit_low e) OR push_bit 16 (ucast (granularity e) AND 0xF)"

definition seg_flags :: "gdt_entry \<Rightarrow> u8" where
  "seg_flags e = granularity e AND 0xF0"

text \<open>Privilege level, executable bit and present bit of the access byte.\<close>

definition seg_dpl :: "gdt_entry \<Rightarrow> nat" where
  "seg_dpl e = unat (g_access e) div 32 mod 4"

definition seg_code :: "gdt_entry \<Rightarrow> bool" where
  "seg_code e \<longleftrightarrow> bit (g_access e) 4 \<and> bit (g_access e) 3"

definition seg_data :: "gdt_entry \<Rightarrow> bool" where
  "seg_data e \<longleftrightarrow> bit (g_access e) 4 \<and> \<not> bit (g_access e) 3 \<and> bit (g_access e) 1"

definition gate_offset :: "idt_entry \<Rightarrow> u32" where
  "gate_offset e = ucast (isr_low e) OR push_bit 16 (ucast (isr_high e))"

text \<open>The two-level walk of the page tables; other tables are not present in this address space.\<close>

definition page_walk :: "u32 \<Rightarrow> ('d, 'a) halworld_scheme \<Rightarrow> u32 \<Rightarrow> (u32 \<times> bool) option" where
  "page_walk pt_phys w a =
     (let pde = boot_page_directory w ! unat (drop_bit 22 a) in
      if pde AND 1 = 0 \<or> pde AND NOT 0xFFF \<noteq> pt_phys then None
      else let pte = boot_page_table w ! unat (drop_bit 12 a AND 0x3FF) in
        if pte AND 1 = 0 then None
        else Some ((pte AND NOT 0xFFF) OR (a AND 0xFFF), pde AND 4 \<noteq> 0 \<and> pte AND 4 \<noteq> 0))"

lemma ff_masks:
  "(0xFF :: u32) = mask 8" "(0xFFFF :: u32) = mask 16" "(0xF :: u32) = mask 4" "(0xFFF :: u32) = mask 12"
  "(0xFFFFF :: u32) = mask 20" "(0x3FF :: u32) = mask 10"
  by (simp_all add: mask_eq_exp_minus_1)

lemma gate_of_gate: "gate_offset (idt_gate attr a) = a"
  unfolding gate_offset_def idt_gate_def idt_entry.simps ff_masks
  by (rule bit_word_eqI) (auto simp: bit_simps)

lemma idt_gate_simps [simp]:
  "kernel_cs (idt_gate attr a) = 8" "attributes (idt_gate attr a) = attr" "idt_reserved (idt_gate attr a) = 0"
  by (simp_all add: idt_gate_def)

lemma gran_low: "ucast (ucast (drop_bit 16 (limit :: u32) AND 0x0F) OR (gran AND 0xF0) :: u8) AND (0xF :: u32) = drop_bit 16 limit AND 0xF"
proof (rule bit_word_eqI)
  fix n :: nat
  assume "n < LENGTH(32)"
  consider "n \<in> {0, 1, 2, 3}" | "n \<ge> 4" by force
  then show "bit (ucast (ucast (drop_bit 16 limit AND 0x0F) OR (gran AND 0xF0) :: u8) AND (0xF :: u32)) n = bit (drop_bit 16 limit AND 0xF) n"
  proof cases
    case 1
    then show ?thesis by (auto simp: bit_simps bit_numeral_rec)
  next
    case 2
    then show ?thesis unfolding ff_masks by (simp add: bit_simps)
  qed
qed

lemma gran_high: "(ucast (drop_bit 16 (limit :: u32) AND 0x0F) OR (gran AND 0xF0) :: u8) AND 0xF0 = gran AND 0xF0"
proof (rule bit_word_eqI)
  fix n :: nat
  assume "n < LENGTH(8)"
  then have "n \<in> {0, 1, 2, 3, 4, 5, 6, 7}" by auto
  then show "bit ((ucast (drop_bit 16 limit AND 0x0F) OR (gran AND 0xF0) :: u8) AND 0xF0) n = bit (gran AND 0xF0) n"
    by (auto simp: bit_simps bit_numeral_rec)
qed

lemma base_bytes:
  "ucast (ucast ((b :: u32) AND 0xFFFF) :: u16) OR push_bit 16 (ucast (ucast (drop_bit 16 b AND 0xFF) :: u8))
     OR push_bit 24 (ucast (ucast (drop_bit 24 b AND 0xFF) :: u8)) = b"
  unfolding ff_masks
proof (rule bit_word_eqI)
  fix n :: nat
  assume "n < LENGTH(32)"
  then consider "n < 16" | "16 \<le> n" "n < 24" | "24 \<le> n" "n < 32" by fastforce
  then show "bit (ucast (ucast (b AND mask 16) :: u16) OR push_bit 16 (ucast (ucast (drop_bit 16 b AND mask 8) :: u8))
     OR push_bit 24 (ucast (ucast (drop_bit 24 b AND mask 8) :: u8)) :: u32) n = bit b n"
    by cases (auto simp: bit_simps)
qed

lemma gdt_descriptor_read [simp]:
  "seg_base (gdt_descriptor base limit access gran) = base"
  "seg_limit (gdt_descriptor base limit access gran) = limit AND 0xFFFFF"
  "g_access (gdt_descriptor base limit access gran) = access"
  "seg_flags (gdt_descriptor base limit access gran) = gran AND 0xF0"
proof -
  show "seg_base (gdt_descriptor base limit access gran) = base"
    by (simp add: gdt_descriptor_def seg_base_def base_bytes)
  have "seg_limit (gdt_descriptor base limit access gran) =
      ucast (ucast (limit AND 0xFFFF) :: u16) OR push_bit 16 (drop_bit 16 limit AND 0xF)"
    by (simp add: gdt_descriptor_def seg_limit_def gran_low)
  also have "\<dots> = limit AND 0xFFFFF"
    unfolding ff_masks
  proof (rule bit_word_eqI)
    fix n :: nat
    consider "n < 16" | "16 \<le> n" by linarith
    then show "bit (ucast (ucast (limit AND mask 16) :: u16) OR push_bit 16 (drop_bit 16 limit AND mask 4)) n = bit (limit AND mask 20) n"
      by cases (auto simp: bit_simps)
  qed
  finally show "seg_limit (gdt_descriptor base limit access gran) = limit AND 0xFFFFF" .
  show "g_access (gdt_descriptor base limit access gran) = access" "seg_flags (gdt_descriptor base limit access gran) = gran AND 0xF0"
    by (simp_all add: gdt_descriptor_def seg_flags_def gran_high)
qed

text \<open>
  C27: a descriptor written by \<open>gdt_set_gate\<close> reads back as the base, the low 20 bits of the limit,
  the access byte and the high nibble of the flags it was given; no other descriptor changes.
\<close>

theorem gdt_set_gate_roundtrip:
  assumes "num < length (gdt w)"
  shows "seg_base (gdt (gdt_set_gate num base limit access gran w) ! num) = base \<and>
    seg_limit (gdt (gdt_set_gate num base limit access gran w) ! num) = limit AND 0xFFFFF \<and>
    g_access (gdt (gdt_set_gate num base limit access gran w) ! num) = access \<and>
    seg_flags (gdt (gdt_set_gate num base limit access gran w) ! num) = gran AND 0xF0 \<and>
    (\<forall>i. i \<noteq> num \<longrightarrow> gdt (gdt_set_gate num base limit access gran w) ! i = gdt w ! i)"
  using assms by (simp add: gdt_set_gate_def)

definition hal_start :: "unit halworld" where
  "hal_start = halworld0 (dworld0 (fsworld0 (\<lambda>_. 0) 0x200000) ())"

lemma hal_start_tables: "length (gdt hal_start) = 6" "length (idt hal_start) = 256"
  by (simp_all add: hal_start_def halworld0_def dworld.defs)

theorem gdt_set_gate_roundtrip_witness:
  "seg_base (gdt (gdt_set_gate 1 0x12345678 0xFFFFFFFF 0x9A 0xCF hal_start) ! 1) = 0x12345678 \<and>
   seg_limit (gdt (gdt_set_gate 1 0x12345678 0xFFFFFFFF 0x9A 0xCF hal_start) ! 1) = 0xFFFFF"
  using gdt_set_gate_roundtrip [of 1 hal_start "0x12345678" "0xFFFFFFFF" "0x9A" "0xCF"] by (simp add: hal_start_tables)

text \<open>
  C25: after \<open>init_gdt\<close> the selectors that the scheduler puts into the frames of its tasks (0x08 and
  0x10 for the kernel, 0x1B and 0x23 for user programs) name flat code and data segments of the right
  privilege level, and the task register names the descriptor of the task state segment.  The limit
  of that descriptor is not the size of the segment: it is the low 20 bits of its last address.
\<close>

theorem init_gdt_segments:
  assumes "length (gdt w) = 6" and "g = gdt (init_gdt gdt_addr tss_addr w)"
  shows "(\<forall>i \<in> {1, 2, 3, 4}. seg_base (g ! i) = 0 \<and> seg_limit (g ! i) = 0xFFFFF \<and> seg_flags (g ! i) = 0xC0) \<and>
    seg_code (g ! (0x08 div 8)) \<and> seg_dpl (g ! (0x08 div 8)) = 0 \<and>
    seg_data (g ! (0x10 div 8)) \<and> seg_dpl (g ! (0x10 div 8)) = 0 \<and>
    seg_code (g ! (0x1B div 8)) \<and> seg_dpl (g ! (0x1B div 8)) = 3 \<and>
    seg_data (g ! (0x23 div 8)) \<and> seg_dpl (g ! (0x23 div 8)) = 3 \<and>
    seg_base (g ! (0x2B div 8)) = tss_addr \<and> seg_limit (g ! (0x2B div 8)) = (tss_addr + 103) AND 0xFFFFF \<and>
    task_reg (init_gdt gdt_addr tss_addr w) = 0x2B"
proof -
  let ?d = "gdt_descriptor 0 0xFFFFFFFF"
  obtain a b c d e f where "gdt w = [a, b, c, d, e, f]"
    using assms(1) by (auto simp: length_Suc_conv numeral_eq_Suc)
  then have g: "g = [gdt_descriptor 0 0 0 0, ?d 0x9A 0xCF, ?d 0x92 0xCF, ?d 0xFA 0xCF, ?d 0xF2 0xCF,
      gdt_descriptor tss_addr (tss_addr + 104 - 1) 0x89 0x40]"
    unfolding assms(2) by (simp add: init_gdt_def write_tss_def gdt_set_gate_def Let_def)
  have "tss_addr + 104 - 1 = tss_addr + 103" by simp
  then have "seg_limit (g ! 5) = (tss_addr + 103) AND 0xFFFFF" unfolding g by (simp only: nth_Cons_numeral) simp
  moreover have "seg_dpl (g ! 1) = 0" "seg_dpl (g ! 2) = 0" "seg_dpl (g ! 3) = 3" "seg_dpl (g ! 4) = 3"
    unfolding g by (simp_all add: seg_dpl_def)
  moreover have "seg_code (g ! 1)" "seg_data (g ! 2)" "seg_code (g ! 3)" "seg_data (g ! 4)"
    unfolding g by (simp_all add: seg_code_def seg_data_def bit_numeral_rec)
  moreover have "\<forall>i \<in> {1, 2, 3, 4}. seg_base (g ! i) = 0 \<and> seg_limit (g ! i) = 0xFFFFF \<and> seg_flags (g ! i) = 0xC0"
    "seg_base (g ! 5) = tss_addr" unfolding g by simp_all
  moreover have "task_reg (init_gdt gdt_addr tss_addr w) = 0x2B" by (simp add: init_gdt_def Let_def)
  ultimately show ?thesis by simp
qed

theorem init_gdt_segments_witness:
  "seg_limit (gdt (init_gdt 0x110000 0x112000 hal_start) ! 5) = 0x12067 \<and>
   seg_dpl (gdt (init_gdt 0x110000 0x112000 hal_start) ! 3) = 3"
  using init_gdt_segments [OF hal_start_tables(1) refl, of "0x110000" "0x112000"] by simp

lemma set_idt_gate_idt [simp]:
  "idt (set_idt_gate v a w) = (idt w)[unat v := idt_gate 0x8E a]"
  "idt (set_idt_gate_user v a w) = (idt w)[unat v := idt_gate 0xEE a]"
  by (simp_all add: set_idt_gate_def set_idt_gate_user_def)

lemma idt_outb [simp]: "idt (outb dv p v w) = idt w"
  by (simp add: outb_def)

lemma idt_pic: "idt (fold (\<lambda>(port, v). outb dv port v) cs w) = idt w"
  by (induction cs arbitrary: w) auto

lemma idt_fill:
  "n \<le> 256 \<Longrightarrow> length (idt w) = 256 \<Longrightarrow>
   idt (fold (\<lambda>i. set_idt_gate (of_nat i) a) [0..<n] w) = replicate n (idt_gate 0x8E a) @ drop n (idt w)"
proof (induction n)
  case (Suc n)
  have "unat (of_nat n :: u8) = n" using Suc.prems by (simp add: unat_of_nat)
  moreover have "drop n (idt w) = idt w ! n # drop (Suc n) (idt w)" using Suc.prems by (simp add: Cons_nth_drop_Suc)
  ultimately show ?case using Suc by (simp add: list_update_append replicate_append_same [symmetric])
qed simp

text \<open>
  C26: after \<open>init_idt\<close> every one of the 256 vectors has a present gate with the kernel code selector;
  the timer, keyboard, mouse and system call vectors lead to their stubs and all others to the default
  handler, and the system call gate is the only one a user program may invoke.
\<close>

theorem init_idt_gates:
  assumes "length (idt w) = 256" and "v < 256"
  shows "kernel_cs (idt (init_idt dv addr st w) ! v) = 0x08 \<and>
    gate_offset (idt (init_idt dv addr st w) ! v) =
      (if v = 32 then timer_isr st else if v = 33 then keyboard_isr st else if v = 44 then mouse_isr st
       else if v = 128 then syscall_isr st else default_isr st) \<and>
    attributes (idt (init_idt dv addr st w) ! v) = (if v = 128 then 0xEE else 0x8E) \<and>
    length (idt (init_idt dv addr st w)) = 256"
proof -
  let ?w1 = "fold (\<lambda>(port, v). outb dv port v) pic_commands w"
  let ?b = "replicate 256 (idt_gate 0x8E (default_isr st))"
  have "idt (fold (\<lambda>i. set_idt_gate (of_nat i) (default_isr st)) [0..<256] ?w1) = ?b @ drop 256 (idt ?w1)"
    using assms(1) by (intro idt_fill) (simp_all add: idt_pic)
  then have fill: "idt (fold (\<lambda>i. set_idt_gate (of_nat i) (default_isr st)) [0..<256] ?w1) = ?b"
    using assms(1) by (simp only: idt_pic) simp
  have "idt (init_idt dv addr st w) = ?b[32 := idt_gate 0x8E (timer_isr st), 33 := idt_gate 0x8E (keyboard_isr st),
      44 := idt_gate 0x8E (mouse_isr st), 128 := idt_gate 0xEE (syscall_isr st)]"
    by (simp add: init_idt_def Let_def fill del: upt_Suc replicate_Suc fold_simps)
  then show ?thesis using assms(2) by (simp add: nth_list_update gate_of_gate)
qed

definition stubs0 :: stubs where
  "stubs0 = \<lparr>default_isr = 0x101000, timer_isr = 0x101100, keyboard_isr = 0x101200, mouse_isr = 0x101300, syscall_isr = 0x101400\<rparr>"

definition quiet_ports :: "unit ports" where
  "quiet_ports = \<lparr>p_inb = (\<lambda>p d. (0, d)), p_inw = (\<lambda>p d. (0, d)), p_inl = (\<lambda>p d. (0, d)),
     p_outb = (\<lambda>p v d. d), p_outw = (\<lambda>p v d. d), p_outl = (\<lambda>p v d. d), p_mem = (\<lambda>d m. m)\<rparr>"

theorem init_idt_gates_witness:
  "gate_offset (idt (init_idt quiet_ports 0x113000 stubs0 hal_start) ! 128) = 0x101400 \<and>
   attributes (idt (init_idt quiet_ports 0x113000 stubs0 hal_start) ! 128) = 0xEE"
  using init_idt_gates [OF hal_start_tables(2), of 128 quiet_ports "0x113000" stubs0] by (simp add: stubs0_def)

section \<open>The identity map\<close>

lemma fill_table:
  "n \<le> length t \<Longrightarrow> fold (\<lambda>i t. t[i := f i]) [0..<n] t = map f [0..<n] @ drop n t"
proof (induction n)
  case (Suc n)
  then have "drop n t = t ! n # drop (Suc n) t" by (simp add: Cons_nth_drop_Suc)
  then show ?case using Suc by (simp add: list_update_append)
qed simp

lemma and_bit:
  fixes x :: u32
  shows "x AND 1 = 0 \<longleftrightarrow> \<not> bit x 0" "x AND 4 = 0 \<longleftrightarrow> \<not> bit x 2" "x AND 0x80000000 = 0 \<longleftrightarrow> \<not> bit x 31"
  using and_exp_eq_0_iff_not_bit [of x 0] and_exp_eq_0_iff_not_bit [of x 2] and_exp_eq_0_iff_not_bit [of x 31] by simp_all

lemma bit_flags: "bit (1 :: u32) n \<longleftrightarrow> n = 0" "bit (2 :: u32) n \<longleftrightarrow> n = 1"
proof -
  show "bit (1 :: u32) n \<longleftrightarrow> n = 0" by (simp add: bit_1_iff)
  have "(2 :: u32) = push_bit 1 1" by simp
  then show "bit (2 :: u32) n \<longleftrightarrow> n = 1" by (simp only: bit_simps) auto
qed

lemma aligned_or:
  fixes a :: u32
  assumes "a AND 0xFFF = 0"
  shows "(a OR 1 OR 2) AND NOT 0xFFF = a" "bit (a OR 1 OR 2) 0" "\<not> bit (a OR 1 OR 2) 2"
proof -
  have low: "\<not> bit a n" if "n < 12" for n
  proof -
    have "bit (a AND mask 12) n = bit (0 :: u32) n" using assms by (simp only: ff_masks)
    with that show ?thesis by (simp add: bit_simps)
  qed
  show "(a OR 1 OR 2) AND NOT 0xFFF = a"
    unfolding ff_masks
  proof (rule bit_word_eqI)
    fix n :: nat
    assume "n < LENGTH(32)"
    then show "bit ((a OR 1 OR 2) AND NOT (mask 12)) n = bit a n"
      unfolding bit_and_iff bit_or_iff bit_not_iff bit_mask_iff bit_flags using low [of n] by auto
  qed
  show "bit (a OR 1 OR 2) 0" "\<not> bit (a OR 1 OR 2) 2"
    using low [of 2] by (auto simp only: bit_or_iff bit_flags)
qed

lemma below_4mb: "(a :: u32) < 0x400000 \<longleftrightarrow> drop_bit 22 a = 0"
proof -
  have "drop_bit 22 a = 0 \<longleftrightarrow> unat (drop_bit 22 a) = 0" by (simp add: unat_eq_0)
  also have "\<dots> \<longleftrightarrow> unat a div 2 ^ 22 = 0" unfolding unat_drop_bit_eq by (simp add: drop_bit_eq_div)
  also have "\<dots> \<longleftrightarrow> unat a < 2 ^ 22" by (simp add: div_eq_0_iff)
  finally show ?thesis by (simp add: word_less_nat_alt)
qed

text \<open>The page number and the offset of an address below 4 MB put together again.\<close>

lemma page_and_offset:
  fixes a :: u32
  assumes "drop_bit 22 a = 0"
  defines "x \<equiv> push_bit 12 (drop_bit 12 a AND 0x3FF)"
  shows "x AND 0xFFF = 0" "x OR (a AND 0xFFF) = a"
proof -
  have high: "\<not> bit a n" if "22 \<le> n" for n
  proof -
    have "bit (drop_bit 22 a) (n - 22) = bit (0 :: u32) (n - 22)" using assms by simp
    with that show ?thesis by (simp add: bit_simps)
  qed
  show "x AND 0xFFF = 0" unfolding x_def ff_masks by (rule bit_word_eqI) (auto simp: bit_simps)
  show "x OR (a AND 0xFFF) = a"
    unfolding x_def ff_masks
  proof (rule bit_word_eqI)
    fix n :: nat
    consider "n < 12" | "12 \<le> n" "n < 22" | "22 \<le> n" by linarith
    then show "bit (push_bit 12 (drop_bit 12 a AND mask 10) OR (a AND mask 12)) n = bit a n"
      using high [of n] by cases (auto simp: bit_simps dest: bit_imp_le_length)
  qed
qed

text \<open>The state after \<open>vmm_init\<close>.\<close>

definition identity_table :: "u32 list" where
  "identity_table = map (\<lambda>i. (of_nat i * 4096 :: u32) OR 1 OR 2) [0..<1024]"

definition paged :: "u32 \<Rightarrow> u32 \<Rightarrow> ('d, 'a) halworld_scheme \<Rightarrow> ('d, 'a) halworld_scheme" where
  "paged pd_phys pt_phys w =
     w\<lparr>boot_page_directory := (replicate 1024 0)[0 := pt_phys OR 1 OR 2], boot_page_table := identity_table,
       kernel_page_directory := unat pd_phys, cr3 := unat pd_phys, cr0 := cr0 w OR 0x80000000\<rparr>"

lemma vmm_init_result:
  assumes pd: "pd_phys AND 0xFFF = 0" and pt: "pt_phys AND 0xFFF = 0"
  shows "vmm_init pd_phys pt_phys w = Inr (paged pd_phys pt_phys w)" "bit (cr0 (paged pd_phys pt_phys w)) 31"
proof -
  have "fold (\<lambda>i t. t[i := (of_nat i * 4096) OR 1 OR 2]) [0..<1024] (replicate 1024 0) = identity_table"
    by (subst fill_table) (simp_all add: identity_table_def)
  moreover have pg: "bit (cr0 w OR 0x80000000) 31"
  proof -
    have "(0x80000000 :: u32) = push_bit 31 1" by simp
    then show ?thesis by (simp only:) (simp add: bit_simps)
  qed
  moreover have "identity_table ! 0 AND 1 \<noteq> 0" "identity_table ! 1023 AND 1 \<noteq> 0"
    using aligned_or(2) [of 0] aligned_or(2) [of "0x3FF000"] by (simp_all add: identity_table_def and_bit del: bit_0)
  ultimately show "vmm_init pd_phys pt_phys w = Inr (paged pd_phys pt_phys w)"
    using pd pt by (simp add: vmm_init_def Let_def paged_def and_bit)
  show "bit (cr0 (paged pd_phys pt_phys w)) 31" using pg by (simp add: paged_def)
qed

lemma page_walk_identity:
  assumes pt: "pt_phys AND 0xFFF = 0" and dir: "boot_page_directory w = (replicate 1024 0)[0 := pt_phys OR 1 OR 2]"
    and tb: "boot_page_table w = identity_table"
  shows "page_walk pt_phys w a = (if a < 0x400000 then Some (a, False) else None)"
proof (cases "drop_bit 22 a = 0")
  case True
  let ?x = "push_bit 12 (drop_bit 12 a AND 0x3FF)"
  let ?i = "unat (drop_bit 12 a AND 0x3FF)"
  note x = page_and_offset [OF True]
  have "drop_bit 12 a AND 0x3FF < 0x400"
    using and_mask_less' [of 10 "drop_bit 12 a"] by (simp add: ff_masks)
  then have i: "?i < 1024" by (simp add: word_less_nat_alt)
  have "of_nat ?i * 4096 = ?x" by (simp add: push_bit_eq_mult)
  then have pte: "boot_page_table w ! ?i = ?x OR 1 OR 2" using i by (simp add: tb identity_table_def)
  have pde: "boot_page_directory w ! unat (drop_bit 22 a) = pt_phys OR 1 OR 2" using True by (simp add: dir)
  show ?thesis
    unfolding page_walk_def Let_def pde pte aligned_or(1) [OF pt] aligned_or(1) [OF x(1)] x(2) and_bit below_4mb
    using aligned_or(2,3) [OF pt] aligned_or(2,3) [OF x(1)] True by simp
next
  case False
  then have "unat (drop_bit 22 a) \<noteq> 0" by (simp add: unat_eq_0)
  moreover have "unat (drop_bit 22 a) < 1024"
    using unsigned_less [of a, where ?'a = nat] unfolding unat_drop_bit_eq by (simp add: drop_bit_eq_div less_mult_imp_div_less)
  ultimately have "boot_page_directory w ! unat (drop_bit 22 a) = 0" by (simp add: dir)
  then show ?thesis using False by (simp add: page_walk_def below_4mb)
qed

text \<open>
  C24: with page-aligned tables \<open>vmm_init\<close> does not panic and turns paging on with an identity map: the
  processor translates every address below 4 MB to itself and no other address, and no page may be
  accessed from user mode.
\<close>

theorem vmm_init_identity:
  assumes pd: "pd_phys AND 0xFFF = 0" and pt: "pt_phys AND 0xFFF = 0"
  shows "\<exists>w'. vmm_init pd_phys pt_phys w = Inr w' \<and> cr3 w' = unat pd_phys \<and> bit (cr0 w') 31 \<and>
    (\<forall>a. page_walk pt_phys w' a = (if a < 0x400000 then Some (a, False) else None))"
proof (intro exI conjI allI)
  show "vmm_init pd_phys pt_phys w = Inr (paged pd_phys pt_phys w)" "bit (cr0 (paged pd_phys pt_phys w)) 31"
    by (rule vmm_init_result [OF pd pt])+
  show "cr3 (paged pd_phys pt_phys w) = unat pd_phys" by (simp add: paged_def)
  show "page_walk pt_phys (paged pd_phys pt_phys w) a = (if a < 0x400000 then Some (a, False) else None)" for a
    by (rule page_walk_identity [OF pt]) (simp_all add: paged_def)
qed

theorem vmm_init_identity_witness:
  "\<exists>w'. vmm_init 0x114000 0x115000 hal_start = Inr w' \<and> page_walk 0x115000 w' 0x3FFFFF = Some (0x3FFFFF, False) \<and>
     page_walk 0x115000 w' 0x400000 = None"
  using vmm_init_identity [of "0x114000" "0x115000" hal_start] by auto

end
