(* ===== verification/Net.thy ===== *)
theory Net
  imports Pci Hal
begin

text \<open>
  The network adapter driver and protocol stack (drivers/rtl8139.c): ARP, IPv4 with ICMP echo, UDP, the
  TCP responder, the transmit and receive rings of the RTL8139.

  A received frame is the 2048-byte array \<open>packet_temp\<close> together with its size.  Arrays on the stack
  that the code does not initialise are parameters.  \<open>wire\<close> is the list of frames whose transmission
  the driver has started: the bytes that memory holds at the address written to the transmit
  descriptor.  \<open>None\<close> is a copy or a read outside an array, or a wait for the hardware that does not end.
\<close>

section \<open>State\<close>

record arp_entry =
  ae_ip :: bytes
  ae_mac :: bytes
  ae_active :: bool

record 'd nworld = "'d halworld" +
  rtl8139_present :: bool
  rtl8139_bus :: u8
  rtl8139_slot :: u8
  rtl8139_func :: u8
  rtl8139_io_base :: u16
  my_mac :: bytes
  net_ping_replies :: u32
  rx_buffer :: nat
  tx_buffers :: "nat list"
  tx_index :: nat
  rx_offset :: nat
  arp_cache :: "arp_entry list"
  tcp_state :: nat
  tcp_remote_port :: u32
  tcp_remote_ip :: bytes
  tcp_seq :: u32
  tcp_ack :: u32
  wire :: "bytes list"

abbreviation (input) ARP_CACHE_SIZE :: nat where "ARP_CACHE_SIZE \<equiv> 16"
abbreviation (input) TCP_STATE_CLOSED :: nat where "TCP_STATE_CLOSED \<equiv> 0"
abbreviation (input) TCP_STATE_LISTEN :: nat where "TCP_STATE_LISTEN \<equiv> 1"
abbreviation (input) TCP_STATE_SYN_RCVD :: nat where "TCP_STATE_SYN_RCVD \<equiv> 2"
abbreviation (input) TCP_STATE_ESTABLISHED :: nat where "TCP_STATE_ESTABLISHED \<equiv> 3"

definition my_ip :: bytes where
  "my_ip = [10, 0, 2, 15]"

abbreviation (input) tcp_local_port :: u32 where "tcp_local_port \<equiv> 80"

definition nworld0 :: "'d halworld \<Rightarrow> 'd nworld" where
  "nworld0 w = halworld.extend w
     \<lparr>rtl8139_present = False, rtl8139_bus = 0, rtl8139_slot = 0, rtl8139_func = 0, rtl8139_io_base = 0,
      my_mac = replicate 6 0, net_ping_replies = 0, rx_buffer = 0, tx_buffers = replicate 4 0, tx_index = 0,
      rx_offset = 0, arp_cache = replicate ARP_CACHE_SIZE \<lparr>ae_ip = replicate 4 0, ae_mac = replicate 6 0, ae_active = False\<rparr>,
      tcp_state = TCP_STATE_LISTEN, tcp_remote_port = 0, tcp_remote_ip = replicate 4 0, tcp_seq = 1000, tcp_ack = 0,
      wire = []\<rparr>"

section \<open>Helpers\<close>

definition ntohs :: "u16 \<Rightarrow> u16" where
  "ntohs n = push_bit 8 (n AND 0xFF) OR drop_bit 8 (n AND 0xFF00)"

definition ntohl :: "u32 \<Rightarrow> u32" where
  "ntohl n = push_bit 24 (n AND 0xFF) OR push_bit 8 (n AND 0xFF00) OR drop_bit 8 (n AND 0xFF0000) OR drop_bit 24 (n AND 0xFF000000)"

abbreviation htons :: "u16 \<Rightarrow> u16" where "htons \<equiv> ntohs"
abbreviation htonl :: "u32 \<Rightarrow> u32" where "htonl \<equiv> ntohl"

text \<open>\<open>ip\<close> holds the octets stored so far.\<close>

fun parse_ip_loop :: "bytes \<Rightarrow> u32 \<Rightarrow> bytes \<Rightarrow> bytes option" where
  "parse_ip_loop [] val ip = (if length ip \<noteq> 3 then None else Some (ip @ [ucast val]))"
| "parse_ip_loop (c # cs) val ip =
     (if 48 \<le> c \<and> c \<le> 57 then parse_ip_loop cs (val * 10 + ucast (c - 48)) ip
      else if c = 46 then (if length ip \<ge> 3 then None else parse_ip_loop cs 0 (ip @ [ucast val]))
      else None)"

definition parse_ip :: "bytes \<Rightarrow> bytes option" where
  "parse_ip s = parse_ip_loop (cstr s) 0 []"

text \<open>The end-around carry loop of the checksum.\<close>

function carry_fold :: "u32 \<Rightarrow> u32" where
  "carry_fold s = (if drop_bit 16 s \<noteq> 0 then carry_fold ((s AND 0xFFFF) + drop_bit 16 s) else s)"
  by pat_completeness auto
termination
proof (relation "measure unat")
  fix s :: u32
  assume "drop_bit 16 s \<noteq> 0"
  then have h: "unat (drop_bit 16 s) \<noteq> 0" by (simp add: unat_eq_0)
  have hi: "unat (drop_bit 16 s) = unat s div 65536" unfolding unat_drop_bit_eq by (simp add: drop_bit_eq_div)
  have "(0xFFFF :: u32) = mask 16" by (simp add: mask_eq_exp_minus_1)
  then have lo: "unat (s AND 0xFFFF) = unat s mod 65536"
    by (simp only: take_bit_eq_mask [symmetric] unsigned_take_bit_eq) (simp add: take_bit_eq_mod)
  have "unat ((s AND 0xFFFF) + drop_bit 16 s) \<le> unat s mod 65536 + unat s div 65536"
    unfolding hi [symmetric] lo [symmetric] unat_word_ariths by (rule mod_less_eq_dividend)
  also have "\<dots> < unat s mod 65536 + 65536 * (unat s div 65536)" using h hi by linarith
  also have "\<dots> = unat s" by simp
  finally show "((s AND 0xFFFF) + drop_bit 16 s, s) \<in> measure unat" by simp
qed simp

declare carry_fold.simps [simp del]

text \<open>
  The Internet checksum of \<open>len\<close> bytes from offset \<open>off\<close> of an array; a negative odd length reads the
  byte before the start.
\<close>

definition ip_checksum :: "bytes \<Rightarrow> nat \<Rightarrow> int \<Rightarrow> u16 option" where
  "ip_checksum arr off len =
     (let n = nat len div 2; last_ix = int off + len - 1 in
      if off + 2 * n \<le> length arr \<and> (len mod 2 = 1 \<longrightarrow> 0 \<le> last_ix \<and> last_ix < int (length arr)) then
        let sum = fold (\<lambda>i s. s + ucast (rd16 arr (off + 2 * i))) [0..<n] (0 :: u32);
            sum2 = (if len mod 2 = 1 then sum + ucast (arr ! nat last_ix) else sum)
        in Some (NOT (ucast (carry_fold sum2)))
      else None)"

section \<open>Transmit\<close>

partial_function (option) wait_tx :: "'d ports \<Rightarrow> u16 \<Rightarrow> ('d, 'a) nworld_scheme \<Rightarrow> ('d, 'a) nworld_scheme option" where
  "wait_tx dv port w =
     (case inw dv port w of (v, w1) \<Rightarrow> if v AND 0x2000 = 0 then wait_tx dv port w1 else Some w1)"

definition rtl8139_send_packet :: "'d ports \<Rightarrow> bytes \<Rightarrow> ('d, 'a) nworld_scheme \<Rightarrow> ('d, 'a) nworld_scheme option" where
  "rtl8139_send_packet dv data w =
     (if \<not> rtl8139_present w \<or> rtl8139_io_base w = 0 then Some w
      else
        let tsd = rtl8139_io_base w + 0x10 + of_nat (tx_index w) * 4 in
        case wait_tx dv tsd w of
          None \<Rightarrow> None
        | Some w1 \<Rightarrow>
            let buf = tx_buffers w1 ! tx_index w1;
                w2 = w1\<lparr>ram := poke_bytes buf data (ram w1)\<rparr>;
                w3 = outl dv (rtl8139_io_base w2 + 0x20 + of_nat (tx_index w2) * 4) (of_nat buf) w2;
                w4 = outl dv tsd (of_nat (length data)) w3
            in Some (w4\<lparr>wire := wire w4 @ [peek_bytes (ram w4) buf (length data)], tx_index := (tx_index w4 + 1) mod 4\<rparr>))"

section \<open>Ethernet and ARP\<close>

definition eth_header :: "bytes \<Rightarrow> bytes \<Rightarrow> u16 \<Rightarrow> bytes" where
  "eth_header dest_mac src_mac ty = dest_mac @ src_mac @ le16 (htons ty)"

definition arp_packet :: "u16 \<Rightarrow> bytes \<Rightarrow> bytes \<Rightarrow> bytes \<Rightarrow> bytes \<Rightarrow> bytes" where
  "arp_packet opcode sender_mac sender_ip target_mac target_ip =
     le16 (htons 1) @ le16 (htons 0x0800) @ [6, 4] @ le16 (htons opcode) @ sender_mac @ sender_ip @ target_mac @ target_ip"

fun arp_refresh :: "bytes \<Rightarrow> bytes \<Rightarrow> arp_entry list \<Rightarrow> arp_entry list option" where
  "arp_refresh ip mac [] = None"
| "arp_refresh ip mac (e # es) =
     (if ae_active e \<and> ae_ip e = ip then Some (e\<lparr>ae_mac := mac\<rparr> # es) else map_option (Cons e) (arp_refresh ip mac es))"

fun arp_fill :: "bytes \<Rightarrow> bytes \<Rightarrow> arp_entry list \<Rightarrow> arp_entry list option" where
  "arp_fill ip mac [] = None"
| "arp_fill ip mac (e # es) =
     (if \<not> ae_active e then Some (\<lparr>ae_ip = ip, ae_mac = mac, ae_active = True\<rparr> # es) else map_option (Cons e) (arp_fill ip mac es))"

definition arp_cache_add :: "bytes \<Rightarrow> bytes \<Rightarrow> ('d, 'a) nworld_scheme \<Rightarrow> ('d, 'a) nworld_scheme" where
  "arp_cache_add ip mac w =
     (case arp_refresh ip mac (arp_cache w) of
        Some c \<Rightarrow> w\<lparr>arp_cache := c\<rparr>
      | None \<Rightarrow> (case arp_fill ip mac (arp_cache w) of Some c \<Rightarrow> w\<lparr>arp_cache := c\<rparr> | None \<Rightarrow> w))"

definition arp_resolve :: "bytes \<Rightarrow> ('d, 'a) nworld_scheme \<Rightarrow> bytes option" where
  "arp_resolve ip w = map_option ae_mac (find (\<lambda>e. ae_active e \<and> ae_ip e = ip) (arp_cache w))"

definition arp_frame :: "bytes \<Rightarrow> bytes \<Rightarrow> u16 \<Rightarrow> bytes \<Rightarrow> bytes \<Rightarrow> bytes" where
  "arp_frame mac dest_mac opcode target_mac target_ip =
     eth_header dest_mac mac 0x0806 @ arp_packet opcode mac my_ip target_mac target_ip @ replicate 18 0"

definition arp_send_request :: "'d ports \<Rightarrow> bytes \<Rightarrow> ('d, 'a) nworld_scheme \<Rightarrow> ('d, 'a) nworld_scheme option" where
  "arp_send_request dv target_ip w =
     rtl8139_send_packet dv (arp_frame (my_mac w) (replicate 6 0xFF) 1 (replicate 6 0) target_ip) w"

definition handle_arp_packet :: "'d ports \<Rightarrow> bytes \<Rightarrow> int \<Rightarrow> ('d, 'a) nworld_scheme \<Rightarrow> ('d, 'a) nworld_scheme option" where
  "handle_arp_packet dv packet sz w =
     (if sz < 14 + 28 then Some w
      else
        let opcode = ntohs (rd16 packet 20); sender_mac = get 22 6 packet; sender_ip = get 28 4 packet;
            w1 = arp_cache_add sender_ip sender_mac w
        in if opcode = 1 \<and> get 38 4 packet = my_ip
           then rtl8139_send_packet dv (arp_frame (my_mac w1) sender_mac 2 sender_mac sender_ip) w1
           else Some w1)"

section \<open>UDP\<close>

definition print_ip :: "bytes \<Rightarrow> 'a kworld_scheme \<Rightarrow> 'a kworld_scheme" where
  "print_ip ip w =
     kprint_int (uint (ip ! 3)) (kputc 46 (kprint_int (uint (ip ! 2)) (kputc 46 (kprint_int (uint (ip ! 1)) (kputc 46
       (kprint_int (uint (ip ! 0)) w))))))"

text \<open>The IPv4 header without options that the stack puts in front of what it sends.\<close>

definition ipv4_header0 :: "u16 \<Rightarrow> u16 \<Rightarrow> u8 \<Rightarrow> bytes \<Rightarrow> bytes" where
  "ipv4_header0 len ident proto dest_ip =
     [0x45, 0] @ le16 (htons len) @ le16 (htons ident) @ [0, 0] @ [64, proto] @ [0, 0] @ my_ip @ dest_ip"

definition ipv4_header :: "u16 \<Rightarrow> u16 \<Rightarrow> u8 \<Rightarrow> bytes \<Rightarrow> bytes option" where
  "ipv4_header len ident proto dest_ip =
     (let h = ipv4_header0 len ident proto dest_ip in map_option (\<lambda>c. put 10 (le16 c) h) (ip_checksum h 0 20))"

definition udp_header :: "u16 \<Rightarrow> u16 \<Rightarrow> u16 \<Rightarrow> bytes" where
  "udp_header src_port dest_port len = le16 (htons src_port) @ le16 (htons dest_port) @ le16 (htons len) @ [0, 0]"

definition udp_send :: "'d ports \<Rightarrow> bytes \<Rightarrow> u16 \<Rightarrow> u16 \<Rightarrow> bytes \<Rightarrow> ('d, 'a) nworld_scheme \<Rightarrow> ('d, 'a) nworld_scheme option" where
  "udp_send dv dest_ip src_port dest_port payload w =
     (let len = length payload; ip_len = 20 + 8 + len in
      if 14 + ip_len > 1500 then Some w
      else do {
        (dest_mac, w1) \<leftarrow> (case arp_resolve dest_ip w of
            Some mac \<Rightarrow> Some (mac, w)
          | None \<Rightarrow> map_option (\<lambda>v. (replicate 6 0xFF, v)) (arp_send_request dv dest_ip w));
        ip \<leftarrow> ipv4_header (of_nat ip_len) 1 17 dest_ip;
        rtl8139_send_packet dv (eth_header dest_mac (my_mac w) 0x0800 @ ip @ udp_header src_port dest_port (of_nat (8 + len)) @ payload) w1 })"

text \<open>Received bytes are printed with unprintable ones as dots.\<close>

definition print_data :: "bytes \<Rightarrow> 'a kworld_scheme \<Rightarrow> 'a kworld_scheme" where
  "print_data data w = fold (\<lambda>c. kputc (if 32 \<le> c \<and> c \<le> 126 then c else 46)) data w"

definition handle_udp_packet :: "bytes \<Rightarrow> nat \<Rightarrow> 'a kworld_scheme \<Rightarrow> 'a kworld_scheme option" where
  "handle_udp_packet packet payload_offset w =
     (let udp_len = int (unat (ntohs (rd16 packet (payload_offset + 4))));
          data_len = udp_len - 8;
          n = nat (min data_len 64);
          w1 = kprint_int (uint (ntohs (rd16 packet payload_offset))) (kprint (str '':'')
                 (print_ip (get 26 4 packet) (kprint ([10] @ str ''[UDP Packet] From '') w)))
      in if payload_offset + 8 + n \<le> length packet
         then Some (kprint [10] (print_data (get (payload_offset + 8) n packet) (kprint (str '' -> '') w1)))
         else None)"

section \<open>TCP\<close>

definition tcp_header :: "u16 \<Rightarrow> u16 \<Rightarrow> u32 \<Rightarrow> u32 \<Rightarrow> u8 \<Rightarrow> bytes" where
  "tcp_header src_port dest_port sq ack flags =
     le16 (htons src_port) @ le16 (htons dest_port) @ le32 (htonl sq) @ le32 (htonl ack) @
     le16 (htons (push_bit 12 5 OR ucast flags)) @ le16 (htons 8192) @ [0, 0] @ [0, 0]"

definition tcp_pseudo :: "bytes \<Rightarrow> bytes" where
  "tcp_pseudo dest_ip = my_ip @ dest_ip @ [0, 6] @ le16 (htons 20)"

definition send_tcp_packet :: "'d ports \<Rightarrow> bytes \<Rightarrow> u16 \<Rightarrow> u16 \<Rightarrow> u32 \<Rightarrow> u32 \<Rightarrow> u8 \<Rightarrow> ('d, 'a) nworld_scheme \<Rightarrow>
    ('d, 'a) nworld_scheme option" where
  "send_tcp_packet dv dest_ip src_port dest_port sq ack flags w =
     do { let dest_mac = (case arp_resolve dest_ip w of Some mac \<Rightarrow> mac | None \<Rightarrow> replicate 6 0xFF);
          ip \<leftarrow> ipv4_header 40 1 6 dest_ip;
          let tcp = tcp_header src_port dest_port sq ack flags;
          c \<leftarrow> ip_checksum (tcp_pseudo dest_ip @ tcp) 0 32;
          rtl8139_send_packet dv (eth_header dest_mac (my_mac w) 0x0800 @ ip @ put 16 (le16 c) tcp) w }"

text \<open>The three alternatives of a segment, then the close that follows any of them.\<close>

definition tcp_syn :: "'d ports \<Rightarrow> bytes \<Rightarrow> u16 \<Rightarrow> u32 \<Rightarrow> ('d, 'a) nworld_scheme \<Rightarrow> ('d, 'a) nworld_scheme option" where
  "tcp_syn dv src_ip src_port sq w =
     (let w1 = w\<lparr>tcp_remote_port := ucast src_port, tcp_remote_ip := src_ip, tcp_ack := sq + 1, tcp_seq := 2000,
                 tcp_state := TCP_STATE_SYN_RCVD\<rparr>
      in map_option (\<lambda>w2. w2\<lparr>tcp_seq := tcp_seq w2 + 1\<rparr>)
           (send_tcp_packet dv (tcp_remote_ip w1) (ucast tcp_local_port) (ucast (tcp_remote_port w1)) (tcp_seq w1) (tcp_ack w1) 0x12 w1))"

definition tcp_data :: "'d ports \<Rightarrow> bytes \<Rightarrow> nat \<Rightarrow> nat \<Rightarrow> u32 \<Rightarrow> ('d, 'a) nworld_scheme \<Rightarrow> ('d, 'a) nworld_scheme option" where
  "tcp_data dv packet payload_offset ip_header_len sq w =
     (let tcp_header_len = unat (drop_bit 12 (ntohs (rd16 packet (payload_offset + 12))) AND 0x0F) * 4;
          data_len = int (unat (ntohs (rd16 packet 16))) - int ip_header_len - int tcp_header_len;
          n = nat (min data_len 128)
      in if data_len > 0 then
           if payload_offset + tcp_header_len + n \<le> length packet then
             let w1 = kprint [10] (print_data (get (payload_offset + tcp_header_len) n packet)
                        (kprint ([10] @ str ''[TCP Data] Received: '') w));
                 w2 = w1\<lparr>tcp_ack := sq + of_int data_len\<rparr>
             in send_tcp_packet dv (tcp_remote_ip w2) (ucast tcp_local_port) (ucast (tcp_remote_port w2)) (tcp_seq w2) (tcp_ack w2) 0x10 w2
           else None
         else Some w)"

definition tcp_fin :: "'d ports \<Rightarrow> u32 \<Rightarrow> ('d, 'a) nworld_scheme \<Rightarrow> ('d, 'a) nworld_scheme option" where
  "tcp_fin dv sq w =
     (let w1 = w\<lparr>tcp_ack := sq + 1\<rparr>
      in map_option (\<lambda>w2. kprint ([10] @ str ''[TCP Connection] Connection closed by remote host.'' @ [10]) (w2\<lparr>tcp_state := TCP_STATE_CLOSED\<rparr>))
           (send_tcp_packet dv (tcp_remote_ip w1) (ucast tcp_local_port) (ucast (tcp_remote_port w1)) (tcp_seq w1) (tcp_ack w1) 0x11 w1))"

definition handle_tcp_packet :: "'d ports \<Rightarrow> bytes \<Rightarrow> nat \<Rightarrow> nat \<Rightarrow> ('d, 'a) nworld_scheme \<Rightarrow> ('d, 'a) nworld_scheme option" where
  "handle_tcp_packet dv packet payload_offset ip_header_len w =
     (let dest_port = ntohs (rd16 packet (payload_offset + 2));
          src_port = ntohs (rd16 packet payload_offset);
          tcp_flags = ntohs (rd16 packet (payload_offset + 12)) AND 0x3F;
          sq = ntohl (rd32 packet (payload_offset + 4))
      in if ucast dest_port \<noteq> tcp_local_port then Some w
         else do {
           w1 \<leftarrow> (if tcp_flags AND 0x02 \<noteq> 0 then tcp_syn dv (get 26 4 packet) src_port sq w
                 else if tcp_flags AND 0x10 \<noteq> 0 \<and> tcp_state w = TCP_STATE_SYN_RCVD then
                   Some (kprint ([10] @ str ''[TCP Connection] Established connection with remote host!'' @ [10])
                           (w\<lparr>tcp_state := TCP_STATE_ESTABLISHED\<rparr>))
                 else if tcp_flags AND 0x08 \<noteq> 0 \<or> tcp_flags AND 0x10 \<noteq> 0 then tcp_data dv packet payload_offset ip_header_len sq w
                 else Some w);
           if tcp_flags AND 0x01 \<noteq> 0 then tcp_fin dv sq w1 else Some w1 })"

section \<open>IPv4 and ICMP\<close>

text \<open>The echo reply is built in place in the array \<open>reply\<close>.\<close>

definition echo_reply :: "bytes \<Rightarrow> bytes \<Rightarrow> bytes \<Rightarrow> nat \<Rightarrow> int \<Rightarrow> bytes option" where
  "echo_reply mac stack packet ip_header_len icmp_len =
     (let reply_size = nat (14 + int ip_header_len + icmp_len);
          po = 14 + ip_header_len;
          r0 = take reply_size packet @ drop reply_size stack;
          r1 = put 6 mac (put 0 (get 6 6 r0) r0);
          r2 = put 24 [0, 0] (put 26 my_ip (put 30 (get 26 4 r1) r1))
      in do {
        c \<leftarrow> ip_checksum r2 14 (int ip_header_len);
        let r3 = put (po + 2) [0, 0] (put po [0] (put 24 (le16 c) r2));
        d \<leftarrow> ip_checksum r3 po icmp_len;
        Some (take reply_size (put (po + 2) (le16 d) r3)) })"

definition handle_icmp :: "'d ports \<Rightarrow> bytes \<Rightarrow> bytes \<Rightarrow> int \<Rightarrow> nat \<Rightarrow> ('d, 'a) nworld_scheme \<Rightarrow> ('d, 'a) nworld_scheme option" where
  "handle_icmp dv stack packet sz ip_header_len w =
     (let po = 14 + ip_header_len;
          icmp_len = int (unat (ntohs (rd16 packet 16))) - int ip_header_len
      in if sz < int po + icmp_len then Some w
         else if packet ! po = 8 then
           (if 14 + int ip_header_len + icmp_len > 1024 then Some w
            else do { reply \<leftarrow> echo_reply (my_mac w) stack packet ip_header_len icmp_len; rtl8139_send_packet dv reply w })
         else if packet ! po = 0 then
           do { c \<leftarrow> ip_checksum (put (po + 2) [0, 0] packet) po icmp_len;
                if rd16 packet (po + 2) \<noteq> c
                then Some (kprint_color (str ''Warning: ICMP Ping checksum invalid.'' @ [10]) COLOR_LIGHT_RED w)
                else Some (kprint [10] (print_ip (get 26 4 packet)
                       (kprint (str ''Reply from '') (w\<lparr>net_ping_replies := net_ping_replies w + 1\<rparr>)))) }
         else Some w)"

definition handle_ipv4_packet :: "'d ports \<Rightarrow> bytes \<Rightarrow> bytes \<Rightarrow> int \<Rightarrow> ('d, 'a) nworld_scheme \<Rightarrow> ('d, 'a) nworld_scheme option" where
  "handle_ipv4_packet dv stack packet sz w =
     (if sz < 14 + 20 then Some w
      else if get 30 4 packet \<noteq> my_ip \<and> get 30 4 packet \<noteq> [255, 255, 255, 255] then Some w
      else
        let ip_header_len = unat (packet ! 14 AND 0x0F) * 4;
            payload_offset = 14 + ip_header_len;
            proto = packet ! 23
        in if proto = 1 then handle_icmp dv stack packet sz ip_header_len w
           else if proto = 17 then handle_udp_packet packet payload_offset w
           else if proto = 6 then handle_tcp_packet dv packet payload_offset ip_header_len w
           else Some w)"

definition handle_ethernet_packet :: "'d ports \<Rightarrow> bytes \<Rightarrow> bytes \<Rightarrow> int \<Rightarrow> ('d, 'a) nworld_scheme \<Rightarrow> ('d, 'a) nworld_scheme option" where
  "handle_ethernet_packet dv stack packet sz w =
     (if sz < 14 then Some w
      else
        let ty = ntohs (rd16 packet 12) in
        if ty = 0x0806 then handle_arp_packet dv packet sz w
        else if ty = 0x0800 then handle_ipv4_packet dv stack packet sz w
        else Some w)"

section \<open>Receive\<close>

text \<open>
  Copying a frame out of the receive ring.  The byte counts are unsigned, so a negative one runs off
  the end of memory.
\<close>

definition rx_copy :: "(nat \<Rightarrow> u8) \<Rightarrow> nat \<Rightarrow> nat \<Rightarrow> nat \<Rightarrow> bytes \<Rightarrow> bytes option" where
  "rx_copy m buf off sz packet_temp =
     (let n = int sz - 4 in
      if off + sz + 4 > 8192 then
        let first_part = 8192 - (int off + 4); rest = n - first_part in
        if first_part < 0 \<or> rest < 0 \<or> first_part + rest > int (length packet_temp) then None
        else Some (peek_bytes m (buf + off + 4) (nat first_part) @ peek_bytes m buf (nat rest) @ drop (nat (first_part + rest)) packet_temp)
      else if n < 0 \<or> n > int (length packet_temp) then None
      else Some (peek_bytes m (buf + off + 4) (nat n) @ drop (nat n) packet_temp))"

definition next_rx_offset :: "nat \<Rightarrow> nat \<Rightarrow> nat" where
  "next_rx_offset off sz = (off + sz + 4 + 3) div 4 * 4 mod 8192"

partial_function (option) rtl8139_handle_receive :: "'d ports \<Rightarrow> bytes \<Rightarrow> bytes \<Rightarrow> ('d, 'a) nworld_scheme \<Rightarrow>
    ('d, 'a) nworld_scheme option" where
  "rtl8139_handle_receive dv stack packet_temp w =
     (case inb dv (rtl8139_io_base w + 0x37) w of (cmd, w1) \<Rightarrow>
      if cmd AND 1 \<noteq> 0 then Some w1
      else
        let m = p_mem dv (dev w1) (ram w1);
            header = peek_bytes m (rx_buffer w1 + rx_offset w1) 4;
            sz = unat (rd16 header 2)
        in if rd16 header 0 AND 1 = 0 then Some w1
           else case rx_copy m (rx_buffer w1) (rx_offset w1) sz packet_temp of
             None \<Rightarrow> None
           | Some packet \<Rightarrow>
               (case handle_ethernet_packet dv stack packet (int sz - 4) w1 of
                  None \<Rightarrow> None
                | Some w2 \<Rightarrow>
                    let off = next_rx_offset (rx_offset w2) sz
                    in rtl8139_handle_receive dv stack packet_temp
                         (outw dv (rtl8139_io_base w2 + 0x38) (of_nat off - 16) (w2\<lparr>rx_offset := off\<rparr>))))"

definition rtl8139_isr_handler :: "'d ports \<Rightarrow> bytes \<Rightarrow> bytes \<Rightarrow> ('d, 'a) nworld_scheme \<Rightarrow> ('d, 'a) nworld_scheme option" where
  "rtl8139_isr_handler dv stack packet_temp w =
     (let (status, w1) = inw dv (rtl8139_io_base w + 0x3E) w;
          w2 = outw dv (rtl8139_io_base w1 + 0x3E) status w1
      in map_option (\<lambda>w3. outb dv 0xA0 0x20 (outb dv 0x20 0x20 w3))
           (if status AND 1 \<noteq> 0 then rtl8139_handle_receive dv stack packet_temp w2 else Some w2))"

section \<open>Probing and initialisation\<close>

definition rtl8139_enable_io :: "'d ports \<Rightarrow> ('d, 'a) nworld_scheme \<Rightarrow> bool \<times> ('d, 'a) nworld_scheme" where
  "rtl8139_enable_io dv w =
     (let b = rtl8139_bus w; s = rtl8139_slot w; f = rtl8139_func w;
          (bar0, w1) = pci_read_config32 dv b s f 0x10 w
      in if bar0 AND 1 = 0 then (False, w1)
         else
           let w2 = w1\<lparr>rtl8139_io_base := ucast (bar0 AND 0xFFFC)\<rparr>;
               (command, w3) = pci_read_config16 dv b s f 0x04 w2;
               w4 = pci_write_config16 dv b s f 0x04 (command OR 0x0005) w3;
               (check_cmd, w5) = pci_read_config16 dv b s f 0x04 w4
           in (True, kprint [10] (kprint_hex (ucast check_cmd) (kprint (str ''[RTL8139] PCI Command register after write: '') w5))))"

definition rtl8139_read_mac :: "'d ports \<Rightarrow> ('d, 'a) nworld_scheme \<Rightarrow> bytes \<times> ('d, 'a) nworld_scheme" where
  "rtl8139_read_mac dv w =
     fold (\<lambda>i (mac, v). let (x, v1) = inb dv (rtl8139_io_base v + of_nat i) v in (mac @ [x], v1)) [0..<6] ([], w)"

definition rtl8139_probe :: "'d ports \<Rightarrow> ('d, 'a) nworld_scheme \<Rightarrow> bool \<times> ('d, 'a) nworld_scheme" where
  "rtl8139_probe dv w =
     (let (devices, w1) = pci_scan_devices dv PCI_MAX_DEVICES w;
          w2 = w1\<lparr>rtl8139_present := False, rtl8139_io_base := 0\<rparr>
      in case find (\<lambda>d. vendor_id d = 0x10EC \<and> device_id d = 0x8139) devices of
           None \<Rightarrow> (False, w2)
         | Some d \<Rightarrow>
             let (ok, w3) = rtl8139_enable_io dv (w2\<lparr>rtl8139_bus := pd_bus d, rtl8139_slot := pd_slot d, rtl8139_func := pd_func d\<rparr>);
                 w4 = (if ok then w3\<lparr>rtl8139_present := True\<rparr> else w3)
             in (rtl8139_present w4, w4))"

definition rtl8139_is_present :: "('d, 'a) nworld_scheme \<Rightarrow> bool" where
  "rtl8139_is_present w = rtl8139_present w"

definition print_hex_byte :: "u8 \<Rightarrow> 'a kworld_scheme \<Rightarrow> 'a kworld_scheme" where
  "print_hex_byte v w = kputc (hex_char (unat v mod 16)) (kputc (hex_char (unat v div 16)) w)"

definition rtl8139_dump_info :: "'d ports \<Rightarrow> ('d, 'a) nworld_scheme \<Rightarrow> ('d, 'a) nworld_scheme" where
  "rtl8139_dump_info dv w =
     (let (found, w1) = rtl8139_probe dv w in
      if \<not> found then
        kprint_color (str ''QEMU hint: -netdev user -device rtl8139'' @ [10]) COLOR_YELLOW
          (kprint_color (str ''RTL8139 not found on PCI bus.'' @ [10]) COLOR_LIGHT_RED w1)
      else
        let (mac, w2) = rtl8139_read_mac dv w1;
            w3 = kprint (str ''PCI location      : '') (kprint_color (str ''--- RTL8139 NETWORK ADAPTER ---'' @ [10]) COLOR_LIGHT_CYAN w2);
            w4 = kprint_int (uint (rtl8139_func w3)) (kputc 46 (kprint_int (uint (rtl8139_slot w3)) (kputc 58
                   (kprint_int (uint (rtl8139_bus w3)) w3))));
            w5 = kprint_hex (ucast (rtl8139_io_base w4)) (kprint (str ''I/O base          : '') (kputc 10 w4));
            w6 = fold (\<lambda>i v. print_hex_byte (mac ! i) (if i > 0 then kputc 58 v else v)) [0..<6]
                   (kprint ([10] @ str ''MAC address       : '') w5);
            w7 = kprint_color ([10] @ str ''Status            : active and initialized (TX/RX enabled)'' @ [10]) COLOR_LIGHT_GREEN w6
        in kputc 10 (kprint_int (sint (net_ping_replies w7)) (kprint (str ''Ping replies rcvd : '') w7)))"

partial_function (option) wait_reset :: "'d ports \<Rightarrow> ('d, 'a) nworld_scheme \<Rightarrow> ('d, 'a) nworld_scheme option" where
  "wait_reset dv w =
     (case inb dv (rtl8139_io_base w + 0x37) w of (v, w1) \<Rightarrow> if v AND 0x10 \<noteq> 0 then wait_reset dv w1 else Some w1)"

definition alloc_tx :: "nat \<Rightarrow> ('d, 'a) nworld_scheme \<Rightarrow> ('d, 'a) nworld_scheme option" where
  "alloc_tx i w =
     (if tx_buffers w ! i = 0
      then map_option (\<lambda>(p, v). v\<lparr>tx_buffers := (tx_buffers v)[i := p]\<rparr>) (kmalloc 2048 w)
      else Some w)"

definition rtl8139_buffers :: "('d, 'a) nworld_scheme \<Rightarrow> ('d, 'a) nworld_scheme option" where
  "rtl8139_buffers w =
     do { w1 \<leftarrow> (if rx_buffer w = 0 then map_option (\<lambda>(p, v). v\<lparr>rx_buffer := p\<rparr>) (kmalloc (8192 + 16) w) else Some w);
          w2 \<leftarrow> alloc_tx 0 w1; w3 \<leftarrow> alloc_tx 1 w2; w4 \<leftarrow> alloc_tx 2 w3; w5 \<leftarrow> alloc_tx 3 w4;
          Some (w5\<lparr>tx_index := 0, rx_offset := 0\<rparr>) }"

text \<open>\<open>isr_asm\<close> is the address of the assembly stub; a shift count is taken modulo 32 as the instruction does.\<close>

definition unmask_irq :: "'d ports \<Rightarrow> u8 \<Rightarrow> ('d, 'a) dworld_scheme \<Rightarrow> ('d, 'a) dworld_scheme" where
  "unmask_irq dv irq w =
     (if irq < 8 then
        let (m, v) = inb dv 0x21 w in outb dv 0x21 (ucast (ucast m AND NOT (push_bit (unat irq) (1 :: u32)))) v
      else
        let (m, v) = inb dv 0xA1 w in outb dv 0xA1 (ucast (ucast m AND NOT (push_bit ((unat irq - 8) mod 32) (1 :: u32)))) v)"

definition rtl8139_init :: "'d ports \<Rightarrow> u32 \<Rightarrow> ('d, 'a) nworld_scheme \<Rightarrow> ('d, 'a) nworld_scheme option" where
  "rtl8139_init dv isr_asm w =
     (let (found, w1) = rtl8139_probe dv w in
      if \<not> found then Some w1
      else do {
        let (mac, w2) = rtl8139_read_mac dv w1;
        let (irq, w3) = pci_read_config8 dv (rtl8139_bus w2) (rtl8139_slot w2) (rtl8139_func w2) 0x3C (w2\<lparr>my_mac := mac\<rparr>);
        w4 \<leftarrow> rtl8139_buffers (kprint [10] (kprint_int (uint irq) (kprint (str ''[RTL8139] Initializing hardware. IRQ: '') w3)));
        w5 \<leftarrow> wait_reset dv (outb dv (rtl8139_io_base w4 + 0x37) 0x10 w4);
        let io = rtl8139_io_base w5;
        let w6 = outb dv (io + 0x37) 0x0C (outl dv (io + 0x44) 0x0000068F (outw dv (io + 0x3C) 0x007F
                   (outl dv (io + 0x30) (of_nat (rx_buffer w5)) w5)));
        Some (unmask_irq dv irq (set_idt_gate (32 + irq) isr_asm w6)) })"

section \<open>Shell commands\<close>

definition ping_payload :: bytes where
  "ping_payload = map (\<lambda>i. 65 + of_nat (i mod 26)) [0..<32]"

definition icmp_echo :: bytes where
  "icmp_echo = [8, 0] @ [0, 0] @ le16 (htons 1234) @ le16 (htons 1) @ ping_payload"

text \<open>
  \<open>poll\<close> is the state after up to 50 million turns of the busy wait for an ARP reply: interrupts, and
  with them received frames, arrive in between.
\<close>

definition icmp_send_ping :: "'d ports \<Rightarrow> (('d, 'a) nworld_scheme \<Rightarrow> ('d, 'a) nworld_scheme) \<Rightarrow> bytes \<Rightarrow> ('d, 'a) nworld_scheme \<Rightarrow>
    ('d, 'a) nworld_scheme option" where
  "icmp_send_ping dv poll dest_ip w =
     do { w1 \<leftarrow> (if arp_resolve dest_ip w \<noteq> None then Some w
                 else map_option (\<lambda>v. poll (kprint (str ''Resolving hardware address (ARP)...'' @ [10]) v)) (arp_send_request dv dest_ip w));
          case arp_resolve dest_ip w1 of
            None \<Rightarrow> Some (kprint_color (str ''Error: ARP resolution failed. Host unreachable.'' @ [10]) COLOR_LIGHT_RED w1)
          | Some dest_mac \<Rightarrow> do {
              ip \<leftarrow> ipv4_header 60 2 1 dest_ip;
              c \<leftarrow> ip_checksum icmp_echo 0 40;
              rtl8139_send_packet dv (eth_header dest_mac (my_mac w) 0x0800 @ ip @ put 2 (le16 c) icmp_echo)
                (kprint (str ''...'' @ [10]) (print_ip dest_ip (kprint (str ''Sending ICMP Echo Request to '') w1))) } }"

definition net_ping :: "'d ports \<Rightarrow> (('d, 'a) nworld_scheme \<Rightarrow> ('d, 'a) nworld_scheme) \<Rightarrow> bytes \<Rightarrow> ('d, 'a) nworld_scheme \<Rightarrow>
    ('d, 'a) nworld_scheme option" where
  "net_ping dv poll cmd_args w =
     (if \<not> rtl8139_present w then Some (kprint_color (str ''Error: RTL8139 not detected.'' @ [10]) COLOR_LIGHT_RED w)
      else case parse_ip cmd_args of
        None \<Rightarrow> Some (kprint (str ''Usage: ping <ip>'' @ [10]) w)
      | Some dest_ip \<Rightarrow> icmp_send_ping dv poll dest_ip w)"

fun parse_port :: "bytes \<Rightarrow> u32 \<Rightarrow> u32 \<times> bytes" where
  "parse_port [] port = (port, [])"
| "parse_port (c # cs) port = (if 48 \<le> c \<and> c \<le> 57 then parse_port cs (port * 10 + ucast (c - 48)) else (port, c # cs))"

definition net_udp_send :: "'d ports \<Rightarrow> bytes \<Rightarrow> ('d, 'a) nworld_scheme \<Rightarrow> ('d, 'a) nworld_scheme option" where
  "net_udp_send dv cmd_args w =
     (if \<not> rtl8139_present w then Some (kprint_color (str ''Error: RTL8139 not detected.'' @ [10]) COLOR_LIGHT_RED w)
      else
        let args = cstr cmd_args;
            ip_str = take 31 (takeWhile (\<lambda>c. c \<noteq> 32) args);
            rest = drop (length ip_str) args
        in if rest = [] then Some (kprint (str ''Usage: udpsend <ip> <port> <message>'' @ [10]) w)
           else
             let (port, rest2) = parse_port (dropWhile (\<lambda>c. c = 32) rest) 0 in
             if rest2 = [] then Some (kprint (str ''Usage: udpsend <ip> <port> <message>'' @ [10]) w)
             else
               let message = dropWhile (\<lambda>c. c = 32) rest2 in
               case parse_ip ip_str of
                 None \<Rightarrow> Some (kprint (str ''Error: Invalid IP address format.'' @ [10]) w)
               | Some dest_ip \<Rightarrow>
                   udp_send dv dest_ip 1234 (ucast port) message
                     (kprint (str ''...'' @ [10]) (kprint ip_str (kprint (str ''Sending UDP payload to '') w))))"

end
