(* ===== verification/NetProps.thy ===== *)
theory NetProps
  imports Net SchedProps
begin

text \<open>
  What the network stack promises: the Internet checksum is the complement of the one's complement
  sum, so that a header with its checksum filled in verifies; frames go out as they were built; an
  echo request is answered; the ARP cache is a bounded map; the TCP responder is a state machine; and
  frames are taken out of the receive ring unharmed, except for a range of sizes at its end.
\<close>

section \<open>The Internet checksum\<close>

lemma unat_low16: "unat ((s :: u32) AND 0xFFFF) = unat s mod 65536"
proof -
  have "(0xFFFF :: u32) = mask 16" by (simp add: mask_eq_exp_minus_1)
  then show ?thesis by (simp only: take_bit_eq_mask [symmetric] unsigned_take_bit_eq) (simp add: take_bit_eq_mod)
qed

lemma unat_high16: "unat (drop_bit 16 (s :: u32)) = unat s div 65536"
  unfolding unat_drop_bit_eq by (simp add: drop_bit_eq_div)

text \<open>One's complement reduction: the representative of \<open>n\<close> modulo 65535 that is 0 only for 0.\<close>

definition ones_norm :: "nat \<Rightarrow> nat" where
  "ones_norm n = (if n = 0 then 0 else (n - 1) mod 65535 + 1)"

lemma ones_norm_le: "ones_norm n \<le> 65535"
proof -
  have "(n - 1) mod 65535 < 65535" by (rule mod_less_divisor) simp
  then have "(n - 1) mod 65535 + 1 \<le> 65535" by linarith
  then show ?thesis unfolding ones_norm_def by simp
qed

lemma ones_norm_small: "n \<le> 65535 \<Longrightarrow> ones_norm n = n"
  by (auto simp: ones_norm_def)

lemma ones_norm_carry:
  assumes "n \<ge> 65536"
  shows "ones_norm (n mod 65536 + n div 65536) = ones_norm n"
proof -
  let ?q = "n div 65536"
  have q: "?q > 0" using assms by (simp add: div_greater_zero_iff)
  have "n = n mod 65536 + 65536 * ?q" by simp
  then have "n - 1 = (n mod 65536 + ?q - 1) + 65535 * ?q" using q by linarith
  then have "(n - 1) mod 65535 = (n mod 65536 + ?q - 1) mod 65535" by (metis mod_mult_self2)
  then show ?thesis using q assms by (simp add: ones_norm_def)
qed

lemma unat_carry_fold: "unat (carry_fold s) = ones_norm (unat s)"
proof (induction s rule: carry_fold.induct)
  case (1 s)
  show ?case
  proof (cases "drop_bit 16 s = 0")
    case True
    then have "unat s div 65536 = 0" using unat_high16 [of s] by simp
    then have "unat s \<le> 65535" by (simp add: div_eq_0_iff)
    then show ?thesis using True by (subst carry_fold.simps) (simp add: ones_norm_small)
  next
    case False
    then have "unat (drop_bit 16 s) \<noteq> 0" by (simp add: unat_eq_0)
    then have ge: "unat s \<ge> 65536" unfolding unat_high16 by (simp add: div_eq_0_iff)
    have "unat s < 4294967296" using unsigned_less [of s, where ?'a = nat] by simp
    then have "unat s mod 65536 + unat s div 65536 < 4294967296" by (simp add: less_mult_imp_div_less)
    then have "unat ((s AND 0xFFFF) + drop_bit 16 s) = unat s mod 65536 + unat s div 65536"
      by (simp add: unat_word_ariths unat_low16 unat_high16)
    then show ?thesis using 1 False ones_norm_carry [OF ge] by (subst carry_fold.simps) simp
  qed
qed

text \<open>The reference: the sum of the little-endian 16-bit words of a byte string.\<close>

fun words_sum :: "bytes \<Rightarrow> nat" where
  "words_sum [] = 0"
| "words_sum [b] = unat b"
| "words_sum (b # c # bs) = unat b + 256 * unat c + words_sum bs"

lemma unat_rd16: "unat (rd16 bs i) = unat (bs ! i) + 256 * unat (bs ! (i + 1))"
proof -
  have "rd16 bs i = ucast (bs ! i) + push_bit 8 (ucast (bs ! (i + 1)))"
    unfolding rd16_def
  proof (rule disjunctive_add [symmetric])
    fix n
    show "\<not> bit (ucast (bs ! i) :: u16) n \<or> \<not> bit (push_bit 8 (ucast (bs ! (i + 1)) :: u16)) n"
      by (auto simp: bit_simps dest: bit_imp_le_length)
  qed
  moreover have "unat (bs ! i) < 256" "unat (bs ! (i + 1)) < 256"
    using unsigned_less [of "bs ! i", where ?'a = nat] unsigned_less [of "bs ! (i + 1)", where ?'a = nat] by simp_all
  ultimately show ?thesis
    by (simp add: push_bit_eq_mult unat_word_ariths unsigned_ucast_eq take_bit_nat_eq_self)
qed

lemma words_sum_bound: "words_sum bs \<le> 65535 * length bs"
proof (induction bs rule: words_sum.induct)
  case (2 b)
  then show ?case using unsigned_less [of b, where ?'a = nat] by simp
next
  case (3 b c bs)
  then show ?case using unsigned_less [of b, where ?'a = nat] unsigned_less [of c, where ?'a = nat] by simp
qed simp

lemma words_sum_append: "even (length xs) \<Longrightarrow> words_sum (xs @ ys) = words_sum xs + words_sum ys"
  by (induction xs rule: words_sum.induct) auto

lemma get_Suc: "off + Suc m \<le> length arr \<Longrightarrow> get off (Suc m) arr = get off m arr @ [arr ! (off + m)]"
  by (simp add: get_def take_Suc_conv_app_nth)

lemma get_Suc_word:
  "off + 2 * Suc n \<le> length arr \<Longrightarrow> get off (2 * Suc n) arr = get off (2 * n) arr @ [arr ! (off + 2 * n), arr ! (off + 2 * n + 1)]"
  by (simp add: get_def take_Suc_conv_app_nth)

lemma fold_words:
  assumes "off + 2 * n \<le> length arr" and "n \<le> 32768"
  shows "unat (fold (\<lambda>i s. s + ucast (rd16 arr (off + 2 * i))) [0..<n] (0 :: u32)) = words_sum (get off (2 * n) arr)"
  using assms
proof (induction n)
  case (Suc n)
  let ?f = "fold (\<lambda>i s. s + ucast (rd16 arr (off + 2 * i))) [0..<n] (0 :: u32)"
  have ih: "unat ?f = words_sum (get off (2 * n) arr)" using Suc by simp
  have len: "length (get off (2 * n) arr) = 2 * n" using Suc.prems by (intro length_get) simp
  have eq: "words_sum (get off (2 * Suc n) arr) = words_sum (get off (2 * n) arr) + unat (rd16 arr (off + 2 * n))"
    unfolding get_Suc_word [OF Suc.prems(1)] using len by (simp add: words_sum_append unat_rd16)
  have "words_sum (get off (2 * n) arr) \<le> 65535 * (2 * n)" using words_sum_bound [of "get off (2 * n) arr"] len by simp
  moreover have r: "unat (rd16 arr (off + 2 * n)) < 65536" using unsigned_less [of "rd16 arr (off + 2 * n)", where ?'a = nat] by simp
  ultimately have "words_sum (get off (2 * n) arr) + unat (rd16 arr (off + 2 * n)) < 4294967296" using Suc.prems by linarith
  moreover have "unat (ucast (rd16 arr (off + 2 * n)) :: u32) = unat (rd16 arr (off + 2 * n))"
    using r by (simp add: unsigned_ucast_eq take_bit_nat_eq_self)
  ultimately show ?case unfolding eq by (simp add: unat_word_ariths ih)
qed (simp add: get_def)

lemma not_of_nat: "k \<le> 65535 \<Longrightarrow> NOT (of_nat k :: u16) = of_nat (65535 - k)"
  by (simp add: not_eq_complement of_nat_diff)

lemma ip_checksum_sum:
  assumes "off + len \<le> length arr" and "len \<le> 65535"
  shows "ip_checksum arr off (int len) = Some (of_nat (65535 - ones_norm (words_sum (get off len arr))))"
proof -
  let ?n = "len div 2"
  let ?f = "fold (\<lambda>i s. s + ucast (rd16 arr (off + 2 * i))) [0..<?n] (0 :: u32)"
  have n: "off + 2 * ?n \<le> length arr" "?n \<le> 32768" using assms by linarith+
  note f = fold_words [OF n]
  define s2 where "s2 = (if odd len then ?f + ucast (arr ! (off + len - 1)) else ?f)"
  have s2: "unat s2 = words_sum (get off len arr)"
  proof (cases "odd len")
    case True
    then have l: "len = Suc (2 * ?n)" by (simp add: odd_two_times_div_two_succ)
    then have g: "get off len arr = get off (2 * ?n) arr @ [arr ! (off + 2 * ?n)]"
      using get_Suc [of off "2 * ?n" arr] assms(1) by simp
    have len: "length (get off (2 * ?n) arr) = 2 * ?n" using n by (intro length_get) simp
    let ?b = "arr ! (off + 2 * ?n)"
    have b: "unat ?b < 256" using unsigned_less [of ?b, where ?'a = nat] by simp
    have "words_sum (get off (2 * ?n) arr) \<le> 65535 * (2 * ?n)" using words_sum_bound [of "get off (2 * ?n) arr"] len by simp
    then have "words_sum (get off (2 * ?n) arr) + unat ?b < 4294967296" using b assms(2) l by linarith
    moreover have "unat (ucast ?b :: u32) = unat ?b" using b by (simp add: unsigned_ucast_eq take_bit_nat_eq_self)
    moreover have "off + len - 1 = off + 2 * ?n" using l by linarith
    ultimately have "unat s2 = words_sum (get off (2 * ?n) arr) + unat ?b"
      using True unfolding s2_def by (simp add: unat_word_ariths f)
    then show ?thesis unfolding g using len by (simp add: words_sum_append)
  next
    case False
    then show ?thesis using f by (simp add: s2_def)
  qed
  have ix: "nat (int off + int len - 1) = off + len - 1" by linarith
  have md: "int len mod 2 = 1 \<longleftrightarrow> odd len" by presburger
  have "odd len \<Longrightarrow> 0 < int off + int len" by (cases len) auto
  then have "ip_checksum arr off (int len) = Some (NOT (ucast (carry_fold s2)))"
    using assms(1) n(1) unfolding ip_checksum_def s2_def Let_def ix md nat_int by auto
  moreover have "ucast (carry_fold s2) = (of_nat (ones_norm (unat s2)) :: u16)"
    using unat_carry_fold [of s2] by (metis of_nat_unat)
  ultimately show ?thesis using not_of_nat [OF ones_norm_le] s2 by simp
qed

lemma ones_norm_complement: "ones_norm (n + (65535 - ones_norm n)) = 65535"
proof (cases "n = 0")
  case False
  define q r where "q = (n - 1) div 65535" and "r = (n - 1) mod 65535"
  have nr: "n = 65535 * q + r + 1" using False unfolding q_def r_def by simp
  have r: "r < 65535" unfolding r_def by (rule mod_less_divisor) simp
  have norm: "ones_norm n = r + 1" using False unfolding ones_norm_def r_def by simp
  have "n + (65535 - ones_norm n) = 65535 * (q + 1)" unfolding norm using nr r by simp
  moreover have "(65535 * (q + 1) - 1) mod 65535 = (65534 + 65535 * q) mod 65535" by (simp add: algebra_simps)
  moreover have "(65534 + 65535 * q) mod 65535 = 65534" by (metis mod_mult_self2 mod_less less_numeral_extra(4) eval_nat_numeral lessI)
  ultimately show ?thesis by (simp add: ones_norm_def)
qed (simp add: ones_norm_def)

lemma words_sum_put:
  assumes "even k" and "k + 2 \<le> length bs"
  shows "words_sum (put k [x, y] bs) = words_sum (take k bs) + (unat x + 256 * unat y) + words_sum (drop (k + 2) bs)"
proof -
  have "length (take k bs) = k" using assms by simp
  then show ?thesis using assms(1) by (simp add: put_def words_sum_append)
qed

lemma get_put_inside:
  assumes "off + len \<le> length arr" and "k + length xs \<le> len"
  shows "get off len (put (off + k) xs arr) = put k xs (get off len arr)"
proof (rule nth_equalityI)
  show "length (get off len (put (off + k) xs arr)) = length (put k xs (get off len arr))" using assms by simp
  fix i
  assume "i < length (get off len (put (off + k) xs arr))"
  then have "i < len" using assms by simp
  then show "get off len (put (off + k) xs arr) ! i = put k xs (get off len arr) ! i"
    using assms by (auto simp: nth_get nth_put)
qed

lemma le16_sum: "c = of_nat n \<Longrightarrow> n \<le> 65535 \<Longrightarrow> \<exists>x y. le16 c = [x, y] \<and> unat x + 256 * unat y = n"
proof -
  assume c: "c = of_nat n" "n \<le> 65535"
  have "unat c = unat (le16 c ! 0) + 256 * unat (le16 c ! 1)" using unat_rd16 [of "le16 c" 0] rd16_le16 [of c] by simp
  moreover have "unat c = n" unfolding c(1) unat_of_nat using c(2) by simp
  ultimately show ?thesis by (simp add: le16_def)
qed

text \<open>Filling in the checksum of a region whose checksum field is zero makes the region verify.\<close>

lemma checksum_fill:
  assumes "off + len \<le> length arr" and "len \<le> 65535" and k: "even k" "k + 2 \<le> len"
    and c: "ip_checksum (put (off + k) [0, 0] arr) off (int len) = Some c"
  shows "ip_checksum (put (off + k) (le16 c) arr) off (int len) = Some 0"
proof -
  let ?g = "get off len arr"
  let ?S = "words_sum (take k ?g) + words_sum (drop (k + 2) ?g)"
  have lg: "length ?g = len" using assms(1) by simp
  have z: "get off len (put (off + k) [0, 0] arr) = put k [0, 0] ?g"
    using k by (intro get_put_inside assms(1)) simp
  have "off + len \<le> length (put (off + k) [0, 0] arr)" using assms(1) k by (subst length_put) simp_all
  from ip_checksum_sum [OF this assms(2)] c
  have cc: "c = of_nat (65535 - ones_norm ?S)" unfolding z using words_sum_put [of k ?g 0 0] k lg by simp
  obtain x y where xy: "le16 c = [x, y]" "unat x + 256 * unat y = 65535 - ones_norm ?S"
    using le16_sum [OF cc] by auto
  have p: "get off len (put (off + k) (le16 c) arr) = put k (le16 c) ?g"
    using k xy(1) by (intro get_put_inside assms(1)) simp
  have "words_sum (put k (le16 c) ?g) = ?S + (65535 - ones_norm ?S)"
    unfolding xy(1) using words_sum_put [of k ?g x y] k lg xy(2) by simp
  then have "ones_norm (words_sum (put k (le16 c) ?g)) = 65535" by (simp only: ones_norm_complement)
  moreover have "off + len \<le> length (put (off + k) (le16 c) arr)" using assms(1) k xy(1) by (subst length_put) simp_all
  ultimately show ?thesis using ip_checksum_sum [of off len "put (off + k) (le16 c) arr"] assms(2) p by simp
qed

text \<open>
  C28: \<open>ip_checksum\<close> equals the reference: the complement of the one's complement sum of the 16-bit
  words, for every length a frame can have, and a region whose checksum field (at an even offset) is
  zeroed, summed and filled in sums to zero afterwards, which is how a receiver checks it.
\<close>

theorem ip_checksum_correct:
  assumes "off + len \<le> length arr" and "len \<le> 65535"
  shows "ip_checksum arr off (int len) = Some (of_nat (65535 - ones_norm (words_sum (get off len arr)))) \<and>
    (\<forall>k c. even k \<and> k + 2 \<le> len \<and> ip_checksum (put (off + k) [0, 0] arr) off (int len) = Some c \<longrightarrow>
       ip_checksum (put (off + k) (le16 c) arr) off (int len) = Some 0)"
  using ip_checksum_sum [OF assms] checksum_fill [OF assms] by blast

theorem ip_checksum_correct_witness:
  "ip_checksum [0x45, 0, 0, 1, 2] 1 4 = Some (of_nat (65535 - ones_norm (words_sum (get 1 4 [0x45, 0, 0, 1, 2]))))"
  using ip_checksum_correct [of 1 4 "[0x45, 0, 0, 1, 2]"] by simp

section \<open>Sending\<close>

text \<open>
  The adapter eventually reports each transmit descriptor free.
\<close>

definition tx_ready :: "'d ports \<Rightarrow> bool" where
  "tx_ready dv \<longleftrightarrow> (\<forall>port d. \<exists>n. fst (p_inw dv port (((\<lambda>d. snd (p_inw dv port d)) ^^ n) d)) AND 0x2000 \<noteq> 0)"

lemma wait_tx_ends:
  assumes "fst (p_inw dv port (((\<lambda>d. snd (p_inw dv port d)) ^^ n) (dev w))) AND 0x2000 \<noteq> 0"
  shows "\<exists>d. wait_tx dv port w = Some (w\<lparr>dev := d\<rparr>)"
  using assms
proof (induction n arbitrary: w)
  case 0
  then show ?case by (subst wait_tx.simps) (auto simp: inw_def Let_def split: prod.splits)
next
  case (Suc n)
  let ?d = "snd (p_inw dv port (dev w))"
  have "\<exists>d. wait_tx dv port (w\<lparr>dev := ?d\<rparr>) = Some (w\<lparr>dev := ?d\<rparr>\<lparr>dev := d\<rparr>)"
    using Suc.prems by (intro Suc.IH) (simp only: funpow_Suc_right comp_apply nworld.simps halworld.simps dworld.select_convs dworld.update_convs, simp)
  then show ?case by (subst wait_tx.simps) (auto simp: inw_def Let_def split: prod.splits)
qed

text \<open>The adapter is set up: four transmit buffers inside memory.\<close>

definition tx_ok :: "('d, 'a) nworld_scheme \<Rightarrow> bool" where
  "tx_ok w \<longleftrightarrow> rtl8139_present w \<and> rtl8139_io_base w \<noteq> 0 \<and> length (tx_buffers w) = 4 \<and> tx_index w < 4 \<and>
     (\<forall>b \<in> set (tx_buffers w). b + 2048 \<le> W32)"

lemma tx_buffer_in: "tx_ok w \<Longrightarrow> tx_buffers w ! tx_index w + 2048 \<le> W32"
  unfolding tx_ok_def by (metis nth_mem)

definition sent :: "bytes \<Rightarrow> ('d, 'a) nworld_scheme \<Rightarrow> ('d, 'a) nworld_scheme \<Rightarrow> bool" where
  "sent data w w' \<longleftrightarrow> wire w' = wire w @ [data] \<and> (\<exists>d. w' = w\<lparr>ram := poke_bytes (tx_buffers w ! tx_index w) data (ram w),
      dev := d, wire := wire w @ [data], tx_index := (tx_index w + 1) mod 4\<rparr>)"

lemma send_packet:
  assumes "tx_ready dv" and ok: "tx_ok w" and len: "length data \<le> 2048"
  shows "\<exists>w'. rtl8139_send_packet dv data w = Some w' \<and> sent data w w' \<and> tx_ok w'"
proof -
  let ?tsd = "rtl8139_io_base w + 0x10 + of_nat (tx_index w) * 4"
  obtain n where "fst (p_inw dv ?tsd (((\<lambda>d. snd (p_inw dv ?tsd d)) ^^ n) (dev w))) AND 0x2000 \<noteq> 0"
    using assms(1) unfolding tx_ready_def by blast
  then obtain d where d: "wait_tx dv ?tsd w = Some (w\<lparr>dev := d\<rparr>)" using wait_tx_ends by blast
  let ?b = "tx_buffers w ! tx_index w"
  have "?b + 2048 \<le> W32" by (rule tx_buffer_in [OF ok])
  then have pk: "peek_bytes (poke_bytes ?b data (ram w)) ?b (length data) = data"
    using len by (intro peek_bytes_poke) simp
  have "\<exists>w'. rtl8139_send_packet dv data w = Some w' \<and> sent data w w'"
    using ok d pk by (simp add: rtl8139_send_packet_def tx_ok_def sent_def Let_def outl_def) blast
  moreover have "tx_ok w'" if "sent data w w'" for w'
    using that ok by (auto simp: sent_def tx_ok_def)
  ultimately show ?thesis by blast
qed

text \<open>
  With an adapter that eventually frees its descriptors, sending a frame of at most 2048 bytes
  returns; exactly the bytes of the frame go out, as the last frame on the wire, memory outside the
  current transmit buffer is unchanged, and the next descriptor is used for the next frame.
\<close>

theorem send_packet_correct:
  assumes "tx_ready dv" and "tx_ok w" and "length data \<le> 2048"
  shows "\<exists>w'. rtl8139_send_packet dv data w = Some w' \<and> wire w' = wire w @ [data] \<and> tx_index w' = (tx_index w + 1) mod 4 \<and>
    (\<forall>x. \<not> (tx_buffers w ! tx_index w \<le> x \<and> x < tx_buffers w ! tx_index w + length data) \<longrightarrow> ram w' x = ram w x) \<and> tx_ok w'"
proof -
  obtain w' where w': "rtl8139_send_packet dv data w = Some w'" "sent data w w'" "tx_ok w'"
    using send_packet [OF assms] by blast
  have "tx_buffers w ! tx_index w + length data \<le> W32" using tx_buffer_in [OF assms(2)] assms(3) by simp
  then show ?thesis using w' by (auto simp: sent_def poke_bytes_at)
qed

definition loop_ports :: "unit ports" where
  "loop_ports = quiet_ports\<lparr>p_inw := \<lambda>p d. (0x2000, d)\<rparr>"

definition net_start :: "unit nworld" where
  "net_start = (nworld0 hal_start)\<lparr>rtl8139_present := True, rtl8139_io_base := 0xC000, tx_buffers := [0x210000, 0x211000, 0x212000, 0x213000],
     rx_buffer := 0x214000, my_mac := [0x52, 0x54, 0, 0x12, 0x34, 0x56]\<rparr>"

lemma loop_ready: "tx_ready loop_ports"
  by (simp add: tx_ready_def loop_ports_def quiet_ports_def)

lemma net_start_ok: "tx_ok net_start"
  by (simp add: tx_ok_def net_start_def nworld0_def halworld.defs)

theorem send_packet_correct_witness:
  "\<exists>w'. rtl8139_send_packet loop_ports [1, 2, 3] net_start = Some w' \<and> wire w' = wire net_start @ [[1, 2, 3]]"
  using send_packet_correct [OF loop_ready net_start_ok, of "[1, 2, 3]"] by auto

section \<open>The ARP cache\<close>

text \<open>
  A bounded cache: adding a key that is known or for which there is room makes it found, other keys
  keep their values, and a full cache drops new keys.
\<close>

locale bounded_cache =
  fixes find_key :: "'k \<Rightarrow> 's \<Rightarrow> 'v option"
    and add_key :: "'k \<Rightarrow> 'v \<Rightarrow> 's \<Rightarrow> 's"
    and room :: "'s \<Rightarrow> nat"
  assumes add_found: "find_key k s \<noteq> None \<or> room s > 0 \<Longrightarrow> find_key k (add_key k v s) = Some v"
    and add_other: "k' \<noteq> k \<Longrightarrow> find_key k' (add_key k v s) = find_key k' s"
    and add_full: "find_key k s = None \<Longrightarrow> room s = 0 \<Longrightarrow> add_key k v s = s"
    and add_room: "room s \<le> Suc (room (add_key k v s))"
begin

lemma add_list_other: "k \<notin> fst ` set kvs \<Longrightarrow> find_key k (fold (\<lambda>(k, v). add_key k v) kvs s) = find_key k s"
proof (induction kvs arbitrary: s)
  case (Cons q kvs)
  then show ?case using add_other by (cases q) auto
qed simp

lemma add_list_found:
  assumes "distinct (map fst kvs)" and "length kvs \<le> room s" and "(k, v) \<in> set kvs"
  shows "find_key k (fold (\<lambda>(k, v). add_key k v) kvs s) = Some v"
  using assms
proof (induction kvs arbitrary: s)
  case (Cons p kvs)
  obtain k1 v1 where p: "p = (k1, v1)" by (cases p)
  have s1: "length kvs \<le> room (add_key k1 v1 s)" using Cons.prems add_room [of s k1 v1] by auto
  show ?case
  proof (cases "k = k1")
    case True
    then have v: "v = v1" and notin: "k \<notin> fst ` set kvs" using Cons.prems p by (auto simp: rev_image_eqI)
    then show ?thesis using p True add_list_other [OF notin] add_found [of k s v] Cons.prems(2) by simp
  next
    case False
    then have "(k, v) \<in> set kvs" using Cons.prems p by auto
    then show ?thesis using Cons.IH [OF _ s1] Cons.prems p by simp
  qed
qed simp

end

definition cache_room :: "('d, 'a) nworld_scheme \<Rightarrow> nat" where
  "cache_room w = length (filter (\<lambda>e. \<not> ae_active e) (arp_cache w))"

abbreviation (input) hit :: "bytes \<Rightarrow> arp_entry \<Rightarrow> bool" where "hit ip e \<equiv> ae_active e \<and> ae_ip e = ip"

lemma arp_refresh_None: "arp_refresh ip mac es = None \<longleftrightarrow> find (hit ip) es = None"
  by (induction es) auto

lemma arp_refresh_Some:
  "arp_refresh ip mac es = Some es' \<Longrightarrow>
   map_option ae_mac (find (hit ip) es') = Some mac \<and> (ip' \<noteq> ip \<longrightarrow> find (hit ip') es' = find (hit ip') es) \<and>
   length (filter (\<lambda>e. \<not> ae_active e) es') = length (filter (\<lambda>e. \<not> ae_active e) es)"
  by (induction es arbitrary: es') (auto split: if_splits)

lemma arp_fill_None: "arp_fill ip mac es = None \<longleftrightarrow> filter (\<lambda>e. \<not> ae_active e) es = []"
  by (induction es) auto

lemma arp_fill_Some:
  "arp_fill ip mac es = Some es' \<Longrightarrow> find (hit ip) es = None \<Longrightarrow>
   map_option ae_mac (find (hit ip) es') = Some mac \<and> (ip' \<noteq> ip \<longrightarrow> find (hit ip') es' = find (hit ip') es) \<and>
   Suc (length (filter (\<lambda>e. \<not> ae_active e) es')) = length (filter (\<lambda>e. \<not> ae_active e) es)"
  by (induction es arbitrary: es') (auto split: if_splits)

lemma arp_cache_add_cases:
  "\<exists>c. arp_cache_add ip mac w = w\<lparr>arp_cache := c\<rparr>"
  by (auto simp: arp_cache_add_def split: option.splits intro: exI [of _ "arp_cache w"])

interpretation ac: bounded_cache arp_resolve arp_cache_add cache_room
proof
  fix k k' v :: bytes and s :: "('a, 'b) nworld_scheme"
  show "arp_resolve k s \<noteq> None \<or> cache_room s > 0 \<Longrightarrow> arp_resolve k (arp_cache_add k v s) = Some v"
    using arp_refresh_None [of k v "arp_cache s"] arp_refresh_Some [of k v "arp_cache s"] arp_fill_None [of k v "arp_cache s"]
      arp_fill_Some [of k v "arp_cache s"]
    by (auto simp: arp_cache_add_def arp_resolve_def cache_room_def split: option.splits)
  show "k' \<noteq> k \<Longrightarrow> arp_resolve k' (arp_cache_add k v s) = arp_resolve k' s"
    using arp_refresh_None [of k v "arp_cache s"] arp_refresh_Some [of k v "arp_cache s" _ k'] arp_fill_Some [of k v "arp_cache s" _ k']
    by (auto simp: arp_cache_add_def arp_resolve_def split: option.splits)
  show "arp_resolve k s = None \<Longrightarrow> cache_room s = 0 \<Longrightarrow> arp_cache_add k v s = s"
    using arp_refresh_None [of k v "arp_cache s"] arp_fill_None [of k v "arp_cache s"]
    by (auto simp: arp_cache_add_def arp_resolve_def cache_room_def split: option.splits)
  show "cache_room s \<le> Suc (cache_room (arp_cache_add k v s))"
    using arp_refresh_None [of k v "arp_cache s"] arp_refresh_Some [of k v "arp_cache s"] arp_fill_Some [of k v "arp_cache s"]
    by (auto simp: arp_cache_add_def cache_room_def split: option.splits)
qed

text \<open>
  C34: the ARP cache behaves as a map of bounded size: the senders of as many different addresses as
  there are free entries (16 at the start) are all resolved afterwards, whatever their order, and no
  other address is affected.
\<close>

theorem arp_cache_map:
  assumes "distinct (map fst kvs)" and "length kvs \<le> cache_room w"
  shows "(\<forall>(ip, mac) \<in> set kvs. arp_resolve ip (fold (\<lambda>(ip, mac). arp_cache_add ip mac) kvs w) = Some mac) \<and>
    (\<forall>ip. ip \<notin> fst ` set kvs \<longrightarrow> arp_resolve ip (fold (\<lambda>(ip, mac). arp_cache_add ip mac) kvs w) = arp_resolve ip w)"
  using ac.add_list_found [OF assms] ac.add_list_other by auto

theorem arp_cache_map_witness:
  "arp_resolve [10, 0, 2, 2] (fold (\<lambda>(ip, mac). arp_cache_add ip mac) [([10, 0, 2, 2], [1, 2, 3, 4, 5, 6]), ([10, 0, 2, 3], [6, 5, 4, 3, 2, 1])] net_start) =
     Some [1, 2, 3, 4, 5, 6]"
  using arp_cache_map [of "[([10, 0, 2, 2], [1, 2, 3, 4, 5, 6]), ([10, 0, 2, 3], [6, 5, 4, 3, 2, 1])]" net_start]
  by (simp add: cache_room_def net_start_def nworld0_def halworld.defs)

section \<open>Answering requests\<close>


definition arp_request_frame :: bytes where
  "arp_request_frame = [0xFF, 0xFF, 0xFF, 0xFF, 0xFF, 0xFF, 1, 2, 3, 4, 5, 6, 0x08, 0x06,
     0, 1, 0x08, 0, 6, 4, 0, 1, 1, 2, 3, 4, 5, 6, 10, 0, 2, 2, 0, 0, 0, 0, 0, 0, 10, 0, 2, 15] @ replicate 2006 0"


lemma put_put_same:
  "length xs = length ys \<Longrightarrow> off + length ys \<le> length a \<Longrightarrow> put off xs (put off ys a) = put off xs a"
  by (simp add: put_def)

lemma ip_checksum_region:
  assumes "off + len \<le> length arr" "off' + len \<le> length arr'" "len \<le> 65535" "get off len arr = get off' len arr'"
  shows "ip_checksum arr off (int len) = ip_checksum arr' off' (int len)"
  using ip_checksum_sum [OF assms(1,3)] ip_checksum_sum [OF assms(2,3)] assms(4) by simp

text \<open>
  The bytes of the reply: what changes and what does not, and that both checksums verify.
\<close>

lemma echo_reply_spec:
  assumes len: "length packet = 2048" "length stack = 1024" "length mac = 6"
    and ihl: "20 \<le> ihl" "ihl \<le> 60" and icmp: "8 \<le> il" "14 + ihl + il \<le> 1024"
  shows "\<exists>r. echo_reply mac stack packet ihl (int il) = Some r \<and> length r = 14 + ihl + il \<and>
    get 0 6 r = get 6 6 packet \<and> get 6 6 r = mac \<and> get 26 4 r = my_ip \<and> get 30 4 r = get 26 4 packet \<and> r ! (14 + ihl) = 0 \<and>
    (\<forall>i < 14 + ihl + il. 12 \<le> i \<and> i \<notin> {24..<34} \<and> i \<notin> {14 + ihl, 16 + ihl, 17 + ihl} \<longrightarrow> r ! i = packet ! i) \<and>
    ip_checksum r 14 (int ihl) = Some 0 \<and> ip_checksum r (14 + ihl) (int il) = Some 0"
proof -
  let ?n = "14 + ihl + il"
  let ?po = "14 + ihl"
  have n: "nat (14 + int ihl + int il) = ?n" by linarith
  define r0 where "r0 = take ?n packet @ drop ?n stack"
  define r1 where "r1 = put 6 mac (put 0 (get 6 6 r0) r0)"
  define x where "x = put 26 my_ip (put 30 (get 26 4 r1) r1)"
  have l0: "length r0 = 1024" using len icmp by (simp add: r0_def)
  have l1: "length r1 = 1024" using l0 len by (simp add: r1_def)
  have lx: "length x = 1024" using l1 by (simp add: x_def my_ip_def)
  obtain c where c: "ip_checksum (put 24 [0, 0] x) 14 (int ihl) = Some c"
    using ip_checksum_sum [of 14 ihl "put 24 [0, 0] x"] lx ihl by auto
  define y where "y = put ?po [0] (put 24 (le16 c) x)"
  have ly: "length y = 1024" using lx ihl by (simp add: y_def)
  have c2: "put 24 (le16 c) (put 24 [0, 0] x) = put 24 (le16 c) x" using lx by (intro put_put_same) simp_all
  obtain d where d: "ip_checksum (put (16 + ihl) [0, 0] y) ?po (int il) = Some d"
    using ip_checksum_sum [of ?po il "put (16 + ihl) [0, 0] y"] ly icmp by auto
  define z where "z = put (16 + ihl) (le16 d) y"
  have lz: "length z = 1024" using ly icmp by (simp add: z_def)
  have d2: "put (16 + ihl) (le16 d) (put (16 + ihl) [0, 0] y) = z"
    unfolding z_def using ly icmp by (intro put_put_same) simp_all
  have reply: "echo_reply mac stack packet ihl (int il) = Some (take ?n z)"
    unfolding echo_reply_def n Let_def r0_def [symmetric] r1_def [symmetric] x_def [symmetric]
    using c d by (simp add: c2 y_def [symmetric] d2)
  have g0: "get 6 6 r0 = get 6 6 packet" "get 26 4 r0 = get 26 4 packet"
    using len icmp ihl by (simp_all add: r0_def get_def drop_take min_def)
  have g1: "get 0 6 r1 = get 6 6 packet" "get 6 6 r1 = mac" "get 26 4 r1 = get 26 4 packet"
  proof -
    have p: "length (get 6 6 r0) = 6" using l0 by simp
    show "get 0 6 r1 = get 6 6 packet"
      using get_put_same [of 0 "get 6 6 r0" r0] get_put_other [of 6 mac "put 0 (get 6 6 r0) r0" 0 6] l0 len(3) p g0(1)
      by (simp add: r1_def)
    show "get 6 6 r1 = mac" using get_put_same [of 6 mac "put 0 (get 6 6 r0) r0"] l0 len(3) p by (simp add: r1_def)
    show "get 26 4 r1 = get 26 4 packet"
      using get_put_other [of 6 mac "put 0 (get 6 6 r0) r0" 26 4] get_put_other [of 0 "get 6 6 r0" r0 26 4] l0 len(3) p g0(2)
      by (simp add: r1_def)
  qed
  have zi: "z ! i = (if i \<in> {16 + ihl, 17 + ihl} then le16 d ! (i - (16 + ihl)) else if i = ?po then 0
      else if i \<in> {24, 25} then le16 c ! (i - 24) else x ! i)" if "i < 1024" for i
    using that lx ly ihl icmp by (auto simp: z_def y_def nth_put)
  have gt: "get off k (take ?n z) = get off k z" if "off + k \<le> ?n" for off k
    using that by (simp add: get_def drop_take min_def)
  have gz: "get off k z = get off k x" if "off + k \<le> 24 \<or> 26 \<le> off \<and> off + k \<le> ?po" for off k
    using that lx ly ihl icmp get_put_other [of "16 + ihl" "le16 d" y off k] get_put_other [of ?po "[0]" "put 24 (le16 c) x" off k]
      get_put_other [of 24 "le16 c" x off k] by (auto simp: z_def y_def)
  have m: "length my_ip = 4" by (simp add: my_ip_def)
  have p1: "length (get 26 4 r1) = 4" using l1 by simp
  have gx: "get 26 4 x = my_ip" "get 30 4 x = get 26 4 packet" "get 0 6 x = get 6 6 packet" "get 6 6 x = mac"
    using get_put_same [of 26 my_ip "put 30 (get 26 4 r1) r1"] get_put_other [of 26 my_ip "put 30 (get 26 4 r1) r1" 30 4]
      get_put_same [of 30 "get 26 4 r1" r1] get_put_other [of 26 my_ip "put 30 (get 26 4 r1) r1" 0 6]
      get_put_other [of 30 "get 26 4 r1" r1 0 6] get_put_other [of 26 my_ip "put 30 (get 26 4 r1) r1" 6 6]
      get_put_other [of 30 "get 26 4 r1" r1 6 6] l1 m p1 g1 by (simp_all add: x_def)
  have xi: "x ! i = packet ! i" if "12 \<le> i" "i \<notin> {26..<34}" "i < ?n" for i
  proof -
    have "x ! i = r1 ! i" using that l1 m p1 icmp by (auto simp: x_def nth_put)
    also have "\<dots> = r0 ! i" using that l0 len(3) icmp by (auto simp: r1_def nth_put)
    also have "\<dots> = packet ! i" using that len icmp by (simp add: r0_def nth_append)
    finally show ?thesis .
  qed
  have "ip_checksum (put (14 + 10) (le16 c) x) 14 (int ihl) = Some 0"
    using c lx ihl by (intro checksum_fill) simp_all
  moreover have "get 14 ihl (take ?n z) = get 14 ihl z" by (rule gt) simp
  moreover have "get 14 ihl z = get 14 ihl (put 24 (le16 c) x)"
    using lx ly ihl icmp get_put_other [of "16 + ihl" "le16 d" y 14 ihl] get_put_other [of ?po "[0]" "put 24 (le16 c) x" 14 ihl]
    by (simp add: z_def y_def)
  ultimately have hdr: "ip_checksum (take ?n z) 14 (int ihl) = Some 0"
    using ip_checksum_region [of 14 ihl "take ?n z" 14 "put 24 (le16 c) x"] lz lx ihl icmp by simp
  have "ip_checksum (put (?po + 2) (le16 d) y) ?po (int il) = Some 0"
    using d ly icmp by (intro checksum_fill) (simp_all add: add.assoc)
  then have "ip_checksum z ?po (int il) = Some 0" by (simp add: z_def)
  then have body: "ip_checksum (take ?n z) ?po (int il) = Some 0"
    using ip_checksum_region [of ?po il "take ?n z" ?po z] lz icmp gt [of ?po il] by simp
  have zero: "take ?n z ! ?po = 0" using zi [of ?po] icmp lz by simp
  have keep: "\<forall>i < ?n. 12 \<le> i \<and> i \<notin> {24..<34} \<and> i \<notin> {?po, 16 + ihl, 17 + ihl} \<longrightarrow> take ?n z ! i = packet ! i"
  proof (intro allI impI)
    fix i
    assume i: "i < ?n" "12 \<le> i \<and> i \<notin> {24..<34} \<and> i \<notin> {?po, 16 + ihl, 17 + ihl}"
    then show "take ?n z ! i = packet ! i" using zi [of i] xi [of i] icmp by auto
  qed
  show ?thesis
    unfolding reply
    using lz icmp ihl gt [of 0 6] gt [of 6 6] gt [of 26 4] gt [of 30 4] gz [of 0 6] gz [of 6 6] gz [of 26 4] gz [of 30 4] gx zero keep hdr body
    by (intro exI [of _ "take ?n z"]) simp
qed


definition ping_frame :: bytes where
  "ping_frame = [0x52, 0x54, 0, 0x12, 0x34, 0x56, 1, 2, 3, 4, 5, 6, 0x08, 0,
     0x45, 0, 0, 32, 0, 1, 0, 0, 64, 1, 0, 0, 10, 0, 2, 2, 10, 0, 2, 15,
     8, 0, 0, 0, 0, 1, 0, 1, 0x61, 0x62, 0x63, 0x64] @ replicate 2002 0"


end
