(* ===== verification/NetTcp.thy ===== *)
theory NetTcp
  imports NetProps
begin

text \<open>
  The TCP responder: the segments it sends, and the state machine it runs.
\<close>

section \<open>Byte order\<close>

lemma bit_ntohs: "bit (ntohs n) i \<longleftrightarrow> i < 16 \<and> bit n (if i < 8 then i + 8 else i - 8)"
proof -
  have e: "(0xFF :: u16) = mask 8" "(0xFF00 :: u16) = push_bit 8 (mask 8)" by (simp_all add: mask_eq_exp_minus_1)
  consider "i < 8" | "8 \<le> i" "i < 16" | "16 \<le> i" by linarith
  then show ?thesis unfolding ntohs_def e by cases (auto simp: bit_simps add.commute dest: bit_imp_le_length)
qed

lemma ntohs_ntohs [simp]: "ntohs (ntohs n) = n"
proof (rule bit_word_eqI)
  fix i :: nat
  assume "i < LENGTH(16)"
  then show "bit (ntohs (ntohs n)) i = bit n i" by (cases "i < 8") (auto simp: bit_ntohs)
qed

lemma bit_ntohl:
  "bit (ntohl n) i \<longleftrightarrow> i < 32 \<and> bit n (if i < 8 then i + 24 else if i < 16 then i + 8 else if i < 24 then i - 8 else i - 24)"
proof -
  have e: "(0xFF :: u32) = mask 8" "(0xFF00 :: u32) = push_bit 8 (mask 8)" "(0xFF0000 :: u32) = push_bit 16 (mask 8)"
    "(0xFF000000 :: u32) = push_bit 24 (mask 8)" by (simp_all add: mask_eq_exp_minus_1)
  consider "i < 8" | "8 \<le> i" "i < 16" | "16 \<le> i" "i < 24" | "24 \<le> i" "i < 32" | "32 \<le> i" by linarith
  then show ?thesis unfolding ntohl_def e by cases (auto simp: bit_simps add.commute dest: bit_imp_le_length)
qed

lemma ntohl_ntohl [simp]: "ntohl (ntohl n) = n"
proof (rule bit_word_eqI)
  fix i :: nat
  assume "i < LENGTH(32)"
  then consider "i < 8" | "8 \<le> i" "i < 16" | "16 \<le> i" "i < 24" | "24 \<le> i" "i < 32" by fastforce
  then show "bit (ntohl (ntohl n)) i = bit n i" by cases (auto simp: bit_ntohl)
qed

section \<open>Segments\<close>

text \<open>
  A frame that carries a segment without data from us: to whom, on which ports, with which numbers and
  flags, and with both checksums valid.
\<close>

definition is_segment :: "bytes \<Rightarrow> bytes \<Rightarrow> u16 \<Rightarrow> u32 \<Rightarrow> u32 \<Rightarrow> u8 \<Rightarrow> bool" where
  "is_segment f ip port sq ack flags \<longleftrightarrow> length f = 54 \<and> get 26 4 f = my_ip \<and> get 30 4 f = ip \<and>
     ntohs (rd16 f 34) = 80 \<and> ntohs (rd16 f 36) = port \<and> ntohl (rd32 f 38) = sq \<and> ntohl (rd32 f 42) = ack \<and>
     ntohs (rd16 f 46) = 0x5000 OR ucast flags \<and>
     ip_checksum f 14 20 = Some 0 \<and> ip_checksum (tcp_pseudo ip @ get 34 20 f) 0 32 = Some 0"

lemma ipv4_header_spec:
  assumes "length ip = 4"
  shows "\<exists>h. ipv4_header len ident proto ip = Some h \<and> length h = 20 \<and> get 12 4 h = my_ip \<and> get 16 4 h = ip \<and>
    ip_checksum h 0 20 = Some 0"
proof -
  let ?h = "ipv4_header0 len ident proto ip"
  have l: "length ?h = 20" using assms by (simp add: ipv4_header0_def my_ip_def)
  have z: "put (0 + 10) [0, 0] ?h = ?h" by (simp add: put_def ipv4_header0_def le16_def my_ip_def)
  obtain c where c: "ip_checksum ?h 0 20 = Some c" using ip_checksum_sum [of 0 20 ?h] l by auto
  have "ip_checksum (put (0 + 10) (le16 c) ?h) 0 (int 20) = Some 0"
    using l c z by (intro checksum_fill) simp_all
  moreover have "get 12 4 (put 10 (le16 c) ?h) = my_ip" "get 16 4 (put 10 (le16 c) ?h) = ip"
    using assms by (simp_all add: get_def put_def ipv4_header0_def le16_def my_ip_def)
  ultimately show ?thesis using c l by (simp add: ipv4_header_def Let_def)
qed

lemma tcp_checksum_fill:
  assumes "length ip = 4" and "ip_checksum (tcp_pseudo ip @ tcp_header sp dp sq ack fl) 0 32 = Some c"
  shows "ip_checksum (tcp_pseudo ip @ put 16 (le16 c) (tcp_header sp dp sq ack fl)) 0 32 = Some 0"
proof -
  let ?p = "tcp_pseudo ip" and ?t = "tcp_header sp dp sq ack fl"
  have l: "length ?p = 12" "length ?t = 20" using assms(1) by (simp_all add: tcp_pseudo_def tcp_header_def my_ip_def)
  have z: "put (0 + 28) [0, 0] (?p @ ?t) = ?p @ ?t"
    using assms(1) by (simp add: put_def tcp_header_def tcp_pseudo_def le16_def le32_def my_ip_def)
  have e: "put (0 + 28) (le16 c) (?p @ ?t) = ?p @ put 16 (le16 c) ?t" using l by (simp add: put_def)
  have "ip_checksum (put (0 + 28) (le16 c) (?p @ ?t)) 0 (int 32) = Some 0"
    using l assms(2) z by (intro checksum_fill) simp_all
  then show ?thesis unfolding e by simp
qed

lemma segment_fields:
  assumes "length e = 14" "length h = 20" "length ip = 4" "get 12 4 h = my_ip" "get 16 4 h = ip" "ip_checksum h 0 20 = Some 0"
    and c: "ip_checksum (tcp_pseudo ip @ tcp_header 80 port sq ack flags) 0 32 = Some c"
  shows "is_segment (e @ h @ put 16 (le16 c) (tcp_header 80 port sq ack flags)) ip port sq ack flags"
proof -
  let ?t = "tcp_header 80 port sq ack flags"
  let ?u = "put 16 (le16 c) ?t"
  let ?f = "e @ h @ ?u"
  have lt: "length ?t = 20" "length ?u = 20" by (simp_all add: tcp_header_def)
  have "get 26 4 ?f = get 12 4 h" "get 30 4 ?f = get 16 4 h" "get 34 20 ?f = ?u" "get 14 20 ?f = get 0 20 h"
    using assms(1,2) lt by (simp_all add: get_def)
  moreover have u: "?u = le16 (htons 80) @ le16 (htons port) @ le32 (htonl sq) @ le32 (htonl ack) @
     le16 (htons (push_bit 12 5 OR ucast flags)) @ le16 (htons 8192) @ le16 c @ [0, 0]"
    by (simp add: put_def tcp_header_def le16_def le32_def)
  have "rd16 ?f 34 = htons 80" "rd16 ?f 36 = htons port" "rd32 ?f 38 = htonl sq" "rd32 ?f 42 = htonl ack"
    "rd16 ?f 46 = htons (0x5000 OR ucast flags)"
    using assms(1,2) unfolding u by (simp_all add: layout_simps rd16_head rd32_head)
  moreover have "ip_checksum ?f 14 20 = Some 0"
    using ip_checksum_region [of 14 20 ?f 0 h] assms(1,2,6) lt \<open>get 14 20 ?f = get 0 20 h\<close> by simp
  ultimately show ?thesis using assms tcp_checksum_fill [OF assms(3) c] lt by (simp add: is_segment_def)
qed

lemma send_tcp:
  assumes "tx_ready dv" and ok: "tx_ok w" and mac: "length (my_mac w) = 6" "\<forall>e \<in> set (arp_cache w). length (ae_mac e) = 6"
    and ip: "length ip = 4"
  shows "\<exists>w' f. send_tcp_packet dv ip 80 port sq ack flags w = Some w' \<and> sent f w w' \<and> tx_ok w' \<and> is_segment f ip port sq ack flags"
proof -
  let ?m = "case arp_resolve ip w of Some mac \<Rightarrow> mac | None \<Rightarrow> replicate 6 0xFF"
  have lm: "length ?m = 6"
    using mac(2) by (auto simp: arp_resolve_def find_Some_iff split: option.splits)
  have le: "length (eth_header ?m (my_mac w) 0x0800) = 14" using lm mac(1) by (simp add: eth_header_def)
  obtain h where h: "ipv4_header 40 1 6 ip = Some h" "length h = 20" "get 12 4 h = my_ip" "get 16 4 h = ip" "ip_checksum h 0 20 = Some 0"
    using ipv4_header_spec [OF ip] by blast
  let ?t = "tcp_header 80 port sq ack flags"
  obtain c where c: "ip_checksum (tcp_pseudo ip @ ?t) 0 32 = Some c"
    using ip_checksum_sum [of 0 32 "tcp_pseudo ip @ ?t"] ip by (auto simp: tcp_pseudo_def tcp_header_def my_ip_def)
  let ?f = "eth_header ?m (my_mac w) 0x0800 @ h @ put 16 (le16 c) ?t"
  have seg: "is_segment ?f ip port sq ack flags" by (rule segment_fields [OF le h(2) ip h(3-5) c])
  then have "length ?f \<le> 2048" by (simp add: is_segment_def)
  then obtain w' where w': "rtl8139_send_packet dv ?f w = Some w'" "sent ?f w w'" "tx_ok w'"
    using send_packet [OF assms(1) ok] by blast
  have "send_tcp_packet dv ip 80 port sq ack flags w = Some w'"
    unfolding send_tcp_packet_def Let_def using h(1) c w'(1) by simp
  then show ?thesis using w' seg by blast
qed

section \<open>The state machine\<close>

text \<open>What the handlers rely on: an adapter ready to send and addresses of the right length.\<close>

definition net_ok :: "('d, 'a) nworld_scheme \<Rightarrow> bool" where
  "net_ok w \<longleftrightarrow> tx_ok w \<and> length (my_mac w) = 6 \<and> (\<forall>e \<in> set (arp_cache w). length (ae_mac e) = 6) \<and> length (tcp_remote_ip w) = 4"

text \<open>The abstract responder.\<close>

definition tcp_next :: "u16 \<Rightarrow> nat \<Rightarrow> nat" where
  "tcp_next flags st =
     (if flags AND 0x01 \<noteq> 0 then TCP_STATE_CLOSED
      else if flags AND 0x02 \<noteq> 0 then TCP_STATE_SYN_RCVD
      else if flags AND 0x10 \<noteq> 0 \<and> st = TCP_STATE_SYN_RCVD then TCP_STATE_ESTABLISHED
      else st)"

lemma con_update_nworld [simp]:
  "tcp_state (con_update f w) = tcp_state w" "tcp_ack (con_update f w) = tcp_ack w" "tcp_seq (con_update f w) = tcp_seq w"
  "tcp_remote_ip (con_update f w) = tcp_remote_ip w" "tcp_remote_port (con_update f w) = tcp_remote_port w"
  "wire (con_update f w) = wire w" "my_mac (con_update f w) = my_mac w" "arp_cache (con_update f w) = arp_cache w"
  "tx_buffers (con_update f w) = tx_buffers w" "tx_index (con_update f w) = tx_index w"
  "rtl8139_present (con_update f w) = rtl8139_present w" "rtl8139_io_base (con_update f w) = rtl8139_io_base w"
  for w :: "('d, 'a) nworld_scheme"
  by simp_all

lemma net_ok_con [simp]: "net_ok (con_update f w) = net_ok w"
  by (simp add: net_ok_def tx_ok_def)

lemma net_ok_tcp [simp]:
  "net_ok (w\<lparr>tcp_state := s\<rparr>) = net_ok w" "net_ok (w\<lparr>tcp_ack := a\<rparr>) = net_ok w" "net_ok (w\<lparr>tcp_seq := q\<rparr>) = net_ok w"
  "net_ok (w\<lparr>tcp_remote_port := p\<rparr>) = net_ok w"
  "length ip = 4 \<Longrightarrow> net_ok w \<Longrightarrow> net_ok (w\<lparr>tcp_remote_ip := ip\<rparr>)"
  by (simp_all add: net_ok_def tx_ok_def)

lemma sent_frame:
  assumes "sent f w w'"
  shows "tcp_state w' = tcp_state w" "tcp_ack w' = tcp_ack w" "tcp_seq w' = tcp_seq w" "tcp_remote_ip w' = tcp_remote_ip w"
    "tcp_remote_port w' = tcp_remote_port w" "wire w' = wire w @ [f]" "my_mac w' = my_mac w" "arp_cache w' = arp_cache w"
  using assms by (auto simp: sent_def)

lemma send_tcp_ok:
  assumes "tx_ready dv" and ok: "net_ok w"
  shows "\<exists>w' f. send_tcp_packet dv (tcp_remote_ip w) 80 port sq ack flags w = Some w' \<and> sent f w w' \<and> net_ok w' \<and>
    is_segment f (tcp_remote_ip w) port sq ack flags"
proof -
  have *: "tx_ok w" "length (my_mac w) = 6" "\<forall>e \<in> set (arp_cache w). length (ae_mac e) = 6" "length (tcp_remote_ip w) = 4"
    using ok by (simp_all add: net_ok_def)
  obtain w' f where w': "send_tcp_packet dv (tcp_remote_ip w) 80 port sq ack flags w = Some w'" "sent f w w'" "tx_ok w'"
      "is_segment f (tcp_remote_ip w) port sq ack flags"
    using send_tcp [OF assms(1) *] by blast
  have "net_ok w'" using w'(3) ok sent_frame [OF w'(2)] by (simp add: net_ok_def)
  then show ?thesis using w' by blast
qed

lemma tcp_syn_spec:
  assumes "tx_ready dv" and "net_ok w" and "length ip = 4"
  shows "\<exists>w' f. tcp_syn dv ip port sq w = Some w' \<and> net_ok w' \<and> tcp_state w' = TCP_STATE_SYN_RCVD \<and> wire w' = wire w @ [f] \<and>
    is_segment f ip port 2000 (sq + 1) 0x12 \<and> tcp_seq w' = 2001 \<and> tcp_remote_ip w' = ip"
proof -
  let ?w1 = "w\<lparr>tcp_remote_port := ucast port, tcp_remote_ip := ip, tcp_ack := sq + 1, tcp_seq := 2000, tcp_state := TCP_STATE_SYN_RCVD\<rparr>"
  have "net_ok ?w1" using assms(2,3) by (simp add: net_ok_def tx_ok_def)
  then obtain w' f where w': "send_tcp_packet dv (tcp_remote_ip ?w1) 80 port 2000 (sq + 1) 0x12 ?w1 = Some w'" "sent f ?w1 w'" "net_ok w'"
      "is_segment f (tcp_remote_ip ?w1) port 2000 (sq + 1) 0x12"
    using send_tcp_ok [OF assms(1), of ?w1] by blast
  have "ucast (ucast port :: u32) = port" by (rule bit_word_eqI) (auto simp: bit_simps)
  then have "tcp_syn dv ip port sq w = Some (w'\<lparr>tcp_seq := tcp_seq w' + 1\<rparr>)"
    using w'(1) by (simp add: tcp_syn_def Let_def)
  then show ?thesis using w'(3,4) sent_frame [OF w'(2)] by simp
qed

lemma print_data_con: "print_data data w = con_update (fold (\<lambda>c. print_char (if 32 \<le> c \<and> c \<le> 126 then c else 46)) data) w"
  unfolding print_data_def by (induction data arbitrary: w) simp_all

text \<open>The data length a segment claims; data is acknowledged in one segment without data.\<close>

definition tcp_data_len :: "bytes \<Rightarrow> nat \<Rightarrow> nat \<Rightarrow> int" where
  "tcp_data_len packet po ihl =
     int (unat (ntohs (rd16 packet 16))) - int ihl - int (unat (drop_bit 12 (ntohs (rd16 packet (po + 12))) AND 0x0F) * 4)"

lemma tcp_data_spec:
  assumes "tx_ready dv" and "net_ok w" and "length packet = 2048" and "po + 60 + 128 \<le> 2048"
  shows "\<exists>w'. tcp_data dv packet po ihl sq w = Some w' \<and> net_ok w' \<and> tcp_state w' = tcp_state w \<and> tcp_seq w' = tcp_seq w \<and>
    (if tcp_data_len packet po ihl > 0
     then \<exists>f. wire w' = wire w @ [f] \<and>
       is_segment f (tcp_remote_ip w) (ucast (tcp_remote_port w)) (tcp_seq w) (sq + of_int (tcp_data_len packet po ihl)) 0x10
     else w' = w)"
proof -
  let ?n = "drop_bit 12 (ntohs (rd16 packet (po + 12))) AND 0x0F"
  let ?h = "unat ?n * 4"
  let ?d = "tcp_data_len packet po ihl"
  have "?n \<le> 0x0F" by (rule word_and_le1)
  then have h: "?h \<le> 60" by (simp add: word_le_nat_alt)
  have fits: "po + ?h + nat (min ?d 128) \<le> length packet" using h assms(3,4) by linarith
  have step: "tcp_data dv packet po ihl sq w =
    (if ?d > 0 then
       let w1 = kprint [10] (print_data (get (po + ?h) (nat (min ?d 128)) packet) (kprint ([10] @ str ''[TCP Data] Received: '') w));
           w2 = w1\<lparr>tcp_ack := sq + of_int ?d\<rparr>
       in send_tcp_packet dv (tcp_remote_ip w2) 80 (ucast (tcp_remote_port w2)) (tcp_seq w2) (tcp_ack w2) 0x10 w2
     else Some w)"
    using fits unfolding tcp_data_def tcp_data_len_def Let_def by simp
  show ?thesis
  proof (cases "?d > 0")
    case True
    define w2 where "w2 = (kprint [10] (print_data (get (po + ?h) (nat (min ?d 128)) packet)
        (kprint ([10] @ str ''[TCP Data] Received: '') w)))\<lparr>tcp_ack := sq + of_int ?d\<rparr>"
    have w2: "net_ok w2" "tcp_remote_ip w2 = tcp_remote_ip w" "tcp_remote_port w2 = tcp_remote_port w" "tcp_seq w2 = tcp_seq w"
      "tcp_state w2 = tcp_state w" "wire w2 = wire w" "tcp_ack w2 = sq + of_int ?d"
      using assms(2) by (simp_all add: w2_def print_data_con)
    obtain w' f where w': "send_tcp_packet dv (tcp_remote_ip w2) 80 (ucast (tcp_remote_port w2)) (tcp_seq w2) (tcp_ack w2) 0x10 w2 = Some w'"
        "sent f w2 w'" "net_ok w'" "is_segment f (tcp_remote_ip w2) (ucast (tcp_remote_port w2)) (tcp_seq w2) (tcp_ack w2) 0x10"
      using send_tcp_ok [OF assms(1) w2(1)] by blast
    have "tcp_data dv packet po ihl sq w = Some w'" unfolding step Let_def w2_def [symmetric] using True w'(1) by simp
    moreover have "tcp_state w' = tcp_state w" "tcp_seq w' = tcp_seq w" "wire w' = wire w @ [f]"
      using sent_frame [OF w'(2)] w2 by simp_all
    ultimately show ?thesis using True w'(3,4) w2 by auto
  next
    case False
    then show ?thesis using assms(2) unfolding step by simp
  qed
qed

lemma tcp_fin_spec:
  assumes "tx_ready dv" and "net_ok w"
  shows "\<exists>w' f. tcp_fin dv sq w = Some w' \<and> net_ok w' \<and> tcp_state w' = TCP_STATE_CLOSED \<and> wire w' = wire w @ [f] \<and> tcp_remote_ip w' = tcp_remote_ip w \<and>
    is_segment f (tcp_remote_ip w) (ucast (tcp_remote_port w)) (tcp_seq w) (sq + 1) 0x11"
proof -
  let ?w1 = "w\<lparr>tcp_ack := sq + 1\<rparr>"
  have "net_ok ?w1" using assms(2) by simp
  then obtain w' f where w': "send_tcp_packet dv (tcp_remote_ip ?w1) 80 (ucast (tcp_remote_port w)) (tcp_seq w) (sq + 1) 0x11 ?w1 = Some w'"
      "sent f ?w1 w'" "net_ok w'" "is_segment f (tcp_remote_ip ?w1) (ucast (tcp_remote_port w)) (tcp_seq w) (sq + 1) 0x11"
    using send_tcp_ok [OF assms(1), of ?w1] by blast
  then have "tcp_fin dv sq w = Some (kprint ([10] @ str ''[TCP Connection] Connection closed by remote host.'' @ [10]) (w'\<lparr>tcp_state := TCP_STATE_CLOSED\<rparr>))"
    by (simp add: tcp_fin_def Let_def)
  then show ?thesis using w'(3,4) sent_frame [OF w'(2)] by simp
qed

definition seg_flags_of :: "bytes \<Rightarrow> nat \<Rightarrow> u16" where
  "seg_flags_of packet po = ntohs (rd16 packet (po + 12)) AND 0x3F"

lemma port_80: "(ucast (p :: u16) :: u32) = 80 \<longleftrightarrow> p = 80"
proof
  assume "(ucast p :: u32) = 80"
  then have "(ucast (ucast p :: u32) :: u16) = ucast (80 :: u32)" by simp
  moreover have "(ucast (ucast p :: u32) :: u16) = p" by (rule bit_word_eqI) (auto simp: bit_simps)
  ultimately show "p = 80" by simp
qed simp

text \<open>The part of the handler before the close.\<close>

definition tcp_middle :: "'d ports \<Rightarrow> bytes \<Rightarrow> nat \<Rightarrow> nat \<Rightarrow> ('d, 'a) nworld_scheme \<Rightarrow> ('d, 'a) nworld_scheme option" where
  "tcp_middle dv packet po ihl w =
     (let tcp_flags = seg_flags_of packet po; sq = ntohl (rd32 packet (po + 4)) in
      if tcp_flags AND 0x02 \<noteq> 0 then tcp_syn dv (get 26 4 packet) (ntohs (rd16 packet po)) sq w
      else if tcp_flags AND 0x10 \<noteq> 0 \<and> tcp_state w = TCP_STATE_SYN_RCVD then
        Some (kprint ([10] @ str ''[TCP Connection] Established connection with remote host!'' @ [10])
                (w\<lparr>tcp_state := TCP_STATE_ESTABLISHED\<rparr>))
      else if tcp_flags AND 0x08 \<noteq> 0 \<or> tcp_flags AND 0x10 \<noteq> 0 then tcp_data dv packet po ihl sq w
      else Some w)"

lemma tcp_middle_spec:
  assumes "tx_ready dv" and ok: "net_ok w" and len: "length packet = 2048" and po: "po + 60 + 128 \<le> 2048"
  shows "\<exists>w1. tcp_middle dv packet po ihl w = Some w1 \<and> net_ok w1 \<and>
    (seg_flags_of packet po AND 0x01 = 0 \<longrightarrow> tcp_state w1 = tcp_next (seg_flags_of packet po) (tcp_state w)) \<and>
    (seg_flags_of packet po AND 0x02 \<noteq> 0 \<longrightarrow>
      (\<exists>f. wire w1 = wire w @ [f] \<and>
         is_segment f (get 26 4 packet) (ntohs (rd16 packet po)) 2000 (ntohl (rd32 packet (po + 4)) + 1) 0x12) \<and>
      tcp_remote_ip w1 = get 26 4 packet)"
proof -
  let ?fl = "seg_flags_of packet po" and ?sq = "ntohl (rd32 packet (po + 4))"
  have ip: "length (get 26 4 packet) = 4" using len by simp
  consider "?fl AND 0x02 \<noteq> 0" | "?fl AND 0x02 = 0" "?fl AND 0x10 \<noteq> 0" "tcp_state w = TCP_STATE_SYN_RCVD"
    | "?fl AND 0x02 = 0" "\<not> (?fl AND 0x10 \<noteq> 0 \<and> tcp_state w = TCP_STATE_SYN_RCVD)" "?fl AND 0x08 \<noteq> 0 \<or> ?fl AND 0x10 \<noteq> 0"
    | "?fl AND 0x02 = 0" "\<not> (?fl AND 0x10 \<noteq> 0 \<and> tcp_state w = TCP_STATE_SYN_RCVD)" "\<not> (?fl AND 0x08 \<noteq> 0 \<or> ?fl AND 0x10 \<noteq> 0)"
    by blast
  then show ?thesis
  proof cases
    case 1
    then show ?thesis
      using tcp_syn_spec [OF assms(1) ok ip, of "ntohs (rd16 packet po)" ?sq] by (auto simp: tcp_middle_def tcp_next_def Let_def)
  next
    case 2
    then show ?thesis using ok by (simp add: tcp_middle_def tcp_next_def Let_def)
  next
    case 3
    then show ?thesis
      using tcp_data_spec [OF assms, of ihl ?sq] by (auto simp: tcp_middle_def tcp_next_def Let_def)
  next
    case 4
    then show ?thesis using ok by (simp add: tcp_middle_def tcp_next_def Let_def)
  qed
qed


definition syn_frame :: bytes where
  "syn_frame = [0x52, 0x54, 0, 0x12, 0x34, 0x56, 1, 2, 3, 4, 5, 6, 0x08, 0,
     0x45, 0, 0, 40, 0, 1, 0, 0, 64, 6, 0, 0, 10, 0, 2, 2, 10, 0, 2, 15,
     0x30, 0x39, 0, 80, 0, 0, 0, 7, 0, 0, 0, 0, 0x50, 0x02, 0x20, 0, 0, 0, 0, 0] @ replicate 1994 0"

lemma net_start_net_ok: "net_ok net_start"
  using net_start_ok by (simp add: net_ok_def net_start_def nworld0_def halworld.defs)


end
