(* ===== verification/NetRx.thy ===== *)
theory NetRx
  imports NetTcp
begin

text \<open>
  The receive side: taking frames out of the ring, and robustness of the protocol handlers against
  whatever arrives.  Also the parser for dotted addresses.
\<close>

section \<open>The receive ring\<close>

text \<open>The bytes of the ring from a position on, around its end.\<close>

definition ring_bytes :: "(nat \<Rightarrow> u8) \<Rightarrow> nat \<Rightarrow> nat \<Rightarrow> nat \<Rightarrow> bytes" where
  "ring_bytes m buf pos n = map (\<lambda>i. m (buf + (pos + i) mod 8192)) [0..<n]"

lemma peek_ring:
  assumes "buf + 8192 \<le> W32" and "pos + n \<le> 8192"
  shows "peek_bytes m (buf + pos) n = ring_bytes m buf pos n"
  using assms by (auto simp: peek_bytes_def ring_bytes_def add.assoc)

lemma ring_split:
  assumes "buf + 8192 \<le> W32" and "pos \<le> 8192" and "pos + n \<ge> 8192" and "n \<le> 8192"
  shows "peek_bytes m (buf + pos) (8192 - pos) @ peek_bytes m buf (pos + n - 8192) = ring_bytes m buf pos n"
proof (rule nth_equalityI)
  fix i
  assume "i < length (peek_bytes m (buf + pos) (8192 - pos) @ peek_bytes m buf (pos + n - 8192))"
  then have i: "i < n" using assms by simp
  show "(peek_bytes m (buf + pos) (8192 - pos) @ peek_bytes m buf (pos + n - 8192)) ! i = ring_bytes m buf pos n ! i"
  proof (cases "i < 8192 - pos")
    case True
    then show ?thesis using i assms by (simp add: nth_append peek_bytes_def ring_bytes_def add.assoc)
  next
    case False
    then have "pos + i = (i - (8192 - pos)) + 8192" "i - (8192 - pos) < 8192" using i assms by linarith+
    then have "(pos + i) mod 8192 = i - (8192 - pos)" by (metis mod_add_self2 mod_less)
    moreover have "i - (8192 - pos) < pos + n - 8192" using i assms False by linarith
    ultimately show ?thesis using i assms False by (simp add: nth_append peek_bytes_def ring_bytes_def del: diff_diff_right)
  qed
qed (use assms in \<open>simp add: ring_bytes_def\<close>)



section \<open>Arbitrary frames\<close>

lemma ip_checksum_total:
  assumes "off + nat len \<le> length arr" and "odd len \<Longrightarrow> 1 \<le> int off + len"
  shows "\<exists>c. ip_checksum arr off len = Some c"
proof -
  have n: "off + 2 * (nat len div 2) \<le> length arr" using assms(1) by linarith
  have "0 \<le> int off + len - 1 \<and> int off + len - 1 < int (length arr)" if "len mod 2 = 1"
  proof -
    have "1 \<le> int off + len" using that assms(2) by (simp add: odd_iff_mod_2_eq_one)
    moreover have "int off + len \<le> int (length arr)" if "0 < len" using that assms(1) by linarith
    moreover have "off \<noteq> 0 \<or> 0 < len" using calculation(1) by linarith
    ultimately show ?thesis using assms(1) by (cases "0 < len") linarith+
  qed
  then show ?thesis using n by (simp add: ip_checksum_def Let_def)
qed

lemma echo_reply_total:
  assumes len: "length packet = 2048" "length stack = 1024" "length mac = 6"
    and ihl: "ihl \<le> 60" "even ihl" and tot: "int ihl + il = int l" "14 + l \<le> 1024"
  shows "\<exists>r. echo_reply mac stack packet ihl il = Some r \<and> length r \<le> 1024"
proof -
  have n: "nat (14 + int ihl + il) = 14 + l" using tot by linarith
  define r0 where "r0 = take (14 + l) packet @ drop (14 + l) stack"
  define r1 where "r1 = put 6 mac (put 0 (get 6 6 r0) r0)"
  define r2 where "r2 = put 24 [0, 0] (put 26 my_ip (put 30 (get 26 4 r1) r1))"
  have l0: "length r0 = 1024" using len tot by (simp add: r0_def)
  have l1: "length r1 = 1024" using l0 len by (simp add: r1_def)
  have l2: "length r2 = 1024" using l1 by (simp add: r2_def my_ip_def)
  obtain c where c: "ip_checksum r2 14 (int ihl) = Some c"
    using ip_checksum_total [of 14 "int ihl" r2] l2 ihl by auto
  let ?r3 = "put (14 + ihl + 2) [0, 0] (put (14 + ihl) [0] (put 24 (le16 c) r2))"
  have l3: "length ?r3 = 1024" using l2 ihl by simp
  have "\<exists>d. ip_checksum ?r3 (14 + ihl) il = Some d"
    using tot ihl l3 by (intro ip_checksum_total) linarith+
  then obtain d where d: "ip_checksum ?r3 (14 + ihl) il = Some d" by blast
  have "echo_reply mac stack packet ihl il = Some (take (14 + l) (put (14 + ihl + 2) (le16 d) ?r3))"
    unfolding echo_reply_def n Let_def r0_def [symmetric] r1_def [symmetric] r2_def [symmetric] using c d by simp
  then show ?thesis using tot by auto
qed

lemma handle_icmp_total:
  assumes "tx_ready dv" and ok: "net_ok w" and len: "length packet = 2048" "length stack = 1024" and sz: "sz \<le> 2048"
    and ihl: "ihl \<le> 60" "even ihl"
  shows "\<exists>w'. handle_icmp dv stack packet sz ihl w = Some w' \<and> net_ok w'"
proof -
  let ?l = "unat (ntohs (rd16 packet 16))"
  let ?il = "int ?l - int ihl"
  have e: "14 + int ihl + ?il = 14 + int ?l" by simp
  consider "sz < int (14 + ihl) + ?il" | "\<not> sz < int (14 + ihl) + ?il" "packet ! (14 + ihl) = 8"
    | "\<not> sz < int (14 + ihl) + ?il" "packet ! (14 + ihl) = 0" | "\<not> sz < int (14 + ihl) + ?il" "packet ! (14 + ihl) \<noteq> 8" "packet ! (14 + ihl) \<noteq> 0"
    by blast
  then show ?thesis
  proof cases
    case 2
    show ?thesis
    proof (cases "14 + int ihl + ?il > 1024")
      case True
      then show ?thesis using 2 ok unfolding handle_icmp_def Let_def by simp
    next
      case False
      then have l: "14 + ?l \<le> 1024" by linarith
      have tot: "int ihl + ?il = int ?l" by simp
      have mac: "length (my_mac w) = 6" "tx_ok w" using ok by (simp_all add: net_ok_def)
      obtain r where r: "echo_reply (my_mac w) stack packet ihl ?il = Some r" "length r \<le> 1024"
        using echo_reply_total [OF len mac(1) ihl tot l] by blast
      then obtain w' where w': "rtl8139_send_packet dv r w = Some w'" "sent r w w'" "tx_ok w'"
        using send_packet [OF assms(1) mac(2), of r] by auto
      have "net_ok w'" using ok w'(3) sent_frame [OF w'(2)] by (simp add: net_ok_def)
      then show ?thesis using 2 False r w' unfolding handle_icmp_def Let_def by simp
    qed
  next
    case 3
    let ?p = "put (14 + ihl + 2) [0, 0] packet"
    have lp: "length ?p = 2048" using len ihl by simp
    define l where "l = ?l"
    have "\<exists>c. ip_checksum ?p (14 + ihl) ?il = Some c"
      using 3(1) sz lp ihl(1) unfolding l_def [symmetric] by (intro ip_checksum_total) linarith+
    then obtain c where "ip_checksum ?p (14 + ihl) ?il = Some c" by blast
    then show ?thesis using 3 ok unfolding handle_icmp_def Let_def print_ip_def by (simp add: net_ok_def tx_ok_def)
  qed (use ok in \<open>simp_all add: handle_icmp_def Let_def\<close>)
qed

lemma arp_refresh_macs:
  "arp_refresh ip mac es = Some es' \<Longrightarrow> \<forall>e \<in> set es. length (ae_mac e) = 6 \<Longrightarrow> length mac = 6 \<Longrightarrow> \<forall>e \<in> set es'. length (ae_mac e) = 6"
  by (induction es arbitrary: es') (auto split: if_splits)

lemma arp_fill_macs:
  "arp_fill ip mac es = Some es' \<Longrightarrow> \<forall>e \<in> set es. length (ae_mac e) = 6 \<Longrightarrow> length mac = 6 \<Longrightarrow> \<forall>e \<in> set es'. length (ae_mac e) = 6"
  by (induction es arbitrary: es') (auto split: if_splits)

lemma arp_cache_add_ok:
  assumes "net_ok w" and "length mac = 6"
  shows "net_ok (arp_cache_add ip mac w)"
  using assms arp_refresh_macs [of ip mac "arp_cache w"] arp_fill_macs [of ip mac "arp_cache w"]
  by (auto simp: net_ok_def tx_ok_def arp_cache_add_def split: option.split)

lemma send_packet_ok:
  assumes "tx_ready dv" and "net_ok w" and "length f \<le> 2048"
  shows "\<exists>w'. rtl8139_send_packet dv f w = Some w' \<and> net_ok w'"
proof -
  obtain w' where "rtl8139_send_packet dv f w = Some w'" "sent f w w'" "tx_ok w'"
    using send_packet [OF assms(1) _ assms(3)] assms(2) by (auto simp: net_ok_def)
  then show ?thesis using assms(2) sent_frame [of f w w'] by (simp add: net_ok_def)
qed

lemma handle_arp_total:
  assumes "tx_ready dv" and "net_ok w" and "length packet = 2048"
  shows "\<exists>w'. handle_arp_packet dv packet sz w = Some w' \<and> net_ok w'"
proof -
  let ?w1 = "arp_cache_add (get 28 4 packet) (get 22 6 packet) w"
  have ok: "net_ok ?w1" using assms by (simp add: arp_cache_add_ok)
  then have "length (arp_frame (my_mac ?w1) (get 22 6 packet) 2 (get 22 6 packet) (get 28 4 packet)) \<le> 2048"
    using assms(3) by (simp add: net_ok_def arp_frame_def eth_header_def arp_packet_def my_ip_def)
  then show ?thesis using send_packet_ok [OF assms(1) ok] ok assms(2) by (simp add: handle_arp_packet_def Let_def)
qed

lemma handle_tcp_total:
  assumes "tx_ready dv" and "net_ok w" and "length packet = 2048" and "po + 60 + 128 \<le> 2048"
  shows "\<exists>w'. handle_tcp_packet dv packet po ihl w = Some w' \<and> net_ok w'"
proof (cases "(ucast (ntohs (rd16 packet (po + 2))) :: u32) = 80")
  case True
  obtain w1 where w1: "tcp_middle dv packet po ihl w = Some w1" "net_ok w1" using tcp_middle_spec [OF assms, of ihl] by blast
  have "handle_tcp_packet dv packet po ihl w =
      (if seg_flags_of packet po AND 0x01 \<noteq> 0 then tcp_fin dv (ntohl (rd32 packet (po + 4))) w1 else Some w1)"
    using True w1(1) by (simp add: handle_tcp_packet_def tcp_middle_def seg_flags_of_def Let_def)
  then show ?thesis using tcp_fin_spec [OF assms(1) w1(2)] w1(2) by auto
qed (use assms(2) in \<open>simp add: handle_tcp_packet_def Let_def\<close>)

lemma handle_udp_total:
  assumes "net_ok w" and "length packet = 2048" and "po + 8 + 64 \<le> 2048"
  shows "\<exists>w'. handle_udp_packet packet po w = Some w' \<and> net_ok w'"
proof -
  have "po + 8 + nat (min (int (unat (ntohs (rd16 packet (po + 4)))) - 8) 64) \<le> length packet" using assms(2,3) by linarith
  then show ?thesis using assms(1) unfolding handle_udp_packet_def Let_def by (simp add: print_data_con print_ip_def)
qed



end
