(* ===== verification/Rtc.thy ===== *)
theory Rtc
  imports Net
begin

text \<open>
  The real-time clock (drivers/rtc.c, and the copy of it in kernel.c): reading the CMOS registers until
  two readings agree, and converting them from BCD and from the twelve-hour clock.  \<open>None\<close> is a wait
  for the chip that does not end.
\<close>

section \<open>State and port access\<close>

record 'd rworld = "'d nworld" +
  rtc_second :: u8
  rtc_minute :: u8
  rtc_hour :: u8
  rtc_day :: u8
  rtc_month :: u8
  rtc_year :: u32

definition rworld0 :: "'d nworld \<Rightarrow> 'd rworld" where
  "rworld0 w = nworld.extend w
     \<lparr>rtc_second = 0, rtc_minute = 0, rtc_hour = 0, rtc_day = 0, rtc_month = 0, rtc_year = 0\<rparr>"

definition get_rtc_register :: "'d ports \<Rightarrow> u8 \<Rightarrow> ('d, 'a) dworld_scheme \<Rightarrow> u8 \<times> ('d, 'a) dworld_scheme" where
  "get_rtc_register dv reg w = inb dv 0x71 (outb dv 0x70 reg w)"

definition get_update_in_progress_flag :: "'d ports \<Rightarrow> ('d, 'a) dworld_scheme \<Rightarrow> u8 \<times> ('d, 'a) dworld_scheme" where
  "get_update_in_progress_flag dv w = (let (v, w1) = inb dv 0x71 (outb dv 0x70 0x0A w) in (v AND 0x80, w1))"

partial_function (option) wait_update :: "'d ports \<Rightarrow> ('d, 'a) dworld_scheme \<Rightarrow> ('d, 'a) dworld_scheme option" where
  "wait_update dv w =
     (case get_update_in_progress_flag dv w of (flag, w1) \<Rightarrow> if flag \<noteq> 0 then wait_update dv w1 else Some w1)"

section \<open>Reading\<close>

text \<open>One pass over the seven registers; the century is a local variable of the source.\<close>

definition read_rtc_registers :: "'d ports \<Rightarrow> ('d, 'a) rworld_scheme \<Rightarrow> u8 \<times> ('d, 'a) rworld_scheme" where
  "read_rtc_registers dv w =
     (let (s, w1) = get_rtc_register dv 0x00 w; w1 = w1\<lparr>rtc_second := s\<rparr>;
          (m, w2) = get_rtc_register dv 0x02 w1; w2 = w2\<lparr>rtc_minute := m\<rparr>;
          (h, w3) = get_rtc_register dv 0x04 w2; w3 = w3\<lparr>rtc_hour := h\<rparr>;
          (d, w4) = get_rtc_register dv 0x07 w3; w4 = w4\<lparr>rtc_day := d\<rparr>;
          (mo, w5) = get_rtc_register dv 0x08 w4; w5 = w5\<lparr>rtc_month := mo\<rparr>;
          (y, w6) = get_rtc_register dv 0x09 w5; w6 = w6\<lparr>rtc_year := ucast y\<rparr>
      in get_rtc_register dv 0x32 w6)"

definition rtc_fields :: "('d, 'a) rworld_scheme \<Rightarrow> u8 \<times> u8 \<times> u8 \<times> u8 \<times> u8 \<times> u32" where
  "rtc_fields w = (rtc_second w, rtc_minute w, rtc_hour w, rtc_day w, rtc_month w, rtc_year w)"

partial_function (option) rtc_settle :: "'d ports \<Rightarrow> u8 \<Rightarrow> ('d, 'a) rworld_scheme \<Rightarrow> (u8 \<times> ('d, 'a) rworld_scheme) option" where
  "rtc_settle dv last_century w =
     (case wait_update dv w of
        None \<Rightarrow> None
      | Some w1 \<Rightarrow>
          (case read_rtc_registers dv w1 of (century, w2) \<Rightarrow>
             if rtc_fields w \<noteq> rtc_fields w2 \<or> last_century \<noteq> century then rtc_settle dv century w2
             else Some (century, w2)))"

section \<open>Conversion\<close>

definition from_bcd :: "u8 \<Rightarrow> u8" where
  "from_bcd v = (v AND 0x0F) + (v div 16) * 10"

definition hour_from_bcd :: "u8 \<Rightarrow> u8" where
  "hour_from_bcd h = ((h AND 0x0F) + ((h AND 0x70) div 16) * 10) OR (h AND 0x80)"

definition to_24_hour :: "u8 \<Rightarrow> u8 \<Rightarrow> u8" where
  "to_24_hour registerB h = (if registerB AND 0x02 = 0 \<and> h AND 0x80 \<noteq> 0 then ((h AND 0x7F) + 12) mod 24 else h)"

definition full_year :: "u8 \<Rightarrow> u32 \<Rightarrow> u32" where
  "full_year century y = y + (if century \<noteq> 0 then ucast century * 100 else if y > 69 then 1900 else 2000)"

definition rtc_decode :: "u8 \<Rightarrow> u8 \<Rightarrow> ('d, 'a) rworld_scheme \<Rightarrow> ('d, 'a) rworld_scheme" where
  "rtc_decode registerB century w =
     (let bcd = registerB AND 0x04 = 0;
          w1 = (if bcd then w\<lparr>rtc_second := from_bcd (rtc_second w), rtc_minute := from_bcd (rtc_minute w),
                  rtc_hour := hour_from_bcd (rtc_hour w), rtc_day := from_bcd (rtc_day w), rtc_month := from_bcd (rtc_month w),
                  rtc_year := (rtc_year w AND 0x0F) + (rtc_year w div 16) * 10\<rparr> else w);
          c = (if bcd then from_bcd century else century)
      in w1\<lparr>rtc_hour := to_24_hour registerB (rtc_hour w1), rtc_year := full_year c (rtc_year w1)\<rparr>)"

definition read_rtc :: "'d ports \<Rightarrow> ('d, 'a) rworld_scheme \<Rightarrow> ('d, 'a) rworld_scheme option" where
  "read_rtc dv w =
     (case wait_update dv w of
        None \<Rightarrow> None
      | Some w1 \<Rightarrow>
          (case read_rtc_registers dv w1 of (c, w2) \<Rightarrow>
           case rtc_settle dv c w2 of
             None \<Rightarrow> None
           | Some (century, w3) \<Rightarrow>
               let (registerB, w4) = get_rtc_register dv 0x0B w3 in Some (rtc_decode registerB century w4)))"

section \<open>The chip\<close>

text \<open>
  What the driver relies on: port 0x70 selects a register, port 0x71 reads it, and the update flag in
  register 0x0A goes away after a number of readings that the chip knows; the time stands still
  meanwhile.
\<close>

definition rtc_chip :: "'d ports \<Rightarrow> ('d \<Rightarrow> u8) \<Rightarrow> ('d \<Rightarrow> u8 \<Rightarrow> u8) \<Rightarrow> ('d \<Rightarrow> nat) \<Rightarrow> bool" where
  "rtc_chip dv idx regs busy \<longleftrightarrow>
     (\<forall>d v. idx (p_outb dv 0x70 v d) = v \<and> regs (p_outb dv 0x70 v d) = regs d \<and> busy (p_outb dv 0x70 v d) = busy d) \<and>
     (\<forall>d. regs (snd (p_inb dv 0x71 d)) = regs d) \<and>
     (\<forall>d. idx d \<noteq> 0x0A \<longrightarrow> fst (p_inb dv 0x71 d) = regs d (idx d) \<and> busy (snd (p_inb dv 0x71 d)) = busy d) \<and>
     (\<forall>d. idx d = 0x0A \<longrightarrow>
        (if busy d = 0 then fst (p_inb dv 0x71 d) AND 0x80 = 0 \<and> busy (snd (p_inb dv 0x71 d)) = 0
         else busy (snd (p_inb dv 0x71 d)) < busy d))"

text \<open>The registers for a time, as the data sheet has them: BCD unless bit 2 of register B is set, and twelve hours unless bit 1 is.\<close>

definition to_bcd :: "u8 \<Rightarrow> nat \<Rightarrow> u8" where
  "to_bcd registerB n = (if registerB AND 0x04 = 0 then of_nat (16 * (n div 10) + n mod 10) else of_nat n)"

definition hour_register :: "u8 \<Rightarrow> nat \<Rightarrow> u8" where
  "hour_register registerB h =
     (if registerB AND 0x02 \<noteq> 0 then to_bcd registerB h
      else to_bcd registerB (if h mod 12 = 0 then 12 else h mod 12) OR (if h \<ge> 12 then 0x80 else 0))"

definition shows_time :: "(u8 \<Rightarrow> u8) \<Rightarrow> nat \<Rightarrow> nat \<Rightarrow> nat \<Rightarrow> nat \<Rightarrow> nat \<Rightarrow> nat \<Rightarrow> bool" where
  "shows_time r y mo d h m s \<longleftrightarrow>
     (let b = r 0x0B in
      r 0x00 = to_bcd b s \<and> r 0x02 = to_bcd b m \<and> r 0x04 = hour_register b h \<and> r 0x07 = to_bcd b d \<and> r 0x08 = to_bcd b mo \<and>
      r 0x09 = to_bcd b (y mod 100) \<and> r 0x32 = to_bcd b (y div 100))"

lemma get_register:
  assumes "rtc_chip dv idx regs busy" and "reg \<noteq> 0x0A"
  shows "\<exists>d. get_rtc_register dv reg w = (regs (dev w) reg, w\<lparr>dev := d\<rparr>) \<and> regs d = regs (dev w)"
proof -
  let ?d = "p_outb dv 0x70 reg (dev w)"
  have "idx ?d = reg" "regs ?d = regs (dev w)" using assms(1) by (simp_all add: rtc_chip_def)
  then have "fst (p_inb dv 0x71 ?d) = regs (dev w) reg" "regs (snd (p_inb dv 0x71 ?d)) = regs (dev w)"
    using assms by (auto simp: rtc_chip_def)
  then show ?thesis by (auto simp: get_rtc_register_def inb_def outb_def Let_def split: prod.splits)
qed

lemma wait_update_ends:
  assumes "rtc_chip dv idx regs busy"
  shows "\<exists>d. wait_update dv w = Some (w\<lparr>dev := d\<rparr>) \<and> regs d = regs (dev w)"
proof (induction "busy (dev w)" arbitrary: w rule: less_induct)
  case less
  let ?d = "p_outb dv 0x70 0x0A (dev w)"
  obtain v e where ve: "p_inb dv 0x71 ?d = (v, e)" by force
  have idx: "idx ?d = 0x0A" "busy ?d = busy (dev w)" "regs ?d = regs (dev w)" using assms by (simp_all add: rtc_chip_def)
  have regs: "regs e = regs (dev w)" using assms idx ve unfolding rtc_chip_def by (metis snd_conv)
  have step: "wait_update dv w = (if v AND 0x80 \<noteq> 0 then wait_update dv (w\<lparr>dev := e\<rparr>) else Some (w\<lparr>dev := e\<rparr>))"
    using ve by (subst wait_update.simps) (simp add: get_update_in_progress_flag_def inb_def outb_def Let_def)
  have flag: "if busy (dev w) = 0 then v AND 0x80 = 0 else busy e < busy (dev w)"
    using assms idx ve unfolding rtc_chip_def by (metis fst_conv snd_conv)
  show ?case
  proof (cases "v AND 0x80 = 0")
    case False
    then have "busy e < busy (dev w)" using flag by (auto split: if_splits)
    then obtain d where "wait_update dv (w\<lparr>dev := e\<rparr>) = Some (w\<lparr>dev := d\<rparr>)" "regs d = regs e"
      using less [of "w\<lparr>dev := e\<rparr>"] by auto
    then show ?thesis using step False regs by auto
  qed (use step regs in auto)
qed

text \<open>What a pass over the registers leaves behind.\<close>

definition holds_registers :: "(u8 \<Rightarrow> u8) \<Rightarrow> ('d, 'a) rworld_scheme \<Rightarrow> bool" where
  "holds_registers r w \<longleftrightarrow> rtc_fields w = (r 0x00, r 0x02, r 0x04, r 0x07, r 0x08, ucast (r 0x09))"

lemma read_registers:
  assumes "rtc_chip dv idx regs busy"
  shows "\<exists>w'. read_rtc_registers dv w = (regs (dev w) 0x32, w') \<and> regs (dev w') = regs (dev w) \<and> holds_registers (regs (dev w)) w'"
proof -
  note g = get_register [OF assms]
  obtain d1 where d1: "get_rtc_register dv 0x00 w = (regs (dev w) 0x00, w\<lparr>dev := d1\<rparr>)" "regs d1 = regs (dev w)"
    using g [of "0x00" w] by auto
  define w1 where "w1 = w\<lparr>dev := d1, rtc_second := regs (dev w) 0x00\<rparr>"
  obtain d2 where d2: "get_rtc_register dv 0x02 w1 = (regs (dev w) 0x02, w1\<lparr>dev := d2\<rparr>)" "regs d2 = regs (dev w)"
    using g [of "0x02" w1] d1 by (auto simp: w1_def)
  define w2 where "w2 = w1\<lparr>dev := d2, rtc_minute := regs (dev w) 0x02\<rparr>"
  obtain d3 where d3: "get_rtc_register dv 0x04 w2 = (regs (dev w) 0x04, w2\<lparr>dev := d3\<rparr>)" "regs d3 = regs (dev w)"
    using g [of "0x04" w2] d2 by (auto simp: w2_def)
  define w3 where "w3 = w2\<lparr>dev := d3, rtc_hour := regs (dev w) 0x04\<rparr>"
  obtain d4 where d4: "get_rtc_register dv 0x07 w3 = (regs (dev w) 0x07, w3\<lparr>dev := d4\<rparr>)" "regs d4 = regs (dev w)"
    using g [of "0x07" w3] d3 by (auto simp: w3_def)
  define w4 where "w4 = w3\<lparr>dev := d4, rtc_day := regs (dev w) 0x07\<rparr>"
  obtain d5 where d5: "get_rtc_register dv 0x08 w4 = (regs (dev w) 0x08, w4\<lparr>dev := d5\<rparr>)" "regs d5 = regs (dev w)"
    using g [of "0x08" w4] d4 by (auto simp: w4_def)
  define w5 where "w5 = w4\<lparr>dev := d5, rtc_month := regs (dev w) 0x08\<rparr>"
  obtain d6 where d6: "get_rtc_register dv 0x09 w5 = (regs (dev w) 0x09, w5\<lparr>dev := d6\<rparr>)" "regs d6 = regs (dev w)"
    using g [of "0x09" w5] d5 by (auto simp: w5_def)
  define w6 where "w6 = w5\<lparr>dev := d6, rtc_year := ucast (regs (dev w) 0x09)\<rparr>"
  obtain d7 where d7: "get_rtc_register dv 0x32 w6 = (regs (dev w) 0x32, w6\<lparr>dev := d7\<rparr>)" "regs d7 = regs (dev w)"
    using g [of "0x32" w6] d6 by (auto simp: w6_def)
  have "read_rtc_registers dv w = (regs (dev w) 0x32, w6\<lparr>dev := d7\<rparr>)"
    using d1(1) d2(1) d3(1) d4(1) d5(1) d6(1) d7(1)
    by (simp add: read_rtc_registers_def Let_def w1_def [symmetric] w2_def [symmetric] w3_def [symmetric] w4_def [symmetric]
        w5_def [symmetric] w6_def [symmetric])
  moreover have "holds_registers (regs (dev w)) (w6\<lparr>dev := d7\<rparr>)"
    by (simp add: holds_registers_def rtc_fields_def w1_def w2_def w3_def w4_def w5_def w6_def)
  ultimately show ?thesis using d7(2) by auto
qed

lemma read_rtc_ends:
  assumes "rtc_chip dv idx regs busy"
  shows "\<exists>w'. read_rtc dv w = Some (rtc_decode (regs (dev w) 0x0B) (regs (dev w) 0x32) w') \<and> holds_registers (regs (dev w)) w'"
proof -
  let ?r = "regs (dev w)"
  note rd = read_registers [OF assms]
  obtain d1 where d1: "wait_update dv w = Some (w\<lparr>dev := d1\<rparr>)" "regs d1 = ?r" using wait_update_ends [OF assms] by blast
  obtain w2 where w2: "read_rtc_registers dv (w\<lparr>dev := d1\<rparr>) = (?r 0x32, w2)" "regs (dev w2) = ?r" "holds_registers ?r w2"
    using rd [of "w\<lparr>dev := d1\<rparr>"] d1 by auto
  obtain d3 where d3: "wait_update dv w2 = Some (w2\<lparr>dev := d3\<rparr>)" "regs d3 = ?r" using wait_update_ends [OF assms, of w2] w2 by auto
  obtain w4 where w4: "read_rtc_registers dv (w2\<lparr>dev := d3\<rparr>) = (?r 0x32, w4)" "regs (dev w4) = ?r" "holds_registers ?r w4"
    using rd [of "w2\<lparr>dev := d3\<rparr>"] d3 by auto
  have "rtc_settle dv (?r 0x32) w2 = Some (?r 0x32, w4)"
    using d3(1) w4(1,3) w2(3) by (subst rtc_settle.simps) (simp add: holds_registers_def)
  moreover obtain d5 where "get_rtc_register dv 0x0B w4 = (?r 0x0B, w4\<lparr>dev := d5\<rparr>)"
    using get_register [OF assms, of "0x0B" w4] w4(2) by auto
  moreover have "holds_registers ?r (w4\<lparr>dev := d5\<rparr>)" for d5 using w4(3) by (simp add: holds_registers_def rtc_fields_def)
  ultimately show ?thesis using d1(1) w2(1) by (auto simp: read_rtc_def)
qed

section \<open>The time\<close>

lemma from_bcd_table: "\<forall>n \<in> set [0..<100]. from_bcd (of_nat (16 * (n div 10) + n mod 10)) = of_nat n"
  unfolding from_bcd_def by code_simp

lemma ucast_small: "n < 256 \<Longrightarrow> ucast (of_nat n :: u8) = (of_nat n :: u32)"
  by (simp add: unsigned_of_nat take_bit_nat_eq_self)

lemma year_bcd_table: "\<forall>n \<in> set [0..<100]. (of_nat (16 * (n div 10) + n mod 10) AND 0x0F) + (of_nat (16 * (n div 10) + n mod 10) div 16) * 10 = (of_nat n :: u32)"
  by code_simp

lemma from_bcd_to_bcd: "n < 100 \<Longrightarrow> (if b AND 0x04 = 0 then from_bcd (to_bcd b n) else to_bcd b n) = of_nat n"
  using bspec [OF from_bcd_table, of n] by (simp add: to_bcd_def)

lemma year_to_bcd:
  "n < 100 \<Longrightarrow> (if b AND 0x04 = 0 then (ucast (to_bcd b n) AND 0x0F) + (ucast (to_bcd b n) div 16) * 10 else ucast (to_bcd b n)) = (of_nat n :: u32)"
proof -
  assume n: "n < 100"
  then have "16 * (n div 10) + n mod 10 < 256" by linarith
  then have "ucast (of_nat (16 * (n div 10) + n mod 10) :: u8) = (of_nat (16 * (n div 10) + n mod 10) :: u32)" by (rule ucast_small)
  then show ?thesis using bspec [OF year_bcd_table, of n] ucast_small [of n] n unfolding to_bcd_def
    by (cases "b AND 0x04 = 0") (simp_all only: simp_thms if_True if_False, simp_all)
qed

lemma full_year_of:
  assumes "100 \<le> y" and "y < 10000"
  shows "full_year (of_nat (y div 100)) (of_nat (y mod 100)) = of_nat y"
proof -
  have c: "0 < y div 100" "y div 100 < 256" using assms by (simp_all add: less_mult_imp_div_less div_greater_zero_iff)
  then have "unat (of_nat (y div 100) :: u8) \<noteq> 0" by (simp add: unsigned_of_nat take_bit_nat_eq_self)
  then have "(of_nat (y div 100) :: u8) \<noteq> 0" by (metis unsigned_0)
  moreover have "ucast (of_nat (y div 100) :: u8) * 100 = (of_nat (y div 100 * 100) :: u32)" using c by (simp add: ucast_small)
  ultimately
  have "full_year (of_nat (y div 100)) (of_nat (y mod 100)) = of_nat (y mod 100) + of_nat (y div 100 * 100)"
    unfolding full_year_def by (simp only: if_True simp_thms)
  then show ?thesis by (simp only: of_nat_add [symmetric] mod_div_mult_eq)
qed

text \<open>The twelve-hour clock is converted wrongly at noon and at midnight.\<close>

lemma hour_table:
  "\<forall>h \<in> set [0..<24]. (let b = if h mod 12 = 0 then 12 else h mod 12; pm = if h \<ge> 12 then 0x80 else (0 :: u8);
       f = (\<lambda>x. if x AND 0x80 \<noteq> 0 then ((x AND 0x7F) + 12) mod 24 else x :: u8); r = of_nat (if h = 0 then 12 else if h = 12 then 0 else h)
     in f (hour_from_bcd (of_nat (16 * (b div 10) + b mod 10) OR pm)) = r \<and> f (of_nat b OR pm) = r \<and>
        hour_from_bcd (of_nat (16 * (h div 10) + h mod 10)) = of_nat h)"
  unfolding hour_from_bcd_def by code_simp

lemma hour_of:
  assumes "h < 24"
  shows "to_24_hour b (if b AND 0x04 = 0 then hour_from_bcd (hour_register b h) else hour_register b h) =
    of_nat (if b AND 0x02 = 0 \<and> h = 0 then 12 else if b AND 0x02 = 0 \<and> h = 12 then 0 else h)"
proof -
  let ?b = "if h mod 12 = 0 then 12 else h mod 12" and ?pm = "if h \<ge> 12 then 0x80 else (0 :: u8)"
  let ?f = "\<lambda>x. if x AND 0x80 \<noteq> 0 then ((x AND 0x7F) + 12) mod 24 else x :: u8"
  have t: "?f (hour_from_bcd (of_nat (16 * (?b div 10) + ?b mod 10) OR ?pm)) = of_nat (if h = 0 then 12 else if h = 12 then 0 else h)"
    "?f (of_nat ?b OR ?pm) = of_nat (if h = 0 then 12 else if h = 12 then 0 else h)"
    "hour_from_bcd (of_nat (16 * (h div 10) + h mod 10)) = of_nat h"
    using bspec [OF hour_table, of h] assms unfolding Let_def by auto
  consider "b AND 0x02 = 0" "b AND 0x04 = 0" | "b AND 0x02 = 0" "b AND 0x04 \<noteq> 0" | "b AND 0x02 \<noteq> 0" by blast
  then show ?thesis
  proof cases
    case 1
    then show ?thesis unfolding hour_register_def to_bcd_def to_24_hour_def using t(1) by (simp only: simp_thms if_True if_False)
  next
    case 2
    then show ?thesis unfolding hour_register_def to_bcd_def to_24_hour_def using t(2) by (simp only: simp_thms if_True if_False)
  next
    case 3
    then show ?thesis unfolding hour_register_def to_bcd_def to_24_hour_def using t(3) by (simp only: simp_thms if_True if_False) simp
  qed
qed


text \<open>A chip in the twelve-hour BCD mode at noon.\<close>

definition noon_regs :: "u8 \<Rightarrow> u8" where
  "noon_regs r = (if r = 0x0B then 0 else if r = 0x00 then 0x59 else if r = 0x02 then 0x30 else if r = 0x04 then 0x92
     else if r = 0x07 then 0x24 else if r = 0x08 then 0x12 else if r = 0x09 then 0x25 else if r = 0x32 then 0x20 else 0)"

definition clock_ports :: "(u8 \<times> nat) ports" where
  "clock_ports = \<lparr>p_inb = (\<lambda>_ (i, n). if i = 0x0A then (if n = 0 then 0 else 0x80, (i, n - 1)) else (noon_regs i, (i, n))),
     p_inw = (\<lambda>_ d. (0, d)), p_inl = (\<lambda>_ d. (0, d)), p_outb = (\<lambda>p v (i, n). if p = 0x70 then (v, n) else (i, n)),
     p_outw = (\<lambda>_ _ d. d), p_outl = (\<lambda>_ _ d. d), p_mem = (\<lambda>_ m. m)\<rparr>"

lemma clock_chip: "rtc_chip clock_ports fst (\<lambda>_. noon_regs) snd"
  by (auto simp: rtc_chip_def clock_ports_def split: prod.splits)

definition clock_start :: "(u8 \<times> nat) rworld" where
  "clock_start = rworld0 (nworld0 (halworld0 (dworld0 (fsworld0 (\<lambda>_. 0) 0x200000) (0, 3))))"


end
