(* ===== verification/Gui.thy ===== *)
theory Gui
  imports Rtc
begin

text \<open>
  Ticks, background tasks and the graphical desktop of kernel.c (the timer handler and sections 5.7 and
  5.8): switching the display to mode 13h, drawing into the back buffer, the mouse, and the frame that is
  copied to the screen.

  The back buffer and the memory of the screen are functions of the byte offset; the bitmap font is the
  global array, which the source fills with zeros.  Coordinates are C \<open>int\<close>s.  Code that was loaded at
  run time is a parameter \<open>call\<close>.  A handler that ends in \<open>kernel_panic\<close> returns the halted
  state on the left of a sum; \<open>None\<close> is a fault.
\<close>

section \<open>State\<close>

record 'd gworld = "'d rworld" +
  system_ticks :: u32
  uptime_seconds :: u32
  daemon_tasks :: "nat list"
  double_buffer :: "int \<Rightarrow> u8"
  vga_memory :: "int \<Rightarrow> u8"
  font8x8 :: "nat \<Rightarrow> nat \<Rightarrow> u8"
  win_x :: int
  win_y :: int
  win_w :: int
  win_h :: int
  is_dragging :: bool
  drag_off_x :: int
  drag_off_y :: int
  mouse_x :: int
  mouse_y :: int
  mouse_cycle :: nat
  mouse_byte :: bytes
  vga_active :: bool
  frame_ready :: bool
  gui_cmd_buffer :: bytes
  gui_cmd_len :: nat

definition gworld0 :: "(int \<Rightarrow> u8) \<Rightarrow> 'd rworld \<Rightarrow> 'd gworld" where
  "gworld0 screen w = rworld.extend w
     \<lparr>system_ticks = 0, uptime_seconds = 0, daemon_tasks = replicate 4 0, double_buffer = (\<lambda>_. 0), vga_memory = screen,
      font8x8 = (\<lambda>_ _. 0), win_x = 80, win_y = 40, win_w = 160, win_h = 100, is_dragging = False, drag_off_x = 0, drag_off_y = 0,
      mouse_x = 160, mouse_y = 100, mouse_cycle = 0, mouse_byte = replicate 3 0, vga_active = False, frame_ready = True,
      gui_cmd_buffer = replicate 100 0, gui_cmd_len = 0\<rparr>"

section \<open>Timer\<close>

definition run_background_tasks :: "(nat \<Rightarrow> ('d, 'a) gworld_scheme \<Rightarrow> ('d, 'a) gworld_scheme option) \<Rightarrow> ('d, 'a) gworld_scheme \<Rightarrow>
    ('d, 'a) gworld_scheme option" where
  "run_background_tasks call w =
     fold (\<lambda>i r. case r of None \<Rightarrow> None | Some v \<Rightarrow> if daemon_tasks v ! i \<noteq> 0 then call (daemon_tasks v ! i) v else Some v) [0..<4] (Some w)"

definition timer_isr_handler :: "'d ports \<Rightarrow> (nat \<Rightarrow> ('d, 'a) gworld_scheme \<Rightarrow> ('d, 'a) gworld_scheme option) \<Rightarrow> nat \<Rightarrow>
    ('d, 'a) gworld_scheme \<Rightarrow> (nat \<times> ('d, 'a) gworld_scheme) option" where
  "timer_isr_handler dv call esp w =
     (let w1 = w\<lparr>system_ticks := system_ticks w + 1\<rparr>;
          w2 = (if system_ticks w1 mod 18 = 0 then w1\<lparr>uptime_seconds := uptime_seconds w1 + 1\<rparr> else w1);
          w3 = (if vga_active w2 then w2\<lparr>frame_ready := True\<rparr> else w2)
      in do { w4 \<leftarrow> run_background_tasks call w3; (esp', w5) \<leftarrow> task_switch esp w4; Some (esp', outb dv 0x20 0x20 w5) })"

section \<open>Display mode\<close>

definition crtc_data :: bytes where
  "crtc_data = [0x5F, 0x4F, 0x50, 0x82, 0x54, 0x80, 0xBF, 0x1F, 0x00, 0x41, 0x00, 0x00, 0x00, 0x00, 0x00, 0x00,
     0x9C, 0x8E, 0x8F, 0x28, 0x40, 0x96, 0xB9, 0xA3, 0xFF]"

definition set_vga_mode_13h :: "'d ports \<Rightarrow> ('d, 'a) dworld_scheme \<Rightarrow> ('d, 'a) dworld_scheme" where
  "set_vga_mode_13h dv w =
     (let outs = fold (\<lambda>(p, v). outb dv p v);
          (val, w1) = inb dv 0x3D5 (outb dv 0x3D4 0x11 w);
          w2 = outs [(0x3D5, val AND 0x7F), (0x3C2, 0x63),
                     (0x3C4, 0x00), (0x3C5, 0x03), (0x3C4, 0x01), (0x3C5, 0x01), (0x3C4, 0x02), (0x3C5, 0x0F),
                     (0x3C4, 0x03), (0x3C5, 0x00), (0x3C4, 0x04), (0x3C5, 0x0E)] w1;
          w3 = fold (\<lambda>i v. outb dv 0x3D5 (crtc_data ! i) (outb dv 0x3D4 (of_nat i) v)) [0..<25] w2;
          w4 = outs [(0x3CE, 0x05), (0x3CF, 0x40), (0x3CE, 0x06), (0x3CF, 0x05)] w3;
          w5 = outs [(0x3C0, 0x30), (0x3C0, 0x41), (0x3C0, 0x33), (0x3C0, 0x00)] (snd (inb dv 0x3DA w4))
      in outb dv 0x3C0 0x20 (snd (inb dv 0x3DA w5)))"

section \<open>Drawing\<close>

definition draw_pixel :: "int \<Rightarrow> int \<Rightarrow> u8 \<Rightarrow> ('d, 'a) gworld_scheme \<Rightarrow> ('d, 'a) gworld_scheme" where
  "draw_pixel x y color w =
     (if x \<ge> 0 \<and> x < 320 \<and> y \<ge> 0 \<and> y < 200 then w\<lparr>double_buffer := (double_buffer w)(y * 320 + x := color)\<rparr> else w)"

definition draw_rect :: "int \<Rightarrow> int \<Rightarrow> int \<Rightarrow> int \<Rightarrow> u8 \<Rightarrow> ('d, 'a) gworld_scheme \<Rightarrow> ('d, 'a) gworld_scheme" where
  "draw_rect x y wd h color s = fold (\<lambda>i. fold (\<lambda>j. draw_pixel j i color) [x..x + wd - 1]) [y..y + h - 1] s"

definition draw_char_gui :: "int \<Rightarrow> int \<Rightarrow> u8 \<Rightarrow> u8 \<Rightarrow> ('d, 'a) gworld_scheme \<Rightarrow> ('d, 'a) gworld_scheme" where
  "draw_char_gui x y c color w =
     fold (\<lambda>row v. fold (\<lambda>col u. if bit (font8x8 w (unat c) row) (7 - col) then draw_pixel (x + int col) (y + int row) color u else u) [0..<8] v)
       [0..<8] w"

fun draw_chars :: "int \<Rightarrow> int \<Rightarrow> int \<Rightarrow> bytes \<Rightarrow> u8 \<Rightarrow> ('d, 'a) gworld_scheme \<Rightarrow> ('d, 'a) gworld_scheme" where
  "draw_chars x current_x y [] color w = w"
| "draw_chars x current_x y (c # cs) color w =
     (if c = 10 then draw_chars x x (y + 10) cs color w else draw_chars x (current_x + 8) y cs color (draw_char_gui current_x y c color w))"

definition draw_string_gui :: "int \<Rightarrow> int \<Rightarrow> bytes \<Rightarrow> u8 \<Rightarrow> ('d, 'a) gworld_scheme \<Rightarrow> ('d, 'a) gworld_scheme" where
  "draw_string_gui x y t color w = draw_chars x x y (cstr t) color w"

text \<open>One line of the live view of the text screen: the bits of a byte as plus signs and crosses.\<close>

definition draw_bits :: "int \<Rightarrow> int \<Rightarrow> u8 \<Rightarrow> ('d, 'a) gworld_scheme \<Rightarrow> ('d, 'a) gworld_scheme" where
  "draw_bits x y val w =
     fold (\<lambda>k v. let on = bit val (7 - k) in draw_char_gui (x + 8 * int k) y (if on then 43 else 120) (if on then 0x0A else 0x08) v) [0..<8] w"

definition draw_frame :: "('d, 'a) gworld_scheme \<Rightarrow> ('d, 'a) gworld_scheme" where
  "draw_frame w =
     (let wx = win_x w; wy = win_y w; ww = win_w w; wh = win_h w;
          w1 = draw_rect wx wy ww wh 0x07 (draw_rect (wx + 3) (wy + 3) ww wh 0x00 (draw_rect 0 0 320 200 0x01 w));
          w2 = draw_string_gui (wx + 4) (wy + 1) (str ''NEWREX TERMINAL'') 0x0F (draw_rect wx wy ww 10 0x03 w1);
          term_x = wx + 4; term_y = wy + 14;
          w3 = draw_string_gui (term_x + 4) (term_y + 4) (str ''WATCH 0xB8000:'') 0x0B (draw_rect term_x term_y (ww - 8) (wh - 18) 0x00 w2);
          w4 = fold (\<lambda>i v. draw_bits (term_x + 4) (term_y + 18 + int i * 10) (video (con v) (int i * 2)) v) [0..<5] w3;
          w5 = draw_rect (mouse_x w4) (mouse_y w4) 3 3 0x0F w4;
          prompt_y = term_y + wh - 28;
          w6 = draw_string_gui (term_x + 4) prompt_y (str ''root@nwm:~#'') 0x0C w5;
          w7 = draw_string_gui (term_x + 4 + 96) prompt_y (gui_cmd_buffer w6) 0x0F w6
      in if system_ticks w7 mod 10 < 5 then draw_char_gui (term_x + 4 + (12 + int (gui_cmd_len w7)) * 8) prompt_y 95 0x0F w7 else w7)"

definition render_gui :: "('d, 'a) gworld_scheme \<Rightarrow> ('d, 'a) gworld_scheme" where
  "render_gui w =
     (if \<not> vga_active w then w
      else
        let w8 = draw_frame w
        in w8\<lparr>vga_memory := (\<lambda>i. if 0 \<le> i \<and> i < 64000 then double_buffer w8 i else vga_memory w8 i)\<rparr>)"

section \<open>Mouse\<close>

text \<open>\<open>mouse_byte\<close> is an array of \<open>char\<close>, which is signed.\<close>

definition clamp :: "int \<Rightarrow> int \<Rightarrow> int" where
  "clamp hi v = (let v1 = if v < 0 then 0 else v in if v1 > hi then hi else v1)"

definition mouse_move :: "('d, 'a) gworld_scheme \<Rightarrow> ('d, 'a) gworld_scheme" where
  "mouse_move w =
     (let b = mouse_byte w; dx = sint (b ! 1); dy = sint (b ! 2);
          x = (if b ! 0 AND 0x10 \<noteq> 0 then mouse_x w - (256 - dx) else mouse_x w + dx);
          y = (if b ! 0 AND 0x20 \<noteq> 0 then mouse_y w + (256 - dy) else mouse_y w - dy)
      in w\<lparr>mouse_x := clamp 319 x, mouse_y := clamp 199 y, frame_ready := True\<rparr>)"

text \<open>The click on the title bar or on the panic button; the left of the sum is the halted machine.\<close>

definition mouse_click :: "('d, 'a) gworld_scheme \<Rightarrow> ('d, 'a) gworld_scheme + ('d, 'a) gworld_scheme" where
  "mouse_click w =
     (if mouse_byte w ! 0 AND 0x01 \<noteq> 0 then
        let w1 = (if \<not> is_dragging w \<and> mouse_x w \<ge> win_x w \<and> mouse_x w \<le> win_x w + win_w w \<and> mouse_y w \<ge> win_y w \<and> mouse_y w \<le> win_y w + 10
                  then w\<lparr>is_dragging := True, drag_off_x := mouse_x w - win_x w, drag_off_y := mouse_y w - win_y w\<rparr> else w)
        in if mouse_x w1 \<ge> win_x w1 + 10 \<and> mouse_x w1 \<le> win_x w1 + win_w w1 - 10 \<and> mouse_y w1 \<ge> win_y w1 + 25 \<and> mouse_y w1 \<le> win_y w1 + 55
           then Inl (con_update (kernel_panic (str ''GUI KERNEL PANIC INITIATED BY USER CLICK'')) w1)
           else Inr w1
      else Inr (w\<lparr>is_dragging := False\<rparr>))"

definition mouse_drag :: "('d, 'a) gworld_scheme \<Rightarrow> ('d, 'a) gworld_scheme" where
  "mouse_drag w = (if is_dragging w then w\<lparr>win_x := mouse_x w - drag_off_x w, win_y := mouse_y w - drag_off_y w\<rparr> else w)"

definition mouse_isr_handler :: "'d ports \<Rightarrow> ('d, 'a) gworld_scheme \<Rightarrow> (('d, 'a) gworld_scheme + ('d, 'a) gworld_scheme) option" where
  "mouse_isr_handler dv w =
     (let (status, w1) = inb dv 0x64 (outb dv 0x20 0x20 (outb dv 0xA0 0x20 w)) in
      if status AND 0x20 = 0 then Some (Inr w1)
      else
        let (d, w2) = inb dv 0x60 w1 in
        if mouse_cycle w2 = 0 \<and> d AND 0x08 = 0 then Some (Inr w2)
        else if mouse_cycle w2 \<ge> length (mouse_byte w2) then None
        else
          let w3 = w2\<lparr>mouse_byte := (mouse_byte w2)[mouse_cycle w2 := d], mouse_cycle := mouse_cycle w2 + 1\<rparr> in
          if mouse_cycle w3 \<noteq> 3 then Some (Inr w3)
          else
            let w4 = w3\<lparr>mouse_cycle := 0\<rparr> in
            if \<not> vga_active w4 then Some (Inr w4)
            else Some (case mouse_click (mouse_move w4) of Inl v \<Rightarrow> Inl v | Inr v \<Rightarrow> Inr (mouse_drag v)))"

definition init_advanced_hardware :: "'d ports \<Rightarrow> ('d, 'a) dworld_scheme \<Rightarrow> ('d, 'a) dworld_scheme" where
  "init_advanced_hardware dv w =
     (let (status, w1) = inb dv 0x60 (outb dv 0x64 0x20 (outb dv 0x64 0xA8 w));
          w2 = outb dv 0x60 0xF4 (outb dv 0x64 0xD4 (outb dv 0x60 (status OR 2) (outb dv 0x64 0x60 w1)))
      in snd (inb dv 0x60 w2))"

section \<open>What is on the screen\<close>

text \<open>Painting the pixels of a set.\<close>

definition paint :: "(int \<Rightarrow> bool) \<Rightarrow> u8 \<Rightarrow> (int \<Rightarrow> u8) \<Rightarrow> int \<Rightarrow> u8" where
  "paint P c b = (\<lambda>k. if P k then c else b k)"

lemma paint_paint: "paint P c (paint Q c b) = paint (\<lambda>k. P k \<or> Q k) c b"
  by (auto simp: paint_def)

lemma paint_none: "(\<And>k. \<not> P k) \<Longrightarrow> paint P c b = b"
  by (simp add: paint_def)

definition at_pixel :: "int \<Rightarrow> int \<Rightarrow> int \<Rightarrow> bool" where
  "at_pixel i j k \<longleftrightarrow> 0 \<le> k \<and> k < 64000 \<and> k div 320 = i \<and> k mod 320 = j"

lemma at_pixel_iff: "at_pixel i j k \<longleftrightarrow> 0 \<le> j \<and> j < 320 \<and> 0 \<le> i \<and> i < 200 \<and> k = i * 320 + j"
  unfolding at_pixel_def by (auto simp: div_less_iff_less_mult)

lemma draw_pixel_eq: "draw_pixel j i c s = double_buffer_update (paint (at_pixel i j) c) s"
proof (cases "0 \<le> j \<and> j < 320 \<and> 0 \<le> i \<and> i < 200")
  case True
  then have "paint (at_pixel i j) c (double_buffer s) = (double_buffer s)(i * 320 + j := c)"
    by (auto simp: paint_def at_pixel_iff)
  then have "double_buffer_update (paint (at_pixel i j) c) s = s\<lparr>double_buffer := (double_buffer s)(i * 320 + j := c)\<rparr>"
    by (intro gworld.equality) simp_all
  then show ?thesis using True by (simp add: draw_pixel_def)
next
  case False
  then have "paint (at_pixel i j) c (double_buffer s) = double_buffer s" by (intro paint_none) (auto simp: at_pixel_iff)
  then have "double_buffer_update (paint (at_pixel i j) c) s = s" by (intro gworld.equality) simp_all
  then show ?thesis using False by (auto simp: draw_pixel_def)
qed

lemma paint_fold:
  assumes "\<And>x s. f x s = double_buffer_update (paint (P x) c) s"
  shows "fold f xs s = double_buffer_update (paint (\<lambda>k. \<exists>x \<in> set xs. P x k) c) s"
proof (induction xs arbitrary: s)
  case Nil
  show ?case by (intro gworld.equality) (simp_all add: paint_none)
next
  case (Cons x xs)
  have "(\<lambda>k. (\<exists>x \<in> set xs. P x k) \<or> P x k) = (\<lambda>k. \<exists>y \<in> set (x # xs). P y k)" by auto
  then show ?case unfolding fold_Cons comp_def Cons.IH unfolding assms by (intro gworld.equality) (simp_all add: paint_paint del: ex_simps bex_simps)
qed

definition in_rect :: "int \<Rightarrow> int \<Rightarrow> int \<Rightarrow> int \<Rightarrow> int \<Rightarrow> bool" where
  "in_rect x y wd h k \<longleftrightarrow> 0 \<le> k \<and> k < 64000 \<and> x \<le> k mod 320 \<and> k mod 320 < x + wd \<and> y \<le> k div 320 \<and> k div 320 < y + h"

lemma draw_rect_eq: "draw_rect x y wd h c s = double_buffer_update (paint (in_rect x y wd h) c) s"
proof -
  have row: "fold (\<lambda>j. draw_pixel j i c) [x..x + wd - 1] v =
      double_buffer_update (paint (\<lambda>k. \<exists>j \<in> set [x..x + wd - 1]. at_pixel i j k) c) v" for i and v :: "('a, 'b) gworld_scheme"
    by (rule paint_fold) (rule draw_pixel_eq)
  have "(\<lambda>k. \<exists>i \<in> set [y..y + h - 1]. \<exists>j \<in> set [x..x + wd - 1]. at_pixel i j k) = in_rect x y wd h"
    by (rule ext) (auto simp: at_pixel_def in_rect_def)
  then show ?thesis unfolding draw_rect_def using paint_fold [OF row, where xs = "[y..y + h - 1]" and s = s] by simp
qed

text \<open>With the font the source has, text leaves no mark.\<close>

lemma fold_skip: "fold (\<lambda>_ u. u) xs w = w"
  by (induction xs) simp_all

definition blank_font :: "('d, 'a) gworld_scheme \<Rightarrow> bool" where
  "blank_font w \<longleftrightarrow> (\<forall>c r. font8x8 w c r = 0)"

lemma blank_font_draw [simp]: "blank_font (double_buffer_update f w) = blank_font w"
  by (simp add: blank_font_def)

lemma draw_char_blank [simp]: "blank_font w \<Longrightarrow> draw_char_gui x y c color w = w"
proof -
  assume "blank_font w"
  then have "draw_char_gui x y c color w = fold (\<lambda>row v. fold (\<lambda>col u. u) [0..<8] v) [0..<8] w"
    by (simp add: draw_char_gui_def blank_font_def)
  also have "\<dots> = w" by (simp add: fold_skip)
  finally show ?thesis .
qed

lemma draw_chars_blank [simp]: "blank_font w \<Longrightarrow> draw_chars x cx y cs color w = w"
  by (induction cs arbitrary: cx y) simp_all

lemma draw_bits_blank [simp]:
  assumes "blank_font w"
  shows "draw_bits x y val w = w"
proof -
  have "fold (\<lambda>k v. let on = bit val (7 - k) in draw_char_gui (x + 8 * int k) y (if on then 43 else 120) (if on then 0x0A else 0x08) v) ks w = w"
    for ks :: "nat list"
    using assms by (induction ks) (simp_all add: Let_def)
  then show ?thesis by (simp add: draw_bits_def)
qed

lemma draw_five_blank [simp]:
  assumes "blank_font w"
  shows "fold (\<lambda>i v. draw_bits x (y + int i * 10) (video (con v) (int i * 2)) v) is w = w"
  using assms by (induction "is") simp_all

text \<open>The steps of a frame on a state of which only the back buffer matters.\<close>

lemma rect_on: "draw_rect x y wd h c (w\<lparr>double_buffer := b\<rparr>) = w\<lparr>double_buffer := paint (in_rect x y wd h) c b\<rparr>"
  by (simp add: draw_rect_eq)

lemma text_on:
  assumes "blank_font w"
  shows "draw_string_gui x y t c (w\<lparr>double_buffer := b\<rparr>) = w\<lparr>double_buffer := b\<rparr>"
    and "draw_char_gui x y ch c (w\<lparr>double_buffer := b\<rparr>) = w\<lparr>double_buffer := b\<rparr>"
    and "fold (\<lambda>i v. draw_bits x (y + int i * 10) (video (con v) (int i * 2)) v) is (w\<lparr>double_buffer := b\<rparr>) = w\<lparr>double_buffer := b\<rparr>"
  using assms by (simp_all add: draw_string_gui_def)

lemma fields_on:
  "mouse_x (w\<lparr>double_buffer := b\<rparr>) = mouse_x w" "mouse_y (w\<lparr>double_buffer := b\<rparr>) = mouse_y w"
  "gui_cmd_buffer (w\<lparr>double_buffer := b\<rparr>) = gui_cmd_buffer w" "gui_cmd_len (w\<lparr>double_buffer := b\<rparr>) = gui_cmd_len w"
  "win_x (w\<lparr>double_buffer := b\<rparr>) = win_x w" "win_y (w\<lparr>double_buffer := b\<rparr>) = win_y w"
  "win_w (w\<lparr>double_buffer := b\<rparr>) = win_w w" "win_h (w\<lparr>double_buffer := b\<rparr>) = win_h w"
  by simp_all

text \<open>The frame as a picture: the layers from the front to the back.\<close>

definition frame_pixel :: "('d, 'a) gworld_scheme \<Rightarrow> int \<Rightarrow> u8" where
  "frame_pixel w k =
     (if in_rect (mouse_x w) (mouse_y w) 3 3 k then 0x0F
      else if in_rect (win_x w + 4) (win_y w + 14) (win_w w - 8) (win_h w - 18) k then 0x00
      else if in_rect (win_x w) (win_y w) (win_w w) 10 k then 0x03
      else if in_rect (win_x w) (win_y w) (win_w w) (win_h w) k then 0x07
      else if in_rect (win_x w + 3) (win_y w + 3) (win_w w) (win_h w) k then 0x00
      else 0x01)"

text \<open>
  C39: a rendered frame.  With the zero font of the source, what reaches the screen is the desktop, the
  shadow, the window, its title bar, the terminal and the mouse pointer, in this order and clipped to the
  320 by 200 pixels, and none of the text; nothing outside the frame buffer is written, whatever the
  position of the window; and nothing else of the state changes.
\<close>

theorem render_gui_frame:
  assumes "vga_active w" and "blank_font w"
  shows "render_gui w = w\<lparr>double_buffer := (\<lambda>k. if 0 \<le> k \<and> k < 64000 then frame_pixel w k else double_buffer w k),
    vga_memory := (\<lambda>k. if 0 \<le> k \<and> k < 64000 then frame_pixel w k else vga_memory w k)\<rparr>"
proof -
  have whole: "in_rect 0 0 320 200 k \<longleftrightarrow> 0 \<le> k \<and> k < 64000" for k by (auto simp: in_rect_def)
  have out: "\<not> in_rect x y a b k" if "\<not> (0 \<le> k \<and> k < 64000)" for x y a b k using that by (auto simp: in_rect_def)
  define b where "b = paint (in_rect (mouse_x w) (mouse_y w) 3 3) 0x0F (paint (in_rect (win_x w + 4) (win_y w + 14) (win_w w - 8) (win_h w - 18)) 0x00
      (paint (in_rect (win_x w) (win_y w) (win_w w) 10) 0x03 (paint (in_rect (win_x w) (win_y w) (win_w w) (win_h w)) 0x07
      (paint (in_rect (win_x w + 3) (win_y w + 3) (win_w w) (win_h w)) 0x00 (paint (in_rect 0 0 320 200) 0x01 (double_buffer w))))))"
  have b: "b k = (if 0 \<le> k \<and> k < 64000 then frame_pixel w k else double_buffer w k)" for k
    using out [of k] whole [of k] unfolding b_def frame_pixel_def paint_def by (cases "0 \<le> k \<and> k < 64000") (simp_all only: if_False if_True simp_thms)
  have "draw_frame (w\<lparr>double_buffer := double_buffer w\<rparr>) = w\<lparr>double_buffer := b\<rparr>"
    by (simp only: draw_frame_def Let_def rect_on text_on [OF assms(2)] fields_on b_def if_cancel)
  moreover have "w\<lparr>double_buffer := double_buffer w\<rparr> = w" by simp
  ultimately have d: "draw_frame w = w\<lparr>double_buffer := b\<rparr>" by simp
  have "render_gui w = w\<lparr>double_buffer := b, vga_memory := (\<lambda>k. if 0 \<le> k \<and> k < 64000 then b k else vga_memory w k)\<rparr>"
    unfolding render_gui_def Let_def d using assms(1) by (simp cong: if_cong)
  moreover have "b = (\<lambda>k. if 0 \<le> k \<and> k < 64000 then frame_pixel w k else double_buffer w k)" using b by (rule ext)
  moreover have "(\<lambda>k. if 0 \<le> k \<and> k < 64000 then b k else vga_memory w k) = (\<lambda>k. if 0 \<le> k \<and> k < 64000 then frame_pixel w k else vga_memory w k)"
    using b by auto
  ultimately show ?thesis by (simp only:)
qed

definition gui_start :: "unit gworld" where
  "gui_start = (gworld0 (\<lambda>_. 0) (rworld0 (nworld0 hal_start)))\<lparr>vga_active := True\<rparr>"

theorem render_gui_frame_witness:
  "vga_memory (render_gui gui_start) (45 * 320 + 100) = 0x03 \<and> vga_memory (render_gui gui_start) (101 * 320 + 161) = 0x0F \<and>
   vga_memory (render_gui gui_start) 64000 = 0"
proof -
  have "vga_active gui_start" "blank_font gui_start" by (simp_all add: gui_start_def gworld0_def rworld.defs blank_font_def)
  from render_gui_frame [OF this] show ?thesis
    by (simp add: frame_pixel_def in_rect_def) (simp add: gui_start_def gworld0_def rworld.defs)
qed

section \<open>The mouse\<close>

definition mouse_ok :: "('d, 'a) gworld_scheme \<Rightarrow> bool" where
  "mouse_ok w \<longleftrightarrow> 0 \<le> mouse_x w \<and> mouse_x w \<le> 319 \<and> 0 \<le> mouse_y w \<and> mouse_y w \<le> 199 \<and> mouse_cycle w < 3 \<and> length (mouse_byte w) = 3"

lemma clamp_range: "0 \<le> hi \<Longrightarrow> 0 \<le> clamp hi v \<and> clamp hi v \<le> hi"
  by (simp add: clamp_def Let_def)

lemma mouse_ok_con [simp]: "mouse_ok (con_update f w) = mouse_ok w"
  by (simp add: mouse_ok_def)

lemma mouse_move_ok: "mouse_cycle w < 3 \<Longrightarrow> length (mouse_byte w) = 3 \<Longrightarrow> mouse_ok (mouse_move w)"
  using clamp_range by (simp add: mouse_move_def Let_def mouse_ok_def)

lemma mouse_click_ok: "mouse_ok w \<Longrightarrow> (case mouse_click w of Inl v \<Rightarrow> mouse_ok v | Inr v \<Rightarrow> mouse_ok v)"
  by (auto simp: mouse_click_def Let_def mouse_ok_def)

lemma mouse_drag_ok: "mouse_ok w \<Longrightarrow> mouse_ok (mouse_drag w)"
  by (simp add: mouse_drag_def mouse_ok_def)

lemma port_mouse [simp]:
  "mouse_ok (outb dv p v w) = mouse_ok w" "inb dv p w = (x, w') \<Longrightarrow> mouse_ok w' = mouse_ok w"
  by (auto simp: mouse_ok_def outb_def inb_def Let_def split: prod.splits)



end
