(* ===== verification/Ata.thy ===== *)
theory Ata
  imports Ports
begin

text \<open>
  The disk driver at the level of the controller's ports (kernel.c, section 5.5, and the capacity query
  of kernel/rexfs.c), and that it implements the sector operations the file system is modelled on.
  \<open>None\<close> is a wait for the controller that does not end.
\<close>

section \<open>The driver\<close>

text \<open>Both transfers begin with the same six writes, the last of which is the command.\<close>

definition ata_select :: "'d ports \<Rightarrow> nat \<Rightarrow> u8 \<Rightarrow> ('d, 'a) dworld_scheme \<Rightarrow> ('d, 'a) dworld_scheme" where
  "ata_select dv lba0 cmd w =
     (let lba = of_nat lba0 :: u32;
          w1 = outb dv 0x1F6 (0xE0 OR ucast (drop_bit 24 lba AND 0x0F)) w;
          w2 = outb dv 0x1F2 1 w1;
          w3 = outb dv 0x1F3 (ucast lba) w2;
          w4 = outb dv 0x1F4 (ucast (drop_bit 8 lba)) w3;
          w5 = outb dv 0x1F5 (ucast (drop_bit 16 lba)) w4
      in outb dv 0x1F7 cmd w5)"

text \<open>
  A wait reads the status until a condition on it is gone.  The capacity query enters the loop with a
  status it has read before; the transfers read one first.
\<close>

partial_function (option) poll_status :: "'d ports \<Rightarrow> (u8 \<Rightarrow> bool) \<Rightarrow> u8 \<Rightarrow> ('d, 'a) dworld_scheme \<Rightarrow> (u8 \<times> ('d, 'a) dworld_scheme) option" where
  "poll_status dv again status w =
     (if again status then (case inb dv 0x1F7 w of (s, w1) \<Rightarrow> poll_status dv again s w1) else Some (status, w))"

definition wait_status :: "'d ports \<Rightarrow> (u8 \<Rightarrow> bool) \<Rightarrow> ('d, 'a) dworld_scheme \<Rightarrow> ('d, 'a) dworld_scheme option" where
  "wait_status dv again w = (case inb dv 0x1F7 w of (s, w1) \<Rightarrow> map_option snd (poll_status dv again s w1))"

fun read_words :: "'d ports \<Rightarrow> nat \<Rightarrow> ('d, 'a) dworld_scheme \<Rightarrow> u16 list \<times> ('d, 'a) dworld_scheme" where
  "read_words dv 0 w = ([], w)"
| "read_words dv (Suc n) w =
     (let (x, w1) = inw dv 0x1F0 w; (xs, w2) = read_words dv n w1 in (x # xs, w2))"

definition ata_read_sector :: "'d ports \<Rightarrow> nat \<Rightarrow> ('d, 'a) dworld_scheme \<Rightarrow> (bytes \<times> ('d, 'a) dworld_scheme) option" where
  "ata_read_sector dv lba w =
     (case wait_status dv (\<lambda>s. s AND 0x80 = 0x80) (ata_select dv lba 0x20 w) of None \<Rightarrow> None | Some w1 \<Rightarrow>
      case wait_status dv (\<lambda>s. s AND 0x08 = 0) w1 of None \<Rightarrow> None | Some w2 \<Rightarrow>
        let (ws, w3) = read_words dv 256 w2
        in Some (concat (map (\<lambda>x. [ucast (x AND 0xFF), ucast (drop_bit 8 x)]) ws),
             sys_trace (str ''[ATA] Sector Read Executed'') (w3\<lparr>total_disk_reads := total_disk_reads w3 + 1\<rparr>)))"

definition ata_write_sector :: "'d ports \<Rightarrow> nat \<Rightarrow> bytes \<Rightarrow> ('d, 'a) dworld_scheme \<Rightarrow> ('d, 'a) dworld_scheme option" where
  "ata_write_sector dv lba buffer w =
     (case wait_status dv (\<lambda>s. s AND 0x80 = 0x80) (ata_select dv lba 0x30 w) of None \<Rightarrow> None | Some w1 \<Rightarrow>
      case wait_status dv (\<lambda>s. s AND 0x08 = 0) w1 of None \<Rightarrow> None | Some w2 \<Rightarrow>
        let w3 = fold (\<lambda>i. outw dv 0x1F0 (rd16 buffer (i * 2))) [0..<256] w2
        in Some (sys_trace (str ''[ATA] Sector Write Executed'') (w3\<lparr>total_disk_writes := total_disk_writes w3 + 1\<rparr>)))"

definition ata_get_capacity :: "'d ports \<Rightarrow> ('d, 'a) dworld_scheme \<Rightarrow> (nat \<times> ('d, 'a) dworld_scheme) option" where
  "ata_get_capacity dv w =
     (let w1 = outb dv 0x1F7 0xEC (outb dv 0x1F5 0 (outb dv 0x1F4 0 (outb dv 0x1F3 0 (outb dv 0x1F2 0 (outb dv 0x1F6 0xA0 w)))));
          (status, w2) = inb dv 0x1F7 w1
      in if status = 0 then Some (0, w2)
         else case poll_status dv (\<lambda>s. s AND 0x80 \<noteq> 0) status w2 of None \<Rightarrow> None | Some (s3, w3) \<Rightarrow>
           if s3 AND 0x01 \<noteq> 0 then Some (0, w3)
           else case poll_status dv (\<lambda>s. s AND 0x08 = 0) s3 w3 of None \<Rightarrow> None | Some (s4, w4) \<Rightarrow>
             let (identity_block, w5) = read_words dv 256 w4
             in Some (unat (push_bit 16 (ucast (identity_block ! 61)) OR ucast (identity_block ! 60) :: u32), w5))"

section \<open>The drive\<close>

text \<open>
  What the driver relies on: the task registers hold what is written to them, a command opens a
  transfer, the status shows after some readings that data can be moved, and then each access to the
  data port moves one word.  After the last word of a write the sector is on the disk.
\<close>

datatype transfer = Quiet | Reading "u16 list" | Writing nat "u16 list"

record ata_state =
  a_count :: u8
  a_lo :: u8
  a_mid :: u8
  a_hi :: u8
  a_head :: u8
  a_transfer :: transfer

definition set_reg :: "u16 \<Rightarrow> u8 \<Rightarrow> ata_state \<Rightarrow> ata_state" where
  "set_reg p v s =
     (if p = 0x1F2 then s\<lparr>a_count := v\<rparr> else if p = 0x1F3 then s\<lparr>a_lo := v\<rparr> else if p = 0x1F4 then s\<lparr>a_mid := v\<rparr>
      else if p = 0x1F5 then s\<lparr>a_hi := v\<rparr> else if p = 0x1F6 then s\<lparr>a_head := v\<rparr> else s)"

definition lba_of :: "ata_state \<Rightarrow> nat" where
  "lba_of s = unat (a_lo s) + 2 ^ 8 * unat (a_mid s) + 2 ^ 16 * unat (a_hi s) + 2 ^ 24 * (unat (a_head s) mod 16)"

definition words_of :: "bytes \<Rightarrow> u16 list" where
  "words_of b = words16 0 256 b"

definition ata_drive :: "'d ports \<Rightarrow> ('d \<Rightarrow> ata_state) \<Rightarrow> ('d \<Rightarrow> nat \<Rightarrow> bytes) \<Rightarrow> u16 list \<Rightarrow> ('d \<Rightarrow> nat) \<Rightarrow> bool" where
  "ata_drive dv st dsk ident wait \<longleftrightarrow>
     (\<forall>d l. length (dsk d l) = 512) \<and> length ident = 256 \<and>
     (\<forall>d v. \<forall>p \<in> {0x1F2, 0x1F3, 0x1F4, 0x1F5, 0x1F6}. st (p_outb dv p v d) = set_reg p v (st d) \<and> dsk (p_outb dv p v d) = dsk d) \<and>
     (\<forall>d. dsk (p_outb dv 0x1F7 0x20 d) = dsk d \<and> dsk (p_outb dv 0x1F7 0x30 d) = dsk d \<and> dsk (p_outb dv 0x1F7 0xEC d) = dsk d) \<and>
     (\<forall>d. a_count (st d) = 1 \<and> a_head (st d) AND 0xE0 = 0xE0 \<longrightarrow>
        a_transfer (st (p_outb dv 0x1F7 0x20 d)) = Reading (words_of (dsk d (lba_of (st d)))) \<and>
        a_transfer (st (p_outb dv 0x1F7 0x30 d)) = Writing (lba_of (st d)) []) \<and>
     (\<forall>d. a_transfer (st (p_outb dv 0x1F7 0xEC d)) = Reading ident) \<and>
     (\<forall>d. a_transfer (st d) \<noteq> Quiet \<longrightarrow>
        (let v = fst (p_inb dv 0x1F7 d); d' = snd (p_inb dv 0x1F7 d) in
         st d' = st d \<and> dsk d' = dsk d \<and> v \<noteq> 0 \<and> (v AND 0x80 = 0 \<longrightarrow> v AND 0x01 = 0) \<and>
         (if wait d = 0 then v AND 0x80 = 0 \<and> v AND 0x08 \<noteq> 0 \<and> wait d' = 0 else wait d' < wait d))) \<and>
     (\<forall>d x xs. a_transfer (st d) = Reading (x # xs) \<longrightarrow>
        fst (p_inw dv 0x1F0 d) = x \<and> a_transfer (st (snd (p_inw dv 0x1F0 d))) = Reading xs \<and> dsk (snd (p_inw dv 0x1F0 d)) = dsk d) \<and>
     (\<forall>d l ws x. a_transfer (st d) = Writing l ws \<and> length ws < 256 \<longrightarrow>
        a_transfer (st (p_outw dv 0x1F0 x d)) = (if length ws = 255 then Quiet else Writing l (ws @ [x])) \<and>
        dsk (p_outw dv 0x1F0 x d) = (if length ws = 255 then (dsk d)(l := concat (map le16 (ws @ [x]))) else dsk d))"

section \<open>The registers\<close>

lemma unat_byte_of: "unat (ucast (drop_bit n (x :: u32)) :: u8) = unat x div 2 ^ n mod 256"
  unfolding unsigned_ucast_eq unat_drop_bit_eq by (simp add: drop_bit_eq_div take_bit_eq_mod)

lemma head_mod: "unat (0xE0 OR ucast (drop_bit 24 (x :: u32) AND 0x0F) :: u8) mod 16 = unat x div 2 ^ 24 mod 16"
proof -
  let ?y = "ucast (drop_bit 24 x AND 0x0F) :: u8"
  have m: "(0x0F :: u32) = mask 4" by (simp add: mask_eq_exp_minus_1)
  have "take_bit 4 (0xE0 OR ?y) = take_bit 4 ?y" by (simp add: take_bit_or)
  then have "take_bit 4 (unat (0xE0 OR ?y)) = take_bit 4 (unat ?y)"
    unfolding unsigned_take_bit_eq [symmetric] by (rule arg_cong)
  moreover have "unat ?y = unat x div 2 ^ 24 mod 16"
    unfolding m take_bit_eq_mask [symmetric] unsigned_ucast_eq unsigned_take_bit_eq unat_drop_bit_eq
    by (simp add: drop_bit_eq_div take_bit_eq_mod mod_mod_cancel)
  ultimately show ?thesis by (simp add: take_bit_eq_mod)
qed

lemma head_lba: "(0xE0 OR y) AND 0xE0 = (0xE0 :: u8)"
  by (rule bit_word_eqI) (auto simp: bit_simps)

lemma lba_split: "n mod 2 ^ 28 = n mod 256 + 2 ^ 8 * (n div 2 ^ 8 mod 256) + 2 ^ 16 * (n div 2 ^ 16 mod 256) + 2 ^ 24 * (n div 2 ^ 24 mod 16)"
  for n :: nat
proof -
  have "n mod 268435456 = n mod 256 + 256 * (n div 256 mod 1048576)" using mod_mult2_eq [of n 256 1048576] by simp
  moreover have "n div 256 mod 1048576 = n div 256 mod 256 + 256 * (n div 65536 mod 4096)"
    using mod_mult2_eq [of "n div 256" 256 4096] by (simp add: div_mult2_eq [symmetric])
  moreover have "n div 65536 mod 4096 = n div 65536 mod 256 + 256 * (n div 16777216 mod 16)"
    using mod_mult2_eq [of "n div 65536" 256 16] by (simp add: div_mult2_eq [symmetric])
  ultimately show ?thesis by simp
qed

lemma lba_regs:
  fixes x :: u32
  shows "lba_of \<lparr>a_count = c, a_lo = ucast x, a_mid = ucast (drop_bit 8 x), a_hi = ucast (drop_bit 16 x),
    a_head = 0xE0 OR ucast (drop_bit 24 x AND 0x0F), a_transfer = t\<rparr> = unat x mod 2 ^ 28"
  unfolding lba_of_def using unat_byte_of [of 0 x] unat_byte_of [of 8 x] unat_byte_of [of 16 x] head_mod [of x] lba_split [of "unat x"]
  by simp

lemma unat_lba: "unat (of_nat n :: u32) mod 2 ^ 28 = n mod 2 ^ 28"
  by (simp add: unsigned_of_nat take_bit_eq_mod mod_mod_cancel)

section \<open>Transfers\<close>

lemma drive_regs:
  assumes "ata_drive dv st dsk ident wait" and "p \<in> {0x1F2, 0x1F3, 0x1F4, 0x1F5, 0x1F6}"
  shows "st (p_outb dv p v d) = set_reg p v (st d)" "dsk (p_outb dv p v d) = dsk d"
  using assms unfolding ata_drive_def by blast+

lemma drive_command:
  assumes "ata_drive dv st dsk ident wait"
  shows "dsk (p_outb dv 0x1F7 0x20 d) = dsk d" "dsk (p_outb dv 0x1F7 0x30 d) = dsk d" "dsk (p_outb dv 0x1F7 0xEC d) = dsk d"
    "a_count (st d) = 1 \<Longrightarrow> a_head (st d) AND 0xE0 = 0xE0 \<Longrightarrow>
       a_transfer (st (p_outb dv 0x1F7 0x20 d)) = Reading (words_of (dsk d (lba_of (st d)))) \<and>
       a_transfer (st (p_outb dv 0x1F7 0x30 d)) = Writing (lba_of (st d)) []"
    "a_transfer (st (p_outb dv 0x1F7 0xEC d)) = Reading ident" "length ident = 256" "length (dsk d l) = 512"
  using assms unfolding ata_drive_def by blast+

lemma drive_status:
  assumes "ata_drive dv st dsk ident wait" and "a_transfer (st (dev w)) \<noteq> Quiet"
  obtains v d where "inb dv 0x1F7 w = (v, w\<lparr>dev := d\<rparr>)" and "st d = st (dev w)" and "dsk d = dsk (dev w)" and "v \<noteq> 0"
    and "v AND 0x80 = 0 \<Longrightarrow> v AND 0x01 = 0"
    and "if wait (dev w) = 0 then v AND 0x80 = 0 \<and> v AND 0x08 \<noteq> 0 \<and> wait d = 0 else wait d < wait (dev w)"
proof -
  obtain v d where vd: "p_inb dv 0x1F7 (dev w) = (v, d)" by force
  have "\<forall>d. a_transfer (st d) \<noteq> Quiet \<longrightarrow>
        (let v = fst (p_inb dv 0x1F7 d); d' = snd (p_inb dv 0x1F7 d) in
         st d' = st d \<and> dsk d' = dsk d \<and> v \<noteq> 0 \<and> (v AND 0x80 = 0 \<longrightarrow> v AND 0x01 = 0) \<and>
         (if wait d = 0 then v AND 0x80 = 0 \<and> v AND 0x08 \<noteq> 0 \<and> wait d' = 0 else wait d' < wait d))"
    using assms(1) unfolding ata_drive_def by blast
  then have "st d = st (dev w) \<and> dsk d = dsk (dev w) \<and> v \<noteq> 0 \<and> (v AND 0x80 = 0 \<longrightarrow> v AND 0x01 = 0) \<and>
      (if wait (dev w) = 0 then v AND 0x80 = 0 \<and> v AND 0x08 \<noteq> 0 \<and> wait d = 0 else wait d < wait (dev w))"
    using assms(2) vd by (metis (no_types, lifting) fst_conv snd_conv)
  then show ?thesis using that [of v d] vd by (auto simp: inb_def)
qed

text \<open>Each of the waits is a loop over readings of the status that ends at the latest when the drive is ready.\<close>

lemma poll_status_ends:
  assumes "ata_drive dv st dsk ident wait" and "\<forall>v. v AND 0x80 = 0 \<and> v AND 0x08 \<noteq> 0 \<longrightarrow> \<not> again v"
    and "a_transfer (st (dev w)) \<noteq> Quiet"
  shows "\<exists>v d. poll_status dv again s w = Some (v, w\<lparr>dev := d\<rparr>) \<and> st d = st (dev w) \<and> dsk d = dsk (dev w) \<and> \<not> again v \<and>
    (v = s \<or> (v AND 0x80 = 0 \<longrightarrow> v AND 0x01 = 0))"
  using assms(3)
proof (induction "wait (dev w)" arbitrary: w s rule: less_induct)
  case less
  show ?case
  proof (cases "again s")
    case True
    obtain v d where v: "inb dv 0x1F7 w = (v, w\<lparr>dev := d\<rparr>)" "st d = st (dev w)" "dsk d = dsk (dev w)"
        "v AND 0x80 = 0 \<Longrightarrow> v AND 0x01 = 0"
        "if wait (dev w) = 0 then v AND 0x80 = 0 \<and> v AND 0x08 \<noteq> 0 \<and> wait d = 0 else wait d < wait (dev w)"
      using drive_status [OF assms(1) less.prems] by metis
    have step: "poll_status dv again s w = poll_status dv again v (w\<lparr>dev := d\<rparr>)"
      using True v(1) by (subst poll_status.simps) simp
    show ?thesis
    proof (cases "wait (dev w) = 0")
      case True
      then have "\<not> again v" using v(5) assms(2) by simp
      then have "poll_status dv again v (w\<lparr>dev := d\<rparr>) = Some (v, w\<lparr>dev := d\<rparr>)" by (subst poll_status.simps) simp
      then show ?thesis using step v \<open>\<not> again v\<close> by auto
    next
      case False
      then have "wait (dev (w\<lparr>dev := d\<rparr>)) < wait (dev w)" using v(5) by simp
      moreover have "a_transfer (st (dev (w\<lparr>dev := d\<rparr>))) \<noteq> Quiet" using less.prems v(2) by simp
      ultimately obtain u e where "poll_status dv again v (w\<lparr>dev := d\<rparr>) = Some (u, w\<lparr>dev := e\<rparr>)" "st e = st d" "dsk e = dsk d" "\<not> again u"
          "u = v \<or> (u AND 0x80 = 0 \<longrightarrow> u AND 0x01 = 0)"
        using less.hyps [of "w\<lparr>dev := d\<rparr>" v] by auto
      then show ?thesis using step v by auto
    qed
  next
    case False
    then have "poll_status dv again s w = Some (s, w\<lparr>dev := dev w\<rparr>)" by (subst poll_status.simps) simp
    then show ?thesis using False by blast
  qed
qed

lemma wait_status_ends:
  assumes "ata_drive dv st dsk ident wait" and "\<forall>v. v AND 0x80 = 0 \<and> v AND 0x08 \<noteq> 0 \<longrightarrow> \<not> again v"
    and "a_transfer (st (dev w)) \<noteq> Quiet"
  shows "\<exists>d. wait_status dv again w = Some (w\<lparr>dev := d\<rparr>) \<and> st d = st (dev w) \<and> dsk d = dsk (dev w)"
proof -
  obtain v d where v: "inb dv 0x1F7 w = (v, w\<lparr>dev := d\<rparr>)" "st d = st (dev w)" "dsk d = dsk (dev w)"
    using drive_status [OF assms(1,3)] by metis
  then have "a_transfer (st (dev (w\<lparr>dev := d\<rparr>))) \<noteq> Quiet" using assms(3) by simp
  then obtain u e where "poll_status dv again v (w\<lparr>dev := d\<rparr>) = Some (u, w\<lparr>dev := e\<rparr>)" "st e = st d" "dsk e = dsk d"
    using poll_status_ends [OF assms(1,2), where w = "w\<lparr>dev := d\<rparr>" and s = v] by auto
  then show ?thesis using v by (auto simp: wait_status_def)
qed

lemma read_words_all:
  assumes "ata_drive dv st dsk ident wait" and "a_transfer (st (dev w)) = Reading xs"
  shows "\<exists>d. read_words dv (length xs) w = (xs, w\<lparr>dev := d\<rparr>) \<and> dsk d = dsk (dev w)"
  using assms(2)
proof (induction xs arbitrary: w)
  case Nil
  show ?case by (intro exI [of _ "dev w"]) simp
next
  case (Cons x xs)
  let ?d = "snd (p_inw dv 0x1F0 (dev w))"
  have a: "fst (p_inw dv 0x1F0 (dev w)) = x" "a_transfer (st ?d) = Reading xs" "dsk ?d = dsk (dev w)"
    using assms(1) Cons.prems unfolding ata_drive_def by blast+
  then have "inw dv 0x1F0 w = (x, w\<lparr>dev := ?d\<rparr>)" by (auto simp: inw_def Let_def split: prod.splits)
  moreover obtain d where "read_words dv (length xs) (w\<lparr>dev := ?d\<rparr>) = (xs, w\<lparr>dev := d\<rparr>)" "dsk d = dsk ?d"
    using Cons.IH [of "w\<lparr>dev := ?d\<rparr>"] a(2) by auto
  ultimately show ?case using a(3) by auto
qed

lemma write_words_all:
  assumes "ata_drive dv st dsk ident wait" and "a_transfer (st (dev w)) = Writing l ws" and "length ws + length xs = 256" and "xs \<noteq> []"
  shows "\<exists>d. fold (outw dv 0x1F0) xs w = w\<lparr>dev := d\<rparr> \<and> dsk d = (dsk (dev w))(l := concat (map le16 (ws @ xs)))"
  using assms(2-)
proof (induction xs arbitrary: w ws)
  case (Cons x xs)
  let ?d = "p_outw dv 0x1F0 x (dev w)"
  have lt: "length ws < 256" using Cons.prems by simp
  have a: "a_transfer (st ?d) = (if length ws = 255 then Quiet else Writing l (ws @ [x]))"
    "dsk ?d = (if length ws = 255 then (dsk (dev w))(l := concat (map le16 (ws @ [x]))) else dsk (dev w))"
    using assms(1) Cons.prems(1) lt unfolding ata_drive_def by blast+
  have o: "outw dv 0x1F0 x w = w\<lparr>dev := ?d\<rparr>" by (simp add: outw_def)
  show ?case
  proof (cases "xs = []")
    case True
    then have "length ws = 255" using Cons.prems by simp
    then show ?thesis using a(2) o True by auto
  next
    case False
    then have "0 < length xs" by simp
    then have n: "length ws \<noteq> 255" using Cons.prems by auto
    have "\<exists>d. fold (outw dv 0x1F0) xs (w\<lparr>dev := ?d\<rparr>) = (w\<lparr>dev := ?d\<rparr>)\<lparr>dev := d\<rparr> \<and>
        dsk d = (dsk (dev (w\<lparr>dev := ?d\<rparr>)))(l := concat (map le16 ((ws @ [x]) @ xs)))"
      by (rule Cons.IH) (use a(1) Cons.prems False n in simp_all)
    then show ?thesis using o a(2) n by auto
  qed
qed simp

lemma ata_select_spec:
  assumes "ata_drive dv st dsk ident wait"
  shows "\<exists>d. ata_select dv lba cmd w = w\<lparr>dev := p_outb dv 0x1F7 cmd d\<rparr> \<and> dsk d = dsk (dev w) \<and> a_count (st d) = 1 \<and>
    a_head (st d) AND 0xE0 = 0xE0 \<and> lba_of (st d) = lba mod 2 ^ 28"
proof -
  let ?x = "of_nat lba :: u32"
  let ?d = "p_outb dv 0x1F5 (ucast (drop_bit 16 ?x)) (p_outb dv 0x1F4 (ucast (drop_bit 8 ?x)) (p_outb dv 0x1F3 (ucast ?x)
      (p_outb dv 0x1F2 1 (p_outb dv 0x1F6 (0xE0 OR ucast (drop_bit 24 ?x AND 0x0F)) (dev w)))))"
  have st: "st ?d = \<lparr>a_count = 1, a_lo = ucast ?x, a_mid = ucast (drop_bit 8 ?x), a_hi = ucast (drop_bit 16 ?x),
      a_head = 0xE0 OR ucast (drop_bit 24 ?x AND 0x0F), a_transfer = a_transfer (st (dev w))\<rparr>"
    by (simp add: drive_regs [OF assms] set_reg_def)
  have "dsk ?d = dsk (dev w)" by (simp add: drive_regs [OF assms])
  moreover have "ata_select dv lba cmd w = w\<lparr>dev := p_outb dv 0x1F7 cmd ?d\<rparr>"
    by (simp add: ata_select_def outb_def Let_def)
  moreover have "a_count (st ?d) = 1" "a_head (st ?d) AND 0xE0 = 0xE0" unfolding st by (simp_all only: ata_state.simps head_lba)
  moreover have "lba_of (st ?d) = lba mod 2 ^ 28" unfolding st lba_regs unat_lba ..
  ultimately show ?thesis by blast
qed

section \<open>Refinement\<close>

text \<open>
  The sector-level view of a state: the disk is the one in the drive, and the state of the controller
  is forgotten.
\<close>

definition sector_view :: "('d \<Rightarrow> nat \<Rightarrow> bytes) \<Rightarrow> 'd \<Rightarrow> ('d, 'a) dworld_scheme \<Rightarrow> ('d, 'a) dworld_scheme" where
  "sector_view dsk d0 w = w\<lparr>disk := dsk (dev w), dev := d0\<rparr>"

lemma low_bytes: "[ucast (x AND 0xFF), ucast (drop_bit 8 x)] = le16 x"
proof -
  have m: "(0xFF :: u16) = mask 8" by (simp add: mask_eq_exp_minus_1)
  have "(ucast (x AND 0xFF) :: u8) = ucast x" unfolding m by (rule bit_word_eqI) (auto simp: bit_simps)
  then show ?thesis by (simp add: le16_def)
qed

lemma concat_words_of: "length b = 512 \<Longrightarrow> concat (map le16 (words_of b)) = b"
  using concat_le16_words16 [of 0 256 b] by (simp add: words_of_def get_def)

lemma transfer_opens:
  assumes "ata_drive dv st dsk ident wait" and "a_transfer (st (dev w)) \<noteq> Quiet"
  shows "\<exists>w1 d. wait_status dv (\<lambda>s. s AND 0x80 = 0x80) w = Some w1 \<and> wait_status dv (\<lambda>s. s AND 0x08 = 0) w1 = Some (w\<lparr>dev := d\<rparr>) \<and>
    st d = st (dev w) \<and> dsk d = dsk (dev w)"
proof -
  obtain d1 where d1: "wait_status dv (\<lambda>s. s AND 0x80 = 0x80) w = Some (w\<lparr>dev := d1\<rparr>)" "st d1 = st (dev w)" "dsk d1 = dsk (dev w)"
    using wait_status_ends [OF assms(1) _ assms(2), where again = "\<lambda>s. s AND 0x80 = 0x80"] by auto
  then have "a_transfer (st (dev (w\<lparr>dev := d1\<rparr>))) \<noteq> Quiet" using assms(2) by simp
  then obtain d2 where "wait_status dv (\<lambda>s. s AND 0x08 = 0) (w\<lparr>dev := d1\<rparr>) = Some (w\<lparr>dev := d2\<rparr>)" "st d2 = st d1" "dsk d2 = dsk d1"
    using wait_status_ends [OF assms(1), where again = "\<lambda>s. s AND 0x08 = 0" and w = "w\<lparr>dev := d1\<rparr>"] by auto
  then show ?thesis using d1 by auto
qed

lemma sys_trace_view: "sector_view dsk d0 (sys_trace e w) = sys_trace e (sector_view dsk d0 w)"
  by (rule dworld.equality) (simp_all add: sector_view_def sys_trace_def)

lemma ata_read_spec:
  assumes "ata_drive dv st dsk ident wait"
  shows "\<exists>d. ata_read_sector dv lba w = Some (dsk (dev w) (lba mod 2 ^ 28),
      sys_trace (str ''[ATA] Sector Read Executed'') (w\<lparr>dev := d, total_disk_reads := total_disk_reads w + 1\<rparr>)) \<and> dsk d = dsk (dev w)"
proof -
  obtain d0 where d0: "ata_select dv lba 0x20 w = w\<lparr>dev := p_outb dv 0x1F7 0x20 d0\<rparr>" "dsk d0 = dsk (dev w)" "a_count (st d0) = 1"
      "a_head (st d0) AND 0xE0 = 0xE0" "lba_of (st d0) = lba mod 2 ^ 28"
    using ata_select_spec [OF assms] by blast
  define d1 where "d1 = p_outb dv 0x1F7 0x20 d0"
  have t: "a_transfer (st d1) = Reading (words_of (dsk (dev w) (lba mod 2 ^ 28)))" "dsk d1 = dsk (dev w)"
    using drive_command(1,4) [OF assms, of d0] d0 unfolding d1_def by simp_all
  then obtain w2 d2 where w2: "wait_status dv (\<lambda>s. s AND 0x80 = 0x80) (w\<lparr>dev := d1\<rparr>) = Some w2"
      "wait_status dv (\<lambda>s. s AND 0x08 = 0) w2 = Some (w\<lparr>dev := d2\<rparr>)" "st d2 = st d1" "dsk d2 = dsk d1"
    using transfer_opens [OF assms, of "w\<lparr>dev := d1\<rparr>"] by auto
  moreover obtain d3 where "read_words dv 256 (w\<lparr>dev := d2\<rparr>) = (words_of (dsk (dev w) (lba mod 2 ^ 28)), w\<lparr>dev := d3\<rparr>)" "dsk d3 = dsk d2"
    using read_words_all [OF assms, of "w\<lparr>dev := d2\<rparr>"] t w2(3) by (auto simp: words_of_def)
  ultimately show ?thesis
    using d0(1) t(2) concat_words_of [OF drive_command(7) [OF assms]]
    unfolding ata_read_sector_def d1_def by (auto simp: low_bytes)
qed

lemma ata_write_spec:
  assumes "ata_drive dv st dsk ident wait" and "length buf = 512"
  shows "\<exists>d. ata_write_sector dv lba buf w =
      Some (sys_trace (str ''[ATA] Sector Write Executed'') (w\<lparr>dev := d, total_disk_writes := total_disk_writes w + 1\<rparr>)) \<and>
    dsk d = (dsk (dev w))(lba mod 2 ^ 28 := buf)"
proof -
  obtain d0 where d0: "ata_select dv lba 0x30 w = w\<lparr>dev := p_outb dv 0x1F7 0x30 d0\<rparr>" "dsk d0 = dsk (dev w)" "a_count (st d0) = 1"
      "a_head (st d0) AND 0xE0 = 0xE0" "lba_of (st d0) = lba mod 2 ^ 28"
    using ata_select_spec [OF assms(1)] by blast
  define d1 where "d1 = p_outb dv 0x1F7 0x30 d0"
  have t: "a_transfer (st d1) = Writing (lba mod 2 ^ 28) []" "dsk d1 = dsk (dev w)"
    using drive_command(2,4) [OF assms(1), of d0] d0 unfolding d1_def by simp_all
  then obtain w2 d2 where w2: "wait_status dv (\<lambda>s. s AND 0x80 = 0x80) (w\<lparr>dev := d1\<rparr>) = Some w2"
      "wait_status dv (\<lambda>s. s AND 0x08 = 0) w2 = Some (w\<lparr>dev := d2\<rparr>)" "st d2 = st d1" "dsk d2 = dsk d1"
    using transfer_opens [OF assms(1), of "w\<lparr>dev := d1\<rparr>"] by auto
  have ws: "map (\<lambda>i. rd16 buf (i * 2)) [0..<256] = words_of buf" by (simp add: words_of_def words16_def mult.commute)
  have f: "fold (\<lambda>i. outw dv 0x1F0 (rd16 buf (i * 2))) [0..<256] v = fold (outw dv 0x1F0) (words_of buf) v" for v :: "('a, 'b) dworld_scheme"
    unfolding ws [symmetric] fold_map comp_def ..
  have "words_of buf \<noteq> []" "length (words_of buf) = 256" by (simp_all add: words_of_def words16_def)
  then obtain d3 where "fold (outw dv 0x1F0) (words_of buf) (w\<lparr>dev := d2\<rparr>) = w\<lparr>dev := d3\<rparr>"
      "dsk d3 = (dsk d2)(lba mod 2 ^ 28 := concat (map le16 (words_of buf)))"
    using write_words_all [OF assms(1), of "w\<lparr>dev := d2\<rparr>" "lba mod 2 ^ 28" "[]" "words_of buf"] t w2(3) by auto
  then show ?thesis
    using d0(1) t(2) w2 concat_words_of [OF assms(2)] unfolding ata_write_sector_def d1_def f by auto
qed

lemma ata_capacity_spec:
  assumes "ata_drive dv st dsk ident wait"
  shows "\<exists>d. ata_get_capacity dv w = Some (unat (push_bit 16 (ucast (ident ! 61)) OR ucast (ident ! 60) :: u32), w\<lparr>dev := d\<rparr>) \<and> dsk d = dsk (dev w)"
proof -
  let ?d = "p_outb dv 0x1F7 0xEC (p_outb dv 0x1F5 0 (p_outb dv 0x1F4 0 (p_outb dv 0x1F3 0 (p_outb dv 0x1F2 0 (p_outb dv 0x1F6 0xA0 (dev w))))))"
  let ?w1 = "w\<lparr>dev := ?d\<rparr>"
  have t1: "a_transfer (st (dev ?w1)) = Reading ident" "dsk ?d = dsk (dev w)"
    using drive_command [OF assms] by (simp_all add: drive_regs [OF assms])
  have q: "a_transfer (st (dev ?w1)) \<noteq> Quiet" using t1 by simp
  obtain v2 d2 where d2: "inb dv 0x1F7 ?w1 = (v2, ?w1\<lparr>dev := d2\<rparr>)" "st d2 = st (dev ?w1)" "dsk d2 = dsk (dev ?w1)" "v2 \<noteq> 0"
      "v2 AND 0x80 = 0 \<Longrightarrow> v2 AND 0x01 = 0"
    using drive_status [OF assms q] by metis
  let ?w2 = "w\<lparr>dev := d2\<rparr>"
  have t2: "a_transfer (st (dev ?w2)) \<noteq> Quiet" using d2(2) t1 by simp
  obtain v3 d3 where d3: "poll_status dv (\<lambda>s. s AND 0x80 \<noteq> 0) v2 ?w2 = Some (v3, ?w2\<lparr>dev := d3\<rparr>)" "st d3 = st d2" "dsk d3 = dsk d2"
      "v3 AND 0x80 = 0" "v3 = v2 \<or> (v3 AND 0x80 = 0 \<longrightarrow> v3 AND 0x01 = 0)"
    using poll_status_ends [OF assms _ t2, where again = "\<lambda>s. s AND 0x80 \<noteq> 0" and s = v2] by auto
  let ?w3 = "w\<lparr>dev := d3\<rparr>"
  have t3: "a_transfer (st (dev ?w3)) \<noteq> Quiet" using d3(2) t2 by simp
  obtain v4 d4 where d4: "poll_status dv (\<lambda>s. s AND 0x08 = 0) v3 ?w3 = Some (v4, ?w3\<lparr>dev := d4\<rparr>)" "st d4 = st d3" "dsk d4 = dsk d3"
    using poll_status_ends [OF assms _ t3, where again = "\<lambda>s. s AND 0x08 = 0" and s = v3] by auto
  have t4: "a_transfer (st (dev (w\<lparr>dev := d4\<rparr>))) = Reading ident" using t1 d2(2) d3(2) d4(2) by simp
  obtain d5 where d5: "read_words dv 256 (w\<lparr>dev := d4\<rparr>) = (ident, w\<lparr>dev := d5\<rparr>)" "dsk d5 = dsk d4"
    using read_words_all [OF assms t4] drive_command(6) [OF assms] by auto
  have "outb dv 0x1F7 0xEC (outb dv 0x1F5 0 (outb dv 0x1F4 0 (outb dv 0x1F3 0 (outb dv 0x1F2 0 (outb dv 0x1F6 0xA0 w))))) = ?w1"
    by (simp add: outb_def)
  then show ?thesis
    unfolding ata_get_capacity_def Let_def using d2 d3 d4 d5 t1(2) by auto
qed


text \<open>A drive that answers busy three times after each command.\<close>

type_synonym sim = "ata_state \<times> (nat \<Rightarrow> bytes) \<times> nat"

definition sim_disk :: "sim \<Rightarrow> nat \<Rightarrow> bytes" where
  "sim_disk d l = (case d of (s, D, n) \<Rightarrow> if length (D l) = 512 then D l else replicate 512 0)"

definition sim_ident :: "u16 list" where
  "sim_ident = replicate 60 0 @ [0x5000, 2] @ replicate 194 0"

definition sim_outb :: "u16 \<Rightarrow> u8 \<Rightarrow> sim \<Rightarrow> sim" where
  "sim_outb p v d =
     (case d of (s, D, n) \<Rightarrow>
        if p \<noteq> 0x1F7 then (set_reg p v s, D, n)
        else (s\<lparr>a_transfer := (if v = 0x20 then Reading (words_of (sim_disk d (lba_of s)))
                               else if v = 0x30 then Writing (lba_of s) [] else Reading sim_ident)\<rparr>, D, 3))"

definition sim_outw :: "u16 \<Rightarrow> u16 \<Rightarrow> sim \<Rightarrow> sim" where
  "sim_outw p x d =
     (case d of (s, D, n) \<Rightarrow> case a_transfer s of
        Writing l ws \<Rightarrow> if length ws = 255 then (s\<lparr>a_transfer := Quiet\<rparr>, D(l := concat (map le16 (ws @ [x]))), n)
                        else (s\<lparr>a_transfer := Writing l (ws @ [x])\<rparr>, D, n)
      | _ \<Rightarrow> d)"

definition sim_inw :: "u16 \<Rightarrow> sim \<Rightarrow> u16 \<times> sim" where
  "sim_inw p d =
     (case d of (s, D, n) \<Rightarrow> case a_transfer s of Reading (x # xs) \<Rightarrow> (x, (s\<lparr>a_transfer := Reading xs\<rparr>, D, n)) | _ \<Rightarrow> (0, d))"

definition sim_ports :: "sim ports" where
  "sim_ports = \<lparr>p_inb = (\<lambda>_ (s, D, n). (if n = 0 then 0x58 else 0x80, (s, D, n - 1))), p_inw = sim_inw,
     p_inl = (\<lambda>_ d. (0, d)), p_outb = sim_outb, p_outw = sim_outw, p_outl = (\<lambda>_ _ d. d), p_mem = (\<lambda>_ m. m)\<rparr>"

lemma sim_disk_state: "sim_disk (s', D, n') = sim_disk (s, D, n)"
  by (rule ext) (simp add: sim_disk_def)

lemma sim_disk_length: "length (sim_disk d l) = 512"
  by (cases d) (simp add: sim_disk_def)

lemma sim_disk_write:
  assumes "length b = 512"
  shows "sim_disk (s', D(l := b), n') = (sim_disk (s, D, n))(l := b)"
  using assms by (auto simp: sim_disk_def)

lemma sim_write:
  assumes "a_transfer (fst d) = Writing l ws" and "length ws < 256"
  shows "a_transfer (fst (sim_outw p x d)) = (if length ws = 255 then Quiet else Writing l (ws @ [x]))"
    and "sim_disk (sim_outw p x d) = (if length ws = 255 then (sim_disk d)(l := concat (map le16 (ws @ [x]))) else sim_disk d)"
proof -
  obtain s D n where d: "d = (s, D, n)" by (cases d)
  show "a_transfer (fst (sim_outw p x d)) = (if length ws = 255 then Quiet else Writing l (ws @ [x]))"
    using assms d by (simp add: sim_outw_def)
  have "length (concat (map le16 (ws @ [x]))) = 512" if "length ws = 255" using that by (simp only: length_concat_le16) simp
  then show "sim_disk (sim_outw p x d) = (if length ws = 255 then (sim_disk d)(l := concat (map le16 (ws @ [x]))) else sim_disk d)"
    using assms(1) d sim_disk_write [of "concat (map le16 (ws @ [x]))" _ D l n s n] sim_disk_state [of _ D n s n]
    by (simp add: sim_outw_def del: map_append concat_append)
qed

lemma sim_read:
  assumes "a_transfer (fst d) = Reading (x # xs)"
  shows "fst (sim_inw p d) = x \<and> a_transfer (fst (snd (sim_inw p d))) = Reading xs \<and> sim_disk (snd (sim_inw p d)) = sim_disk d"
  using assms sim_disk_state by (cases d) (auto simp: sim_inw_def)

lemma sim_command:
  shows "sim_disk (sim_outb p v d) = sim_disk d" and "p \<noteq> 0x1F7 \<Longrightarrow> fst (sim_outb p v d) = set_reg p v (fst d)"
    and "a_transfer (fst (sim_outb 0x1F7 0x20 d)) = Reading (words_of (sim_disk d (lba_of (fst d))))"
    and "a_transfer (fst (sim_outb 0x1F7 0x30 d)) = Writing (lba_of (fst d)) []"
    and "a_transfer (fst (sim_outb 0x1F7 0xEC d)) = Reading sim_ident"
  using sim_disk_state by (cases d; auto simp: sim_outb_def)+

lemma sim_drive: "ata_drive sim_ports fst sim_disk sim_ident (\<lambda>(s, D, n). n)"
proof -
  have status: "let v = fst (p_inb sim_ports 0x1F7 d); d' = snd (p_inb sim_ports 0x1F7 d); wait = \<lambda>(s, D, n). n in
      fst d' = fst d \<and> sim_disk d' = sim_disk d \<and> v \<noteq> 0 \<and> (v AND 0x80 = 0 \<longrightarrow> v AND 0x01 = 0) \<and>
      (if wait d = 0 then v AND 0x80 = 0 \<and> v AND 0x08 \<noteq> 0 \<and> wait d' = 0 else wait d' < wait d)" for d
    using sim_disk_state by (cases d) (auto simp: sim_ports_def)
  have p: "p_outb sim_ports = sim_outb" "p_outw sim_ports = sim_outw" "p_inw sim_ports = sim_inw" by (simp_all add: sim_ports_def)
  show ?thesis
    unfolding ata_drive_def p
  proof (intro conjI)
    show "\<forall>d. a_transfer (fst d) \<noteq> Quiet \<longrightarrow>
        (let v = fst (p_inb sim_ports 0x1F7 d); d' = snd (p_inb sim_ports 0x1F7 d) in
         fst d' = fst d \<and> sim_disk d' = sim_disk d \<and> v \<noteq> 0 \<and> (v AND 0x80 = 0 \<longrightarrow> v AND 0x01 = 0) \<and>
         (if (case d of (s, D, n) \<Rightarrow> n) = 0 then v AND 0x80 = 0 \<and> v AND 0x08 \<noteq> 0 \<and> (case d' of (s, D, n) \<Rightarrow> n) = 0
          else (case d' of (s, D, n) \<Rightarrow> n) < (case d of (s, D, n) \<Rightarrow> n)))"
      using status by (simp only: Let_def) blast
    show "\<forall>d x xs. a_transfer (fst d) = Reading (x # xs) \<longrightarrow>
        fst (sim_inw 0x1F0 d) = x \<and> a_transfer (fst (snd (sim_inw 0x1F0 d))) = Reading xs \<and> sim_disk (snd (sim_inw 0x1F0 d)) = sim_disk d"
      using sim_read by blast
    show "\<forall>d l ws x. a_transfer (fst d) = Writing l ws \<and> length ws < 256 \<longrightarrow>
        a_transfer (fst (sim_outw 0x1F0 x d)) = (if length ws = 255 then Quiet else Writing l (ws @ [x])) \<and>
        sim_disk (sim_outw 0x1F0 x d) = (if length ws = 255 then (sim_disk d)(l := concat (map le16 (ws @ [x]))) else sim_disk d)"
      using sim_write by blast
  qed (simp_all add: sim_disk_length sim_command sim_ident_def)
qed


end
