(* ===== verification/Shell.thy ===== *)
theory Shell
  imports Gui Ata Pmm
begin

text \<open>
  The shell of kernel.c (sections 4 and 6 and the reports of section 7): the command history, the virtual
  file table, and the interpreter with all its commands.

  Its state, \<open>kstate\<close>, is the whole state of the kernel.  What the source cannot say is collected in the
  record \<open>machine\<close>: the ports; reading and writing an arbitrary address; running code at an address;
  what happens while the processor is halted or busy waiting; the \<open>cpuid\<close> instruction; the memory the
  boot loader wrote; and the addresses the linker chose.  A command is given by the 256 bytes its pointer
  leads to, of which the history keeps all and the interpreter reads up to the NUL.  The right of a sum is
  a return to the caller, the left a halt in \<open>kernel_panic\<close>, and \<open>None\<close> a fault or a command
  that does not return.
\<close>

section \<open>State\<close>

record fat_entry =
  fe_name :: bytes
  fe_lba :: u32

record 'd kstate = "'d gworld" +
  command_buffer :: bytes
  command_length :: nat
  command_ready :: bool
  cmd_history :: "bytes list"
  history_count :: nat
  history_pos :: int
  vfs :: "fat_entry list"
  vfs_count :: nat
  mem_display_mode :: nat
  pmm_state :: pmm
  saved_multiboot_info_ptr :: nat
  saved_boot_magic :: u32
  shift_active :: bool
  e0_mode :: bool

abbreviation (input) MAX_HISTORY :: nat where "MAX_HISTORY \<equiv> 10"
abbreviation (input) MODE_HEX :: nat where "MODE_HEX \<equiv> 0"
abbreviation (input) MODE_BIN :: nat where "MODE_BIN \<equiv> 1"

definition kstate0 :: "'d gworld \<Rightarrow> 'd kstate" where
  "kstate0 w = gworld.extend w
     \<lparr>command_buffer = replicate 256 0, command_length = 0, command_ready = False,
      cmd_history = replicate MAX_HISTORY (replicate 256 0), history_count = 0, history_pos = -1,
      vfs = replicate 16 \<lparr>fe_name = replicate 16 0, fe_lba = 0\<rparr>, vfs_count = 0, mem_display_mode = MODE_HEX,
      pmm_state = pmm0, saved_multiboot_info_ptr = 0, saved_boot_magic = 0, shift_active = False, e0_mode = False\<rparr>"

record 'd machine =
  m_ports :: "'d ports"
  m_peek :: "'d kstate \<Rightarrow> nat \<Rightarrow> u8"
  m_poke :: "nat \<Rightarrow> u8 \<Rightarrow> 'd kstate \<Rightarrow> 'd kstate"
  m_call :: "nat \<Rightarrow> 'd kstate \<Rightarrow> 'd kstate option"
  m_hlt :: "'d kstate \<Rightarrow> 'd kstate option"
  m_poll :: "'d kstate \<Rightarrow> 'd kstate"
  m_cpuid :: "u32 \<Rightarrow> u32 \<times> u32 \<times> u32 \<times> u32"
  m_word :: "nat \<Rightarrow> u32"
  m_stack_space :: nat
  m_page_directory :: u32
  m_page_table :: u32
  m_gdt :: u32
  m_tss :: u32
  m_idt :: u32
  m_stubs :: stubs
  m_rtl8139_isr :: u32
  m_after_gui_buffer :: bytes

section \<open>History\<close>

definition add_to_history :: "bytes \<Rightarrow> 'd kstate \<Rightarrow> 'd kstate" where
  "add_to_history cmd w =
     (if cmd ! 0 = 0 then w
      else
        let h = fold (\<lambda>i h. h[i := h ! (i - 1)]) (rev [1..<MAX_HISTORY]) (cmd_history w)
        in w\<lparr>cmd_history := h[0 := take 256 cmd],
             history_count := (if history_count w < MAX_HISTORY then history_count w + 1 else history_count w),
             history_pos := -1\<rparr>)"

text \<open>The line that was being edited is wiped from the screen, and the chosen one is typed in its place.\<close>

definition load_history :: "int \<Rightarrow> 'd kstate \<Rightarrow> 'd kstate option" where
  "load_history direction w =
     (if history_count w = 0 then Some w
      else
        let p = history_pos w + direction;
            p1 = (if p < 0 then -1 else p);
            p2 = (if p1 \<ge> int (history_count w) then int (history_count w) - 1 else p1);
            w1 = con_update (print_char 8 ^^ command_length w) (w\<lparr>history_pos := p2, command_length := 0\<rparr>)
        in if p2 = -1 then Some (w1\<lparr>command_buffer := put 0 [0] (command_buffer w1)\<rparr>)
           else
             let row = cmd_history w1 ! nat p2; s = cstr row in
             if length s \<ge> length row \<or> length s \<ge> length (command_buffer w1) then None
             else Some ((con_update (fold print_char s) w1)\<lparr>command_buffer := put 0 (s @ [0]) (command_buffer w1), command_length := length s\<rparr>))"

section \<open>Reports\<close>

definition kprint_padded :: "int \<Rightarrow> 'a kworld_scheme \<Rightarrow> 'a kworld_scheme" where
  "kprint_padded n = con_update (print_int_padded n)"

definition print_region :: "multiboot_memory_map \<Rightarrow> 'a kworld_scheme \<Rightarrow> 'a kworld_scheme" where
  "print_region e w =
     (let wide = (\<lambda>hi lo v. if hi > (0 :: nat)
            then con_update (print_hex_no_prefix_padded (of_nat lo)) (con_update (print_hex_no_prefix (of_nat hi)) v)
            else con_update (print_hex_no_prefix (of_nat lo)) v);
          w1 = wide (base_addr_high e) (base_addr_low e) (kprint_color (str ''0x'') COLOR_YELLOW (kprint (str ''Region Base: '') w));
          w2 = wide (length_high e) (length_low e) (kprint_color (str ''0x'') COLOR_YELLOW (kprint (str '' Length: '') w1));
          w3 = kprint (str '' Type: '') w2
      in kputc 10 (if me_type e = 1 then kprint_color (str ''AVAILABLE'') COLOR_LIGHT_GREEN w3 else kprint_color (str ''RESERVED'') COLOR_LIGHT_RED w3))"

definition print_multiboot_mmap :: "(nat \<Rightarrow> u32) \<Rightarrow> nat \<Rightarrow> 'a kworld_scheme \<Rightarrow> 'a kworld_scheme option" where
  "print_multiboot_mmap mem info_ptr w =
     (let mbi = mbi_at mem info_ptr;
          w1 = kprint_color (str ''--- MULTIBOOT MEMORY MAP REPORT ---'' @ [10]) COLOR_YELLOW w;
          w2 = (if bit (mbi_flags mbi) 0
                then kprint (str '' MB'' @ [10]) (kprint_int (int ((mem_lower mbi + mem_upper mbi + 1024) mod W32 div 1024))
                       (kprint (str ''Total Memory (GRUB): '') w1))
                else kprint_color (str ''Warning: mem_lower/upper not valid.'' @ [10]) COLOR_LIGHT_RED w1);
          mmap_end = (mmap_addr mbi + mmap_length mbi) mod W32
      in map_option (kprint_color (str ''-----------------------------------'' @ [10]) COLOR_YELLOW)
           (if bit (mbi_flags mbi) 6 then
              do { n \<leftarrow> mmap_walk mem (\<lambda>_ n. n + 1) (mmap_addr mbi) mmap_end (0 :: int);
                   mmap_walk mem print_region (mmap_addr mbi) mmap_end
                     (kputc 10 (kprint_int n (kprint (str ''Memory Map Entries : '') w2))) }
            else Some (kprint_color (str ''Warning: mmap not valid.'' @ [10]) COLOR_LIGHT_RED w2)))"

definition dump_bootinfo :: "(nat \<Rightarrow> u32) \<Rightarrow> 'd kstate \<Rightarrow> 'd kstate" where
  "dump_bootinfo mem w =
     (let w1 = kprint_hex (saved_boot_magic w) (kprint (str ''Magic             : '')
                 (kprint_color (str ''--- MULTIBOOT BOOT INFO ---'' @ [10]) COLOR_YELLOW w));
          w2 = (if saved_boot_magic w = 0x2BADB002 then kprint_color (str '' (valid)'' @ [10]) COLOR_LIGHT_GREEN w1
                else kprint_color (str '' (invalid)'' @ [10]) COLOR_LIGHT_RED w1);
          w3 = kputc 10 (kprint_hex (of_nat (saved_multiboot_info_ptr w)) (kprint (str ''Info pointer      : '') w2))
      in if saved_multiboot_info_ptr w = 0 then w3
         else
           let flags = mbi_flags (mbi_at mem (saved_multiboot_info_ptr w));
               w4 = kputc 10 (kprint_hex flags (kprint (str ''Flags             : '') w3));
               w5 = (if bit flags 0 then kprint (str ''mem_lower/upper   : valid'' @ [10]) w4 else w4)
           in if bit flags 6 then kprint (str ''mmap              : valid'' @ [10]) w5 else w5)"

definition print_date :: "'d kstate \<Rightarrow> 'd kstate" where
  "print_date w =
     kprint_padded (uint (rtc_day w)) (kputc 45 (kprint_padded (uint (rtc_month w)) (kputc 45 (kprint_padded (sint (rtc_year w)) w))))"

definition print_clock :: "'d kstate \<Rightarrow> 'd kstate" where
  "print_clock w =
     kprint_padded (uint (rtc_second w)) (kputc 58 (kprint_padded (uint (rtc_minute w)) (kputc 58 (kprint_padded (uint (rtc_hour w)) w))))"

definition dump_diskinfo :: "'d ports \<Rightarrow> 'd kstate \<Rightarrow> 'd kstate option" where
  "dump_diskinfo dv w =
     (let w1 = kprint (str ''ATA IDE primary   : 0x1F0 (LBA28)'' @ [10]) (kprint_color (str ''--- DEVICE SUBSYSTEM ---'' @ [10]) COLOR_LIGHT_CYAN w);
          w2 = kprint_int (sint (total_disk_reads w1)) (kprint (str ''Sector reads      : '') w1);
          w3 = kprint [10] (kprint_int (sint (total_disk_writes w2)) (kprint ([10] @ str ''Sector writes     : '') w2))
      in map_option (\<lambda>v. kputc 10 (print_clock (kprint (str '' '') (print_date (kprint (str ''CMOS RTC          : '') v))))) (read_rtc dv w3))"

definition help_lines :: "(string \<times> u8 \<times> string) list" where
  "help_lines =
    [(''  sysinfo      '', COLOR_YELLOW, ''- Deep CPUID Hardware Interrogation''),
     (''  run <lba>    '', COLOR_LIGHT_RED, ''- WARNING: Execute raw binary code from disk sector''),
     (''  sector <lba> '', COLOR_YELLOW, ''- Dump a 512-byte raw disk sector to screen''),
     (''  write <args> '', COLOR_YELLOW, ''- Write text to Sector 1 or a RexFS file''),
     (''  time         '', COLOR_YELLOW, ''- Read physical CMOS Real-Time Clock''),
     (''  kmalloc <n>  '', COLOR_YELLOW, ''- Dynamically allocate n bytes on the Heap''),
     (''  kfree <addr> '', COLOR_YELLOW, ''- Free a previously allocated Heap block''),
     (''  peek <addr>  '', COLOR_YELLOW, ''- Read a raw byte from a hex memory address''),
     (''  poke <a, v>  '', COLOR_YELLOW, ''- Write a hex byte value to a hex memory address''),
     (''  dump <addr>  '', COLOR_YELLOW, ''- Dump 16 bytes from a hex memory address''),
     (''  vgamode      '', COLOR_LIGHT_CYAN, ''- Switch to 320x200 Pixel Graphics (No Return)''),
     (''  panic        '', COLOR_LIGHT_RED, ''- Trigger a manual Kernel Panic (System Halt)''),
     (''  memmap       '', COLOR_YELLOW, ''- Print Multiboot memory map report''),
     (''  bootinfo     '', COLOR_YELLOW, ''- Multiboot magic, info pointer, flags''),
     (''  vmminfo      '', COLOR_YELLOW, ''- Paging status, CR3, identity map''),
     (''  pmm          '', COLOR_YELLOW, ''- Physical memory manager statistics''),
     (''  meminfo      '', COLOR_YELLOW, ''- Detailed heap and kernel base report''),
     (''  mkfs         '', COLOR_YELLOW, ''- Format drive with RexFS partition layout''),
     (''  mount        '', COLOR_YELLOW, ''- Mount RexFS partition''),
     (''  unmount      '', COLOR_YELLOW, ''- Unmount RexFS partition safely''),
     (''  fsinfo       '', COLOR_YELLOW, ''- Show RexFS filesystem information''),
     (''  mkdir <name> '', COLOR_YELLOW, ''- Create a new subdirectory in RexFS''),
     (''  cd <path>    '', COLOR_YELLOW, ''- Change directory in RexFS''),
     (''  pwd          '', COLOR_YELLOW, ''- Print absolute working directory in RexFS''),
     (''  touch <name> '', COLOR_YELLOW, ''- Create an empty file in RexFS''),
     (''  rm <name>    '', COLOR_YELLOW, ''- Remove a file or directory in RexFS''),
     (''  writehex <f> '', COLOR_YELLOW, ''- Write binary data to RexFS file as hex''),
     (''  exec <file>  '', COLOR_YELLOW, ''- Execute a NEX program from RexFS''),
     (''  diskinfo     '', COLOR_YELLOW, ''- ATA controller and CMOS RTC details''),
     (''  pci          '', COLOR_YELLOW, ''- Scan PCI bus and list devices''),
     (''  netinfo      '', COLOR_YELLOW, ''- RTL8139 adapter and MAC address''),
     (''  ping <ip>    '', COLOR_YELLOW, ''- Send ICMP echo request (ping)''),
     (''  udpsend <args>'', COLOR_YELLOW, ''- Send UDP packet (udpsend <ip> <port> <msg>)''),
     (''  trace        '', COLOR_YELLOW, ''- Recent internal kernel events''),
     (''  link <n, l>  '', COLOR_YELLOW, ''- Link a filename to a disk sector LBA''),
     (''  ls           '', COLOR_YELLOW, ''- List all linked files in VFS''),
     (''  cat <file>   '', COLOR_YELLOW, ''- Output contents of a VFS or RexFS file''),
     (''  monitor      '', COLOR_YELLOW, ''- Live uptime and I/O counters''),
     (''  clear        '', COLOR_YELLOW, ''- Flush screen matrix'')]"

definition cmd_help :: "'a kworld_scheme \<Rightarrow> 'a kworld_scheme" where
  "cmd_help w =
     fold (\<lambda>(name, color, what) v. kprint (str what @ [10]) (kprint_color (str name) color v)) help_lines
       (kprint_color (str ''Newrex Operator Kernel v5.0'' @ [10]) COLOR_LIGHT_CYAN w)"

section \<open>Commands\<close>

definition cmd_memmap :: "'d machine \<Rightarrow> 'd kstate \<Rightarrow> 'd kstate option" where
  "cmd_memmap mc w =
     (if saved_multiboot_info_ptr w \<noteq> 0 then print_multiboot_mmap (m_word mc) (saved_multiboot_info_ptr w) w
      else Some (err ''Error: No valid Multiboot information saved.'' w))"

partial_function (option) desktop_loop :: "'d machine \<Rightarrow> 'd kstate \<Rightarrow> 'd kstate option" where
  "desktop_loop mc w =
     (if vga_active w then
        (case m_hlt mc (if frame_ready w then (render_gui w)\<lparr>frame_ready := False\<rparr> else w) of
           None \<Rightarrow> None
         | Some w1 \<Rightarrow> desktop_loop mc w1)
      else Some w)"

definition cmd_vgamode :: "'d machine \<Rightarrow> 'd kstate \<Rightarrow> 'd kstate option" where
  "cmd_vgamode mc w = desktop_loop mc ((set_vga_mode_13h (m_ports mc) w)\<lparr>vga_active := True, frame_ready := True\<rparr>)"

definition cmd_link :: "bytes \<Rightarrow> 'd kstate \<Rightarrow> 'd kstate" where
  "cmd_link args w =
     (if vfs_count w \<ge> 16 then err ''Error: VFS table full.'' w
      else
        let name = take 15 (takeWhile (\<lambda>c. c \<noteq> 32) args);
            rest = dropWhile (\<lambda>c. c = 32) (dropWhile (\<lambda>c. c \<noteq> 32) (drop (length name) args));
            e = \<lparr>fe_name = put 0 (name @ [0]) (fe_name (vfs w ! vfs_count w)), fe_lba = parse_int rest\<rparr>
        in okmsg ''File linked to FAT. Use \\'ls\\' to view.'' (w\<lparr>vfs := (vfs w)[vfs_count w := e], vfs_count := vfs_count w + 1\<rparr>))"

definition cmd_ls :: "'d kstate \<Rightarrow> 'd kstate" where
  "cmd_ls w =
     fold (\<lambda>e v. kputc 10 (kprint_int (sint (fe_lba e)) (kprint (str '' -> SECTOR '')
             (kprint_color (fe_name e) COLOR_YELLOW (kprint (str '' [FILE] '') v)))))
       (take (vfs_count w) (vfs w)) (kprint_color (str ''--- VIRTUAL FILE ALLOCATION TABLE ---'' @ [10]) COLOR_LIGHT_CYAN w)"

definition cmd_cat :: "bytes \<Rightarrow> 'd kstate \<Rightarrow> 'd kstate" where
  "cmd_cat filename w =
     (case find (\<lambda>e. strcmp (cstr (fe_name e)) filename = 0) (take (vfs_count w) (vfs w)) of
        None \<Rightarrow> err ''Error: File not found.'' w
      | Some e \<Rightarrow> let (b, w1) = read_sector (unat (fe_lba e)) w in kputc 10 (con_update (fold print_char (takeWhile (\<lambda>c. c \<noteq> 0) b)) w1))"

text \<open>Reading a sector to an address.\<close>

definition sector_to_ram :: "nat \<Rightarrow> nat \<Rightarrow> 'a fsworld_scheme \<Rightarrow> 'a fsworld_scheme" where
  "sector_to_ram lba p w = (let (b, w1) = read_sector lba w in w1\<lparr>ram := poke_bytes p b (ram w1)\<rparr>)"

definition cmd_daemon :: "bytes \<Rightarrow> 'd kstate \<Rightarrow> 'd kstate option" where
  "cmd_daemon args w =
     do { (app_mem, w1) \<leftarrow> kmalloc 512 w;
          let w2 = sector_to_ram (unat (parse_int args)) app_mem w1;
          Some (case find (\<lambda>i. daemon_tasks w2 ! i = 0) [0..<4] of
                  None \<Rightarrow> w2
                | Some i \<Rightarrow> okmsg ''Daemon active. Task bound to IRQ0 timer slice.'' (w2\<lparr>daemon_tasks := (daemon_tasks w2)[i := app_mem]\<rparr>)) }"

definition cmd_time :: "'d ports \<Rightarrow> 'd kstate \<Rightarrow> 'd kstate option" where
  "cmd_time dv w =
     map_option (\<lambda>v. kprint (str '' ]'' @ [10]) (print_clock (kprint (str '' [ '') (print_date (kprint_color (str ''CMOS Real-Time Clock: '') COLOR_LIGHT_GREEN v)))))
       (read_rtc dv w)"

definition cmd_kmalloc :: "bytes \<Rightarrow> 'd kstate \<Rightarrow> 'd kstate option" where
  "cmd_kmalloc args w =
     (let sz = parse_int args in
      map_option (\<lambda>(ptr, v).
        if ptr \<noteq> 0 then kprint_hex (of_nat ptr) (kprint (str '' bytes reserved at '') (kprint_int (sint sz) (kprint_color (str ''Heap Allocator: '') COLOR_LIGHT_CYAN v)))
        else kprint_color (str ''Error: Heap Out of Memory!'') COLOR_LIGHT_RED v) (kmalloc (unat sz) w))"

definition cmd_kfree :: "bytes \<Rightarrow> 'd kstate \<Rightarrow> 'd kstate option" where
  "cmd_kfree args w =
     (let addr = parse_hex args in
      map_option (\<lambda>v. kprint (str '' freed and coalesced.'') (kprint_hex addr (kprint_color (str ''Heap Allocator: Block at '') COLOR_LIGHT_CYAN v)))
        (kfree (unat addr) w))"

definition cmd_sysinfo :: "'d machine \<Rightarrow> 'd kstate \<Rightarrow> 'd kstate" where
  "cmd_sysinfo mc w =
     (let w1 = kprint_color (str ''32-Bit x86 Protected Mode Core'' @ [10]) COLOR_LIGHT_GREEN (kprint (str ''Newrex OS - Run mode: '') w);
          (a0, b0, c0, d0) = m_cpuid mc 0;
          w2 = kputc 10 (kprint_color (le32 b0 @ le32 d0 @ le32 c0) COLOR_LIGHT_CYAN (kprint (str ''CPU Vendor      : '') w1));
          (a1, b1, c1, d1) = m_cpuid mc 1;
          flag = (\<lambda>on name v. if on then kprint_color (str name) COLOR_LIGHT_GREEN v else v)
      in kputc 10 (flag (bit c1 31) ''HYPERVISOR '' (flag (bit c1 5) ''VMX '' (flag (bit d1 9) ''APIC '' (flag (bit d1 0) ''FPU ''
           (kprint (str ''Hardware Flags  : '') w2))))))"

definition cmd_run :: "'d machine \<Rightarrow> bytes \<Rightarrow> 'd kstate \<Rightarrow> 'd kstate option" where
  "cmd_run mc args w =
     (let lba = parse_int args in
      do { (app_mem, w1) \<leftarrow> kmalloc 512 (kprint_color (str ''Allocating heap memory for executable...'' @ [10]) COLOR_LIGHT_CYAN w);
           if app_mem = 0 then Some (err ''Error: Out of memory.'' w1)
           else do {
             let w2 = kputc 10 (kprint_hex (of_nat app_mem) (kprint_color (str '' into memory address '') COLOR_LIGHT_CYAN
                        (kprint_int (sint lba) (kprint_color (str ''Reading LBA '') COLOR_LIGHT_CYAN w1))));
             let w3 = kputc 10 (err ''Jumping execution pointer (EIP) to RAM. No safety nets active.'' (sector_to_ram (unat lba) app_mem w2));
             w4 \<leftarrow> m_call mc app_mem w3;
             kfree app_mem (okmsg ''Execution completed successfully. CPU survived.'' (kputc 10 w4)) } })"

definition cmd_mode :: "string \<Rightarrow> bytes \<Rightarrow> 'd kstate \<Rightarrow> 'd kstate" where
  "cmd_mode usage arg w =
     (if strcmp arg (str ''hex'') = 0 then
        kprint_color (str ''Display mode set to standard hexadecimal.'' @ [10]) 0x0A (w\<lparr>mem_display_mode := MODE_HEX\<rparr>)
      else if strcmp arg (str ''binary'') = 0 then
        kprint_color (str ''Display mode set to raw binary.'' @ [10]) 0x0A (w\<lparr>mem_display_mode := MODE_BIN\<rparr>)
      else kprint_color (str usage @ [10]) 0x0C w)"

text \<open>
  The two live displays: a loop that looks at the last character typed, repaints when the clock has
  ticked, and sleeps until an interrupt.
\<close>

definition quit_typed :: "'d kstate \<Rightarrow> bool" where
  "quit_typed w \<longleftrightarrow> command_length w > 0 \<and> (command_buffer w ! (command_length w - 1) = 113 \<or> command_buffer w ! (command_length w - 1) = 81)"

definition drop_line :: "'d kstate \<Rightarrow> 'd kstate" where
  "drop_line w = w\<lparr>command_length := 0, command_buffer := replicate 256 0\<rparr>"

partial_function (option) live_loop :: "'d machine \<Rightarrow> ('d kstate \<Rightarrow> 'd kstate) \<Rightarrow> u32 \<Rightarrow> 'd kstate \<Rightarrow> 'd kstate option" where
  "live_loop mc redraw last_tick w =
     (let quit = quit_typed w;
          w1 = (if quit then drop_line w else w);
          w2 = (if system_ticks w1 \<noteq> last_tick then redraw w1 else w1)
      in case m_hlt mc w2 of
           None \<Rightarrow> None
         | Some w3 \<Rightarrow> if quit then Some w3 else live_loop mc redraw (system_ticks w1) w3)"

definition set_cursor :: "int \<Rightarrow> 'a kworld_scheme \<Rightarrow> 'a kworld_scheme" where
  "set_cursor off w = con_update (\<lambda>c. c\<lparr>cursor_offset := off\<rparr>) w"

definition monitor_paint :: "int \<Rightarrow> 'd kstate \<Rightarrow> 'd kstate" where
  "monitor_paint base_cursor w =
     (let line = (\<lambda>label n unit v. kprint (str unit @ [10]) (kprint_int (sint (n :: u32)) (kprint (str label) v)));
          w1 = line ''  SYSTEM UPTIME      : '' (uptime_seconds w) '' SECONDS       '' (set_cursor base_cursor w);
          w2 = line ''  HARDWARE TICKS     : '' (system_ticks w1) '' IRQ0 CYCLES   '' w1;
          w3 = line ''  DYNAMIC HEAP USAGE : '' (total_bytes_allocated w2) '' BYTES ALLOCATED  '' w2;
          w4 = line ''  ATA DISK READS     : '' (total_disk_reads w3) '' SECTOR FETCHES   '' w3
      in line ''  ATA DISK WRITES    : '' (total_disk_writes w4) '' SECTOR COMMITS   '' w4)"

definition cmd_monitor :: "'d machine \<Rightarrow> 'd kstate \<Rightarrow> 'd kstate option" where
  "cmd_monitor mc w =
     (let bar = replicate 80 61 @ [10];
          w1 = kprint_color bar COLOR_LIGHT_GRAY (con_update clear_screen w);
          w2 = kprint_color (str '' [ NEWREX KERNEL ] - LIVE HARDWARE INTROSPECTION MODULE '' @ [10]) COLOR_LIGHT_CYAN w1;
          w3 = kprint_color (str '' Press \\'Q\\' to exit active monitoring mode.'' @ [10, 10]) COLOR_LIGHT_RED (kprint_color (bar @ [10]) COLOR_LIGHT_GRAY w2)
      in map_option (con_update clear_screen) (live_loop mc (monitor_paint (cursor_offset (con w3))) 0 w3))"

text \<open>Bytes as text, unprintable ones as dots.\<close>

definition ascii_color :: "u8 \<Rightarrow> 'a kworld_scheme \<Rightarrow> 'a kworld_scheme" where
  "ascii_color c w = con_update (if 32 \<le> c \<and> c \<le> 126 then print_char_color c 0x0A else print_char_color 46 0x07) w"

definition watch_paint :: "'d machine \<Rightarrow> u32 \<Rightarrow> int \<Rightarrow> 'd kstate \<Rightarrow> 'd kstate" where
  "watch_paint mc addr base_cursor w =
     (let at = (\<lambda>i v. m_peek mc v ((unat addr + i) mod W32));
          w1 = kprint_color (str '': '' @ [10] @ str '' '') 0x0B (kprint_hex addr (kprint_color (str '' LIVE RAM AT '') 0x0B (set_cursor base_cursor w)));
          w2 = fold (\<lambda>i v. kputc 32 (if mem_display_mode v = MODE_HEX then kprint_hex (ucast (at i v)) v else con_update (print_binary_byte (at i v)) v)) [0..<8] w1;
          w3 = fold (\<lambda>i v. ascii_color (at i v) v) [0..<8] (kprint (str '' | '') w2)
      in kprint (str ''          '' @ [10]) w3)"

definition cmd_watch :: "'d machine \<Rightarrow> bytes \<Rightarrow> 'd kstate \<Rightarrow> 'd kstate option" where
  "cmd_watch mc args w = live_loop mc (watch_paint mc (parse_hex args) (cursor_offset (con w))) (system_ticks w) w"

text \<open>The argument behind the next space.\<close>

definition next_arg :: "bytes \<Rightarrow> bytes" where
  "next_arg args = (case dropWhile (\<lambda>c. c \<noteq> 32) args of [] \<Rightarrow> [] | c # rest \<Rightarrow> rest)"

function inject_bytes :: "bytes \<Rightarrow> bytes" where
  "inject_bytes args = (if args = [] then [] else ucast (parse_hex args) # inject_bytes (next_arg args))"
  by pat_completeness auto
termination
proof (relation "measure length")
  fix args :: bytes
  assume "args \<noteq> []"
  then have "length (next_arg args) < length args" using length_dropWhile_le [of "\<lambda>c. c \<noteq> 32" args] by (auto simp: next_arg_def split: list.splits)
  then show "(next_arg args, args) \<in> measure length" by simp
qed simp

declare inject_bytes.simps [simp del]

definition cmd_inject :: "'d machine \<Rightarrow> bytes \<Rightarrow> 'd kstate \<Rightarrow> 'd kstate option" where
  "cmd_inject mc args w =
     (let addr = parse_hex args; bs = inject_bytes (next_arg args);
          w1 = fold (\<lambda>i. m_poke mc ((unat addr + i) mod W32) (bs ! i)) [0..<length bs] w;
          w2 = kprint_int (int (length bs)) (kprint_color (str ''Injected '') COLOR_LIGHT_GREEN w1);
          w3 = kputc 10 (kprint_hex addr (kprint_color (str '' bytes of raw machine code at '') COLOR_LIGHT_GREEN w2));
          w4 = sys_trace (str ''[EXEC] Live Opcode Injection'') (err ''Jumping EIP to payload...'' w3)
      in map_option (okmsg ''Execution completed. CPU Survived.'') (m_call mc (unat addr) w4))"

definition cmd_write :: "bytes \<Rightarrow> 'd kstate \<Rightarrow> 'd kstate" where
  "cmd_write txt w =
     kprint_color (str ''Successfully wrote text to Physical Sector 1.'') COLOR_LIGHT_GREEN (write_sector 1 (put 0 (take 511 txt) (replicate 512 0)) w)"

definition sector_line :: "bytes \<Rightarrow> nat \<Rightarrow> 'a kworld_scheme \<Rightarrow> 'a kworld_scheme" where
  "sector_line b i w =
     (let hex = (\<lambda>d. con_update (print_char_color (hex_char d) COLOR_YELLOW));
          w1 = kputc 32 (hex (unat (b ! i) mod 16) (hex (unat (b ! i) div 16) w))
      in if (i + 1) mod 16 = 0 then kputc 10 (fold (\<lambda>j. ascii_color (b ! j)) [i - 15..<i + 1] (kprint (str '' | '') w1)) else w1)"

definition cmd_sector :: "bytes \<Rightarrow> 'd kstate \<Rightarrow> 'd kstate" where
  "cmd_sector args w =
     (let lba = parse_int args;
          w1 = kputc 10 (kprint_int (sint lba) (kprint_color (str ''Reading Physical Hard Drive Sector '') COLOR_LIGHT_CYAN w));
          (b, w2) = read_sector (unat lba) w1
      in fold (sector_line b) [0..<512] w2)"

definition cmd_peek :: "'d machine \<Rightarrow> bytes \<Rightarrow> 'd kstate \<Rightarrow> 'd kstate" where
  "cmd_peek mc args w =
     (let addr = parse_hex args;
          w1 = kprint_color (str '' contains: '') COLOR_LIGHT_CYAN (kprint_hex addr (kprint_color (str ''Memory at '') COLOR_LIGHT_CYAN w))
      in kprint_hex (ucast (m_peek mc w1 (unat addr))) w1)"

definition cmd_poke :: "'d machine \<Rightarrow> bytes \<Rightarrow> 'd kstate \<Rightarrow> 'd kstate" where
  "cmd_poke mc args w =
     (let addr = parse_hex args in
      case dropWhile (\<lambda>c. c \<noteq> 32) args of
        [] \<Rightarrow> w
      | c # rest \<Rightarrow>
          let val = parse_hex rest; w1 = m_poke mc (unat addr) (ucast val) w
          in kprint_hex addr (kprint_color (str '' to address '') COLOR_LIGHT_GREEN (kprint_hex val (kprint_color (str ''Successfully wrote '') COLOR_LIGHT_GREEN w1))))"

definition cmd_dump :: "'d machine \<Rightarrow> bytes \<Rightarrow> 'd kstate \<Rightarrow> 'd kstate" where
  "cmd_dump mc args w =
     (let addr = parse_hex args;
          w1 = kputc 10 (kprint_hex addr (kprint_color (str ''Hex Dump at '') COLOR_LIGHT_CYAN w))
      in fold (\<lambda>i v. kputc 32 (kprint_hex (ucast (m_peek mc v ((unat addr + i) mod W32))) v)) [0..<16] w1)"

section \<open>The interpreter\<close>

text \<open>The chain of comparisons.  The capacity query of \<open>mkfs\<close> is made on the ports.\<close>

definition run_command :: "'d machine \<Rightarrow> bytes \<Rightarrow> 'd kstate \<Rightarrow> ('d kstate + 'd kstate) option" where
  "run_command mc cmd w =
     (if strcmp cmd (str ''help'') = 0 then Some (Inr (cmd_help w))
      else if strcmp cmd (str ''bootinfo'') = 0 then Some (Inr (dump_bootinfo (m_word mc) w))
      else if strcmp cmd (str ''vmminfo'') = 0 then Some (Inr (vmm_dump_info (m_page_directory mc) (m_page_table mc) w))
      else if strcmp cmd (str ''pmm'') = 0 then Some (Inr (pmm_dump_info (pmm_state w) w))
      else if strcmp cmd (str ''meminfo'') = 0 then map_option Inr (dump_meminfo w)
      else if strcmp cmd (str ''mkfs'') = 0 then map_option Inr (map_option (case_prod rexfs_mkfs) (ata_get_capacity (m_ports mc) w))
      else if strcmp cmd (str ''mount'') = 0 then Some (Inr (rexfs_mount w))
      else if strcmp cmd (str ''unmount'') = 0 then Some (Inr (rexfs_unmount w))
      else if strcmp cmd (str ''fsinfo'') = 0 then Some (Inr (rexfs_fsinfo w))
      else if starts_with cmd (str ''mkdir '') then Some (Inr (rexfs_mkdir (drop 6 cmd) w))
      else if starts_with cmd (str ''cd '') then Some (Inr (rexfs_cd (drop 3 cmd) w))
      else if strcmp cmd (str ''pwd'') = 0 then Some (Inr (rexfs_pwd w))
      else if starts_with cmd (str ''touch '') then Some (Inr (rexfs_touch (drop 6 cmd) w))
      else if starts_with cmd (str ''rm '') then map_option Inr (rexfs_rm (drop 3 cmd) w)
      else if starts_with cmd (str ''writehex '') then map_option Inr (rexfs_writehex (drop 9 cmd) w)
      else if starts_with cmd (str ''exec '') then map_option Inr (rexfs_exec (m_stack_space mc) (m_hlt mc) (drop 5 cmd) w)
      else if strcmp cmd (str ''diskinfo'') = 0 then map_option Inr (dump_diskinfo (m_ports mc) w)
      else if strcmp cmd (str ''pci'') = 0 then Some (Inr (pci_dump_all (m_ports mc) w))
      else if strcmp cmd (str ''netinfo'') = 0 then Some (Inr (rtl8139_dump_info (m_ports mc) w))
      else if starts_with cmd (str ''ping '') then map_option Inr (net_ping (m_ports mc) (m_poll mc) (drop 5 cmd) w)
      else if starts_with cmd (str ''udpsend '') then map_option Inr (net_udp_send (m_ports mc) (drop 8 cmd) w)
      else if strcmp cmd (str ''clear'') = 0 then Some (Inr (con_update clear_screen w))
      else if strcmp cmd (str ''memmap'') = 0 then map_option Inr (cmd_memmap mc w)
      else if strcmp cmd (str ''panic'') = 0 then Some (Inl (con_update (kernel_panic (str ''MANUAL SYSTEM HALT TRIGGERED BY USER'')) w))
      else if strcmp cmd (str ''vgamode'') = 0 then map_option Inr (cmd_vgamode mc w)
      else if starts_with cmd (str ''link '') then Some (Inr (cmd_link (drop 5 cmd) w))
      else if strcmp cmd (str ''ls'') = 0 \<and> rexfs_is_mounted w then Some (Inr (rexfs_ls w))
      else if strcmp cmd (str ''ls'') = 0 then Some (Inr (cmd_ls w))
      else if starts_with cmd (str ''cat '') \<and> rexfs_is_mounted w then map_option Inr (rexfs_cat (drop 4 cmd) w)
      else if starts_with cmd (str ''cat '') then Some (Inr (cmd_cat (drop 4 cmd) w))
      else if starts_with cmd (str ''daemon '') then map_option Inr (cmd_daemon (drop 7 cmd) w)
      else if strcmp cmd (str ''time'') = 0 then map_option Inr (cmd_time (m_ports mc) w)
      else if starts_with cmd (str ''kmalloc '') then map_option Inr (cmd_kmalloc (drop 8 cmd) w)
      else if starts_with cmd (str ''kfree '') then map_option Inr (cmd_kfree (drop 6 cmd) w)
      else if strcmp cmd (str ''sysinfo'') = 0 then Some (Inr (cmd_sysinfo mc w))
      else if starts_with cmd (str ''run '') then map_option Inr (cmd_run mc (drop 4 cmd) w)
      else if strcmp cmd (str ''trace'') = 0 then Some (Inr (cmd_trace w))
      else if starts_with cmd (str ''mode '') then Some (Inr (cmd_mode ''Usage: mode [hex | binary | symbolic]'' (drop 5 cmd) w))
      else if strcmp cmd (str ''monitor'') = 0 then map_option Inr (cmd_monitor mc w)
      else if starts_with cmd (str ''mode '') then Some (Inr (cmd_mode ''Usage: mode [hex | binary]'' (drop 5 cmd) w))
      else if starts_with cmd (str ''watch '') then map_option Inr (cmd_watch mc (drop 6 cmd) w)
      else if starts_with cmd (str ''inject '') then map_option Inr (cmd_inject mc (drop 7 cmd) w)
      else if starts_with cmd (str ''write '') \<and> rexfs_is_mounted w then map_option Inr (rexfs_write (drop 6 cmd) w)
      else if starts_with cmd (str ''write '') then Some (Inr (cmd_write (drop 6 cmd) w))
      else if starts_with cmd (str ''sector '') then Some (Inr (cmd_sector (drop 7 cmd) w))
      else if starts_with cmd (str ''peek '') then Some (Inr (cmd_peek mc (drop 5 cmd) w))
      else if starts_with cmd (str ''poke '') then Some (Inr (cmd_poke mc (drop 5 cmd) w))
      else if starts_with cmd (str ''dump '') then Some (Inr (cmd_dump mc (drop 5 cmd) w))
      else if command_length w > 0 then Some (Inr (kprint_color (str ''Error: Unknown command sequence. Type \\'help\\'.'') COLOR_LIGHT_RED w))
      else Some (Inr w))"

definition print_prompt :: "'a kworld_scheme \<Rightarrow> 'a kworld_scheme" where
  "print_prompt w =
     con_update (\<lambda>c. c\<lparr>prompt_min_offset := cursor_offset c\<rparr>)
       (kprint_color (str ''~# '') COLOR_LIGHT_CYAN (kprint (str '':'') (kprint_color (str ''root@newrex'') COLOR_LIGHT_RED w)))"

text \<open>
  \<open>src\<close> reads the array that \<open>cmd\<close> points to.  The test at the end reads it again, after
  a command that may have changed it.
\<close>

definition execute_command :: "'d machine \<Rightarrow> ('d kstate \<Rightarrow> bytes) \<Rightarrow> 'd kstate \<Rightarrow> ('d kstate + 'd kstate) option" where
  "execute_command mc src w =
     (let w1 = add_to_history (src w) (kputc 10 w) in
      map_option (map_sum id (\<lambda>w2.
          let cmd = cstr (src w2)
          in print_prompt
               (if strcmp cmd (str ''clear'') \<noteq> 0 \<and> strcmp cmd (str ''monitor'') \<noteq> 0 \<and> \<not> starts_with cmd (str ''watch '') then kputc 10 w2 else w2)))
        (run_command mc (cstr (src w1)) w1))"

end
