(* ===== verification/Keyboard.thy ===== *)
theory Keyboard
  imports Shell
begin

text \<open>
  The keyboard (drivers/keyboard.c), the line editor of the desktop, and the main program of kernel.c:
  booting and the loop that runs the commands typed.
\<close>

section \<open>Layouts\<close>

definition scancode_to_ascii_normal :: bytes where
  "scancode_to_ascii_normal =
     [0, 27] @ str ''1234567890-='' @ [8, 9] @ str ''qwertyuiop[]'' @ [10, 0] @ str ''asdfghjkl;'' @ [39] @ str ''`'' @ [0, 92] @
     str ''zxcvbnm,./'' @ [0, 42, 0, 32]"

definition scancode_to_ascii_shift :: bytes where
  "scancode_to_ascii_shift =
     [0, 27] @ str ''!@#$%^&*()_+'' @ [8, 9] @ str ''QWERTYUIOP{}'' @ [10, 0] @ str ''ASDFGHJKL:'' @ [34] @ str ''~'' @ [0, 124] @
     str ''ZXCVBNM<>?'' @ [0, 42, 0, 32]"

section \<open>Handlers\<close>

text \<open>The desktop runs its command inside the keyboard interrupt.\<close>

definition gui_src :: "'d machine \<Rightarrow> 'd kstate \<Rightarrow> bytes" where
  "gui_src mc w = gui_cmd_buffer w @ m_after_gui_buffer mc"

definition gui_handle_char :: "'d machine \<Rightarrow> u8 \<Rightarrow> 'd kstate \<Rightarrow> ('d kstate + 'd kstate) option" where
  "gui_handle_char mc c w =
     map_option (map_sum id (\<lambda>v. v\<lparr>frame_ready := True\<rparr>))
       (if c = 8 then
          Some (Inr (if gui_cmd_len w > 0
                     then w\<lparr>gui_cmd_len := gui_cmd_len w - 1, gui_cmd_buffer := (gui_cmd_buffer w)[gui_cmd_len w - 1 := 0]\<rparr> else w))
        else if c = 10 then
          map_option (map_sum id (\<lambda>v. v\<lparr>gui_cmd_len := 0, gui_cmd_buffer := (gui_cmd_buffer v)[0 := 0]\<rparr>)) (execute_command mc (gui_src mc) w)
        else if 32 \<le> c \<and> c \<le> 126 \<and> gui_cmd_len w < 99 then
          Some (Inr (w\<lparr>gui_cmd_buffer := (gui_cmd_buffer w)[gui_cmd_len w := c, gui_cmd_len w + 1 := 0], gui_cmd_len := gui_cmd_len w + 1\<rparr>))
        else Some (Inr w))"

definition type_char :: "u8 \<Rightarrow> 'd kstate \<Rightarrow> 'd kstate option" where
  "type_char ascii w =
     (if ascii = 8 then
        (if command_length w > 0
         then Some (kputc 8 (w\<lparr>command_length := command_length w - 1, command_buffer := (command_buffer w)[command_length w - 1 := 0]\<rparr>))
         else Some w)
      else if ascii = 10 then
        (if command_length w \<ge> length (command_buffer w) then None
         else Some (w\<lparr>command_buffer := (command_buffer w)[command_length w := 0], command_ready := True\<rparr>))
      else if ascii \<noteq> 0 \<and> command_length w < 255 then
        Some (kputc ascii (w\<lparr>command_buffer := (command_buffer w)[command_length w := ascii], command_length := command_length w + 1\<rparr>))
      else Some w)"

definition handle_scancode :: "'d machine \<Rightarrow> u8 \<Rightarrow> 'd kstate \<Rightarrow> ('d kstate + 'd kstate) option" where
  "handle_scancode mc scancode w =
     (if scancode = 0xE0 then Some (Inr (w\<lparr>e0_mode := True\<rparr>))
      else if e0_mode w then
        map_option (\<lambda>v. Inr (v\<lparr>e0_mode := False\<rparr>))
          (if scancode = 0x48 then load_history 1 w else if scancode = 0x50 then load_history (-1) w else Some w)
      else if scancode = 0x2A \<or> scancode = 0x36 then Some (Inr (w\<lparr>shift_active := True\<rparr>))
      else if scancode = 0xAA \<or> scancode = 0xB6 then Some (Inr (w\<lparr>shift_active := False\<rparr>))
      else if scancode AND 0x80 = 0 \<and> unat scancode < length scancode_to_ascii_normal then
        let layout = (if shift_active w then scancode_to_ascii_shift else scancode_to_ascii_normal);
            ascii = layout ! unat scancode
        in if vga_active w then gui_handle_char mc ascii w else map_option Inr (type_char ascii w)
      else Some (Inr w))"

definition keyboard_isr_handler :: "'d machine \<Rightarrow> 'd kstate \<Rightarrow> ('d kstate + 'd kstate) option" where
  "keyboard_isr_handler mc w =
     (let (scancode, w1) = inb (m_ports mc) 0x60 (outb (m_ports mc) 0x20 0x20 w) in handle_scancode mc scancode w1)"

section \<open>The main program\<close>

definition klog3 :: "'a kworld_scheme \<Rightarrow> 'a kworld_scheme" where
  "klog3 w =
     (let log = (\<lambda>msg. con_update (klog (str '' OK '') (str msg) COLOR_LIGHT_GREEN))
      in log ''Device subsystem initialized'' (log ''Memory subsystem initialized'' (log ''Core initialized'' w)))"

text \<open>\<open>kernel_main\<close> up to the point where interrupts are enabled.\<close>

definition kernel_boot :: "'d machine \<Rightarrow> u32 \<Rightarrow> nat \<Rightarrow> 'd kstate \<Rightarrow> ('d kstate + 'd kstate) option" where
  "kernel_boot mc magic info_ptr w =
     do { let valid = (magic = 0x2BADB002);
          let w1 = (con_update clear_screen w)\<lparr>saved_boot_magic := magic\<rparr>;
          let w2 = kprint_color (str ''Booting monolithic core...'' @ [10, 10]) COLOR_LIGHT_GRAY
                     (kprint_color (str ''Newrex Operator Kernel v5.0 (x86_32)'' @ [10]) COLOR_LIGHT_CYAN w1);
          w3 \<leftarrow> (if valid
                 then map_option (\<lambda>p. w2\<lparr>saved_multiboot_info_ptr := info_ptr, pmm_state := p\<rparr>) (pmm_init_from_mmap (m_word mc) info_ptr (pmm_state w2))
                 else Some (err ''Invalid Multiboot Magic!'' w2));
          let w4 = init_idt (m_ports mc) (m_idt mc) (m_stubs mc) (init_gdt (m_gdt mc) (m_tss mc) w3);
          let w5 = w4\<lparr>kheap := init_heap (kheap w4)\<rparr>;
          case (if valid then vmm_init (m_page_directory mc) (m_page_table mc) w5 else Inr w5) of
            Inl v \<Rightarrow> Some (Inl v)
          | Inr w6 \<Rightarrow> do {
              w7 \<leftarrow> rtl8139_init (m_ports mc) (m_rtl8139_isr mc) (rexfs_init w6);
              let w8 = print_prompt (kputc 10 (klog3 w7));
              Some (Inr (init_advanced_hardware (m_ports mc) (sys_trace (str ''[SYS] Kernel Boot Sequence Complete'') w8))) } }"

text \<open>One turn of the loop of \<open>kernel_main\<close>, up to the \<open>hlt\<close>.\<close>

definition main_turn :: "'d machine \<Rightarrow> 'd kstate \<Rightarrow> ('d kstate + 'd kstate) option" where
  "main_turn mc w =
     (if command_ready w
      then map_option (map_sum id (\<lambda>v. v\<lparr>command_length := 0, command_buffer := replicate 256 0, command_ready := False\<rparr>))
             (execute_command mc command_buffer w)
      else Some (Inr w))"

end
