(* ===== verification/KeyboardProps.thy ===== *)
theory KeyboardProps
  imports Keyboard
begin

text \<open>
  The command line: the keyboard handler implements a line editor with a history.
\<close>

section \<open>The abstract editor\<close>

text \<open>A line of at most 255 characters, the modifier keys, the lines entered before with the newest first, and which of them is shown.\<close>

record editor =
  ed_line :: bytes
  ed_shift :: bool
  ed_e0 :: bool
  ed_ready :: bool
  ed_hist :: "bytes list"
  ed_pos :: int

definition ed_recall :: "int \<Rightarrow> editor \<Rightarrow> editor" where
  "ed_recall dir e =
     (if ed_hist e = [] then e
      else let p = max (-1) (min (int (length (ed_hist e)) - 1) (ed_pos e + dir))
           in e\<lparr>ed_line := (if p = -1 then [] else ed_hist e ! nat p), ed_pos := p\<rparr>)"

definition ed_type :: "u8 \<Rightarrow> editor \<Rightarrow> editor" where
  "ed_type c e =
     (if c = 8 then e\<lparr>ed_line := butlast (ed_line e)\<rparr>
      else if c = 10 then e\<lparr>ed_ready := True\<rparr>
      else if c \<noteq> 0 \<and> length (ed_line e) < 255 then e\<lparr>ed_line := ed_line e @ [c]\<rparr>
      else e)"

definition ed_key :: "u8 \<Rightarrow> editor \<Rightarrow> editor" where
  "ed_key sc e =
     (if sc = 0xE0 then e\<lparr>ed_e0 := True\<rparr>
      else if ed_e0 e then (if sc = 0x48 then ed_recall 1 e else if sc = 0x50 then ed_recall (-1) e else e)\<lparr>ed_e0 := False\<rparr>
      else if sc = 0x2A \<or> sc = 0x36 then e\<lparr>ed_shift := True\<rparr>
      else if sc = 0xAA \<or> sc = 0xB6 then e\<lparr>ed_shift := False\<rparr>
      else if unat sc < 58 then ed_type ((if ed_shift e then scancode_to_ascii_shift else scancode_to_ascii_normal) ! unat sc) e
      else e)"

section \<open>Abstraction\<close>

definition editor_of :: "'d kstate \<Rightarrow> editor" where
  "editor_of w = \<lparr>ed_line = take (command_length w) (command_buffer w), ed_shift = shift_active w, ed_e0 = e0_mode w, ed_ready = command_ready w,
     ed_hist = map cstr (take (history_count w) (cmd_history w)), ed_pos = history_pos w\<rparr>"

definition editor_ok :: "'d kstate \<Rightarrow> bool" where
  "editor_ok w \<longleftrightarrow> length (command_buffer w) = 256 \<and> command_length w \<le> 255 \<and> 0 \<notin> set (take (command_length w) (command_buffer w)) \<and>
     length (cmd_history w) = MAX_HISTORY \<and> history_count w \<le> MAX_HISTORY \<and>
     (\<forall>row \<in> set (cmd_history w). length row = 256 \<and> length (cstr row) < 256) \<and>
     -1 \<le> history_pos w \<and> history_pos w < int (history_count w) \<and> \<not> vga_active w"

lemma con_editor [simp]: "editor_of (con_update f w) = editor_of w" "editor_ok (con_update f w) = editor_ok w"
  by (simp_all add: editor_of_def editor_ok_def)

lemma layouts: "length scancode_to_ascii_normal = 58" "length scancode_to_ascii_shift = 58"
  by (simp_all add: scancode_to_ascii_normal_def scancode_to_ascii_shift_def str_def)

lemma type_char_refines:
  assumes "editor_ok w"
  shows "\<exists>w'. type_char c w = Some w' \<and> editor_ok w' \<and> editor_of w' = ed_type c (editor_of w) \<and>
    (c = 10 \<longrightarrow> cstr (command_buffer w') = ed_line (editor_of w))"
proof -
  note ok = assms [unfolded editor_ok_def]
  consider "c = 8" "command_length w = 0" | "c = 8" "command_length w > 0" | "c = 10"
    | "c \<noteq> 8" "c \<noteq> 10" "c \<noteq> 0" "command_length w < 255" | "c \<noteq> 8" "c \<noteq> 10" "c = 0 \<or> command_length w \<ge> 255" by linarith
  then show ?thesis
  proof cases
    case 2
    then obtain n where n: "command_length w = Suc n" by (cases "command_length w") auto
    let ?w = "w\<lparr>command_length := n, command_buffer := (command_buffer w)[n := 0]\<rparr>"
    have t: "take n ((command_buffer w)[n := 0]) = butlast (take (Suc n) (command_buffer w))"
      using ok n by (simp add: butlast_take)
    have "set (take n (command_buffer w)) \<subseteq> set (take (Suc n) (command_buffer w))" by (rule set_take_subset_set_take) simp
    then have "editor_ok ?w" using ok n by (auto simp: editor_ok_def)
    then show ?thesis using 2 n t by (simp add: type_char_def ed_type_def editor_of_def)
  next
    case 3
    then have "(command_buffer w)[command_length w := 0] = take (command_length w) (command_buffer w) @ 0 # drop (Suc (command_length w)) (command_buffer w)"
      using ok by (intro upd_conv_take_nth_drop) simp
    then have "cstr ((command_buffer w)[command_length w := 0]) = take (command_length w) (command_buffer w)"
      using ok by (simp add: cstr_def takeWhile_tail) (auto simp: takeWhile_eq_all_conv)
    then show ?thesis using ok 3 by (auto simp: type_char_def ed_type_def editor_of_def editor_ok_def)
  next
    case 4
    let ?w = "w\<lparr>command_buffer := (command_buffer w)[command_length w := c], command_length := command_length w + 1\<rparr>"
    have t: "take (Suc (command_length w)) ((command_buffer w)[command_length w := c]) = take (command_length w) (command_buffer w) @ [c]"
      using ok 4 by (simp add: take_Suc_conv_app_nth)
    then have "editor_ok ?w" using ok 4 by (simp add: editor_ok_def)
    then show ?thesis using 4 t ok by (simp add: type_char_def ed_type_def editor_of_def min_def)
  next
    case 5
    then show ?thesis using ok assms by (auto simp: type_char_def ed_type_def editor_of_def)
  qed (use ok assms in \<open>auto simp: type_char_def ed_type_def editor_of_def\<close>)
qed

lemma load_history_refines:
  assumes "editor_ok w"
  shows "\<exists>w'. load_history dir w = Some w' \<and> editor_ok w' \<and> editor_of w' = ed_recall dir (editor_of w) \<and>
    e0_mode w' = e0_mode w"
proof (cases "history_count w = 0")
  case True
  then show ?thesis using assms by (simp add: load_history_def ed_recall_def editor_of_def)
next
  case False
  note ok = assms [unfolded editor_ok_def]
  define p where "p = max (-1) (min (int (history_count w) - 1) (history_pos w + dir))"
  define p1 where "p1 = (if history_pos w + dir < 0 then -1 else history_pos w + dir)"
  have p2: "(if p1 \<ge> int (history_count w) then int (history_count w) - 1 else p1) = p" using False unfolding p_def p1_def by auto
  have range: "-1 \<le> p" "p < int (history_count w)" using False by (auto simp: p_def)
  let ?w1 = "con_update (print_char 8 ^^ command_length w) (w\<lparr>history_pos := p, command_length := 0\<rparr>)"
  have hist: "ed_hist (editor_of w) \<noteq> []" "length (ed_hist (editor_of w)) = history_count w" using ok False by (auto simp: editor_of_def)
  have spec: "ed_recall dir (editor_of w) = (editor_of w)\<lparr>ed_line := (if p = -1 then [] else ed_hist (editor_of w) ! nat p), ed_pos := p\<rparr>"
    unfolding ed_recall_def using hist by (simp add: Let_def p_def editor_of_def)
  have step: "load_history dir w =
      (if p = -1 then Some (?w1\<lparr>command_buffer := put 0 [0] (command_buffer ?w1)\<rparr>)
       else let row = cmd_history ?w1 ! nat p; s = cstr row in
         if length s \<ge> length row \<or> length s \<ge> length (command_buffer ?w1) then None
         else Some ((con_update (fold print_char s) ?w1)\<lparr>command_buffer := put 0 (s @ [0]) (command_buffer ?w1), command_length := length s\<rparr>))"
    using False unfolding load_history_def Let_def p1_def [symmetric] p2 by simp
  show ?thesis
  proof (cases "p = -1")
    case True
    then show ?thesis using ok range unfolding step spec by (simp add: editor_ok_def editor_of_def)
  next
    case np: False
    then have n: "nat p < history_count w" using range by linarith
    let ?s = "cstr (cmd_history w ! nat p)"
    have row: "length (cmd_history w ! nat p) = 256" "length ?s < 256" using ok n by simp_all
    have nz: "0 \<notin> set ?s" by (auto simp: cstr_def dest: set_takeWhileD)
    have line: "ed_hist (editor_of w) ! nat p = ?s" using n ok by (simp add: editor_of_def)
    have put: "take (length ?s) (put 0 (?s @ [0]) (command_buffer w)) = ?s" "length (put 0 (?s @ [0]) (command_buffer w)) = 256"
      using row ok by (simp_all add: put_def)
    let ?w2 = "(con_update (fold print_char ?s) ?w1)\<lparr>command_buffer := put 0 (?s @ [0]) (command_buffer w), command_length := length ?s\<rparr>"
    have "load_history dir w = Some ?w2" unfolding step using np row ok by (simp add: Let_def)
    moreover have "editor_ok ?w2" using ok row nz put range by (simp add: editor_ok_def)
    moreover have "editor_of ?w2 = ed_recall dir (editor_of w)" unfolding spec line using np put by (simp add: editor_of_def)
    ultimately show ?thesis by auto
  qed
qed

lemma scancode_small: "unat (sc :: u8) < 58 \<Longrightarrow> sc AND 0x80 = 0"
proof -
  assume "unat sc < 58"
  then have "\<not> bit (unat sc) 7" by (simp add: bit_iff_odd)
  then have b: "\<not> bit sc 7" by (simp add: bit_unsigned_iff)
  show ?thesis
  proof (rule bit_word_eqI)
    fix n :: nat
    assume "n < LENGTH(8)"
    then have "n \<in> {0, 1, 2, 3, 4, 5, 6, 7}" by auto
    then show "bit (sc AND 0x80) n = bit (0 :: u8) n" using b by (auto simp: bit_simps bit_numeral_rec)
  qed
qed

lemma handle_scancode_refines:
  assumes "editor_ok w"
  shows "\<exists>w'. handle_scancode mc sc w = Some (Inr w') \<and> editor_ok w' \<and> editor_of w' = ed_key sc (editor_of w) \<and>
    (command_ready w' \<and> \<not> command_ready w \<longrightarrow> cstr (command_buffer w') = ed_line (editor_of w'))"
proof -
  have vga: "\<not> vga_active w" using assms by (simp add: editor_ok_def)
  consider "sc = 0xE0" | "sc \<noteq> 0xE0" "e0_mode w" | "sc \<noteq> 0xE0" "\<not> e0_mode w" "sc \<in> {0x2A, 0x36, 0xAA, 0xB6}"
    | "sc \<noteq> 0xE0" "\<not> e0_mode w" "sc \<notin> {0x2A, 0x36, 0xAA, 0xB6}" "unat sc < 58"
    | "sc \<noteq> 0xE0" "\<not> e0_mode w" "sc \<notin> {0x2A, 0x36, 0xAA, 0xB6}" "\<not> unat sc < 58" by blast
  then show ?thesis
  proof cases
    case 1
    then show ?thesis using assms by (simp add: handle_scancode_def ed_key_def editor_of_def editor_ok_def)
  next
    case 2
    obtain w1 where w1: "load_history 1 w = Some w1" "editor_ok w1" "editor_of w1 = ed_recall 1 (editor_of w)"
      using load_history_refines [OF assms] by blast
    obtain w2 where w2: "load_history (-1) w = Some w2" "editor_ok w2" "editor_of w2 = ed_recall (-1) (editor_of w)"
      using load_history_refines [OF assms] by blast
    have e0: "editor_ok (v\<lparr>e0_mode := False\<rparr>) = editor_ok v" "editor_of (v\<lparr>e0_mode := False\<rparr>) = (editor_of v)\<lparr>ed_e0 := False\<rparr>" for v :: "'a kstate"
      by (simp_all add: editor_ok_def editor_of_def)
    have r: "ed_ready (ed_recall d e) = ed_ready e" for d e by (simp add: ed_recall_def Let_def)
    have "command_ready w1 = command_ready w" "command_ready w2 = command_ready w"
      using arg_cong [OF w1(3), of ed_ready] arg_cong [OF w2(3), of ed_ready] by (simp_all add: r editor_of_def)
    then show ?thesis using 2 w1 w2 assms
      by (auto simp: handle_scancode_def ed_key_def e0) (simp_all add: editor_of_def)
  next
    case 3
    then show ?thesis using assms by (auto simp: handle_scancode_def ed_key_def editor_of_def editor_ok_def)
  next
    case 4
    let ?c = "(if shift_active w then scancode_to_ascii_shift else scancode_to_ascii_normal) ! unat sc"
    obtain w' where w': "type_char ?c w = Some w'" "editor_ok w'" "editor_of w' = ed_type ?c (editor_of w)"
        "?c = 10 \<Longrightarrow> cstr (command_buffer w') = ed_line (editor_of w)"
      using type_char_refines [OF assms] by blast
    have h: "handle_scancode mc sc w = Some (Inr w')"
      using 4 vga w'(1) scancode_small [OF 4(4)] unfolding handle_scancode_def layouts Let_def by auto
    have k: "ed_key sc (editor_of w) = ed_type ?c (editor_of w)"
      using 4 unfolding ed_key_def by (auto simp: editor_of_def)
    have "cstr (command_buffer w') = ed_line (editor_of w')" if "command_ready w'" "\<not> command_ready w"
    proof -
      have "ed_ready (ed_type ?c (editor_of w))" "\<not> ed_ready (editor_of w)" using that arg_cong [OF w'(3), of ed_ready] by (simp_all add: editor_of_def)
      then have "?c = 10" by (auto simp: ed_type_def split: if_splits)
      then show ?thesis using w'(3,4) by (simp add: ed_type_def)
    qed
    then show ?thesis using h w'(2,3) k by auto
  next
    case 5
    then show ?thesis using assms unfolding handle_scancode_def ed_key_def layouts by (auto simp: editor_of_def)
  qed
qed

section \<open>Sequences of keys\<close>

lemma ed_recall_ready: "ed_ready (ed_recall d e) = ed_ready e"
  by (simp add: ed_recall_def Let_def)

lemma ed_type_ready: "ed_ready (ed_type c e) \<Longrightarrow> \<not> ed_ready e \<Longrightarrow> ed_line (ed_type c e) = ed_line e"
  by (simp add: ed_type_def split: if_splits)

lemma ed_key_ready:
  assumes "ed_ready (ed_key sc e)" and "\<not> ed_ready e"
  shows "ed_line (ed_key sc e) = ed_line e"
proof -
  have "\<not> ed_e0 e \<and> sc \<noteq> 0xE0 \<and> sc \<notin> {0x2A, 0x36, 0xAA, 0xB6} \<and> unat sc < 58"
    using assms by (simp add: ed_key_def ed_recall_ready split: if_splits)
  then have "ed_key sc e = ed_type ((if ed_shift e then scancode_to_ascii_shift else scancode_to_ascii_normal) ! unat sc) e"
    by (simp add: ed_key_def)
  then show ?thesis using ed_type_ready assms by metis
qed

definition run_keys :: "'d machine \<Rightarrow> u8 list \<Rightarrow> 'd kstate \<Rightarrow> ('d kstate + 'd kstate) option" where
  "run_keys mc scs w = fold (\<lambda>sc r. case r of Some (Inr v) \<Rightarrow> handle_scancode mc sc v | _ \<Rightarrow> r) scs (Some (Inr w))"

lemma run_keys_refines:
  assumes "editor_ok w"
  shows "\<exists>w'. run_keys mc scs w = Some (Inr w') \<and> editor_ok w' \<and> editor_of w' = fold ed_key scs (editor_of w)"
  using assms
proof (induction scs arbitrary: w)
  case (Cons sc scs)
  obtain w1 where w1: "handle_scancode mc sc w = Some (Inr w1)" "editor_ok w1" "editor_of w1 = ed_key sc (editor_of w)"
    using handle_scancode_refines [OF Cons.prems, of mc sc] by blast
  show ?case using Cons.IH [OF w1(2)] w1 by (simp add: run_keys_def)
qed (simp add: run_keys_def)

text \<open>
  C37: the keyboard handler implements the abstract line editor.  For every sequence of scan codes,
  arriving while the shell is in text mode, the handler ends without a fault; the command line holds what
  the editor has after the same keys, with backspace, shift and the arrow keys for the history, and never
  more than 255 characters; and when the Enter key has just been pressed, the string the main loop will
  execute is that line.
\<close>

theorem keyboard_line_editor:
  assumes "editor_ok w"
  shows "\<exists>w'. run_keys mc scs w = Some (Inr w') \<and> editor_ok w' \<and> editor_of w' = fold ed_key scs (editor_of w) \<and>
    length (ed_line (editor_of w')) \<le> 255 \<and>
    (\<forall>sc w''. handle_scancode mc sc w' = Some (Inr w'') \<and> command_ready w'' \<and> \<not> command_ready w' \<longrightarrow>
       cstr (command_buffer w'') = ed_line (editor_of w'))"
proof -
  obtain w' where w': "run_keys mc scs w = Some (Inr w')" "editor_ok w'" "editor_of w' = fold ed_key scs (editor_of w)"
    using run_keys_refines [OF assms] by blast
  have "cstr (command_buffer w'') = ed_line (editor_of w')"
    if h: "handle_scancode mc sc w' = Some (Inr w'')" "command_ready w''" "\<not> command_ready w'" for sc w''
  proof -
    have s: "editor_of w'' = ed_key sc (editor_of w')" "cstr (command_buffer w'') = ed_line (editor_of w'')"
      using handle_scancode_refines [OF w'(2), of mc sc] h by auto
    have "ed_ready (ed_key sc (editor_of w'))" "\<not> ed_ready (editor_of w')" using s(1) h(2,3) by (metis editor.select_convs(4) editor_of_def)+
    then have "ed_line (ed_key sc (editor_of w')) = ed_line (editor_of w')" by (rule ed_key_ready)
    then show ?thesis using s by simp
  qed
  moreover have "length (ed_line (editor_of w')) \<le> 255" using w'(2) by (simp add: editor_ok_def editor_of_def)
  ultimately show ?thesis using w' by blast
qed

definition kbd_start :: "unit kstate" where
  "kbd_start = kstate0 (gui_start\<lparr>vga_active := False\<rparr>)"

definition quiet_machine :: "unit machine" where
  "quiet_machine = \<lparr>m_ports = quiet_ports, m_peek = (\<lambda>w. ram w), m_poke = (\<lambda>a v w. w\<lparr>ram := poke8 a v (ram w)\<rparr>), m_call = (\<lambda>_ w. Some w),
     m_hlt = Some, m_poll = (\<lambda>w. w), m_cpuid = (\<lambda>_. (0, 0, 0, 0)), m_word = (\<lambda>_. 0), m_stack_space = 0x110000,
     m_page_directory = 0x112000, m_page_table = 0x113000, m_gdt = 0x114000, m_tss = 0x115000, m_idt = 0x116000, m_stubs = stubs0,
     m_rtl8139_isr = 0x101000, m_after_gui_buffer = replicate 156 0\<rparr>"

lemma kbd_start_ok: "editor_ok kbd_start"
  by (simp add: editor_ok_def kbd_start_def kstate0_def gworld.defs cstr_def)

text \<open>Shift-L, s, Enter.\<close>

theorem keyboard_line_editor_witness:
  "\<exists>w'. run_keys quiet_machine [0x2A, 0x26, 0xAA, 0x1F, 0x1C] kbd_start = Some (Inr w') \<and> ed_line (editor_of w') = str ''Ls'' \<and> command_ready w'"
proof -
  have s: "editor_of kbd_start = \<lparr>ed_line = [], ed_shift = False, ed_e0 = False, ed_ready = False, ed_hist = [], ed_pos = -1\<rparr>"
    by (simp add: editor_of_def kbd_start_def kstate0_def gworld.defs)
  have "fold ed_key [0x2A, 0x26, 0xAA, 0x1F, 0x1C] (editor_of kbd_start) =
      \<lparr>ed_line = str ''Ls'', ed_shift = False, ed_e0 = False, ed_ready = True, ed_hist = [], ed_pos = -1\<rparr>"
    unfolding s by (simp add: ed_key_def ed_type_def scancode_to_ascii_normal_def scancode_to_ascii_shift_def str_def)
  with keyboard_line_editor [OF kbd_start_ok, of quiet_machine "[0x2A, 0x26, 0xAA, 0x1F, 0x1C]"] show ?thesis
    by (metis editor.select_convs(1) editor.select_convs(4) editor_of_def)
qed

section \<open>History\<close>

lemma shift_rows: "length h = 10 \<Longrightarrow> (fold (\<lambda>i h. h[i := h ! (i - 1)]) (rev [1..<10]) h)[0 := x] = x # take 9 h"
proof -
  assume "length h = 10"
  then obtain a b c d e f g i j k where "h = [a, b, c, d, e, f, g, i, j, k]"
    by (auto simp: numeral_eq_Suc length_Suc_conv)
  then show ?thesis by (simp add: upt_rec)
qed

lemma add_to_history_refines:
  assumes "editor_ok w" and "length buf = 256" and "length (cstr buf) < 256" and "cstr buf \<noteq> []"
  shows "editor_ok (add_to_history buf w) \<and>
    editor_of (add_to_history buf w) = (editor_of w)\<lparr>ed_hist := take MAX_HISTORY (cstr buf # ed_hist (editor_of w)), ed_pos := -1\<rparr>"
proof -
  note ok = assms(1) [unfolded editor_ok_def]
  have nz: "buf ! 0 \<noteq> 0" using assms(2,4) by (cases buf) (auto simp: cstr_def split: if_splits)
  have h: "cmd_history (add_to_history buf w) = buf # take 9 (cmd_history w)"
    using shift_rows [of "cmd_history w" buf] ok nz assms(2) by (simp add: add_to_history_def Let_def)
  have r: "add_to_history buf w = w\<lparr>cmd_history := buf # take 9 (cmd_history w), history_count := min 10 (history_count w + 1), history_pos := -1\<rparr>"
    using nz ok h by (auto simp: add_to_history_def Let_def)
  have t: "take (min 10 (Suc n)) (buf # take 9 xs) = take 10 (buf # take n xs)" if "n \<le> 10" for n and xs :: "bytes list"
    using that by (cases "n = 10") (simp_all add: min_def)
  have "set (take 9 (cmd_history w)) \<subseteq> set (cmd_history w)" by (rule set_take_subset)
  then have "editor_ok (add_to_history buf w)" unfolding r using ok assms by (auto simp: editor_ok_def)
  moreover have "map cstr (take (min 10 (history_count w + 1)) (buf # take 9 (cmd_history w))) =
      take 10 (cstr buf # map cstr (take (history_count w) (cmd_history w)))"
    using t [of "history_count w" "cmd_history w"] ok by (simp add: take_map)
  ultimately show ?thesis unfolding r by (simp add: editor_of_def)
qed

text \<open>A line as the 256 bytes of the command buffer.\<close>

definition line_buffer :: "bytes \<Rightarrow> bytes" where
  "line_buffer l = l @ replicate (256 - length l) 0"

definition a_line :: "bytes \<Rightarrow> bool" where
  "a_line l \<longleftrightarrow> l \<noteq> [] \<and> length l \<le> 255 \<and> 0 \<notin> set l"

lemma line_buffer_cstr: "a_line l \<Longrightarrow> cstr (line_buffer l) = l"
proof -
  assume l: "a_line l"
  then have "line_buffer l = l @ 0 # replicate (255 - length l) 0" by (simp add: line_buffer_def a_line_def Suc_diff_le [symmetric] flip: replicate_Suc)
  then show ?thesis using l by (auto simp: cstr_def a_line_def takeWhile_tail takeWhile_eq_all_conv)
qed

lemma enter_lines:
  assumes "editor_ok w" and "\<forall>l \<in> set ls. a_line l"
  shows "editor_ok (fold (\<lambda>l. add_to_history (line_buffer l)) ls w) \<and>
    editor_of (fold (\<lambda>l. add_to_history (line_buffer l)) ls w) =
      (if ls = [] then editor_of w else (editor_of w)\<lparr>ed_hist := take MAX_HISTORY (rev ls @ ed_hist (editor_of w)), ed_pos := -1\<rparr>)"
  using assms
proof (induction ls rule: rev_induct)
  case (snoc l ls)
  let ?v = "fold (\<lambda>l. add_to_history (line_buffer l)) ls w"
  have v: "editor_ok ?v" "editor_of ?v = (if ls = [] then editor_of w else (editor_of w)\<lparr>ed_hist := take MAX_HISTORY (rev ls @ ed_hist (editor_of w)), ed_pos := -1\<rparr>)"
    using snoc by simp_all
  have l: "length (line_buffer l) = 256" "cstr (line_buffer l) = l" "l \<noteq> []" "length l < 256"
    using snoc.prems by (simp_all add: line_buffer_cstr) (auto simp: a_line_def line_buffer_def)
  show ?case using add_to_history_refines [OF v(1), of "line_buffer l"] v(2) l by (simp add: min_def)
qed simp

lemma ed_up: "\<not> ed_e0 e \<Longrightarrow> ed_key 0x48 (ed_key 0xE0 e) = ed_recall 1 e"
  by (simp add: ed_key_def ed_recall_def Let_def)

lemma ed_ups:
  assumes "\<not> ed_e0 e" and "ed_pos e = -1" and "1 \<le> k" and "k \<le> length (ed_hist e)"
  shows "fold ed_key (concat (replicate k [0xE0, 0x48])) e = e\<lparr>ed_line := ed_hist e ! (k - 1), ed_pos := int k - 1\<rparr>"
  using assms(3,4)
proof (induction k)
  case (Suc k)
  have c: "concat (replicate (Suc k) [0xE0, 0x48 :: u8]) = concat (replicate k [0xE0, 0x48]) @ [0xE0, 0x48]"
    by (simp only: replicate_Suc replicate_append_same [symmetric] concat_append) simp
  have ne: "ed_hist e \<noteq> []" using Suc.prems by auto
  show ?case
  proof (cases "k = 0")
    case True
    then show ?thesis using assms ne by (simp add: ed_up ed_recall_def Let_def)
  next
    case False
    let ?e = "e\<lparr>ed_line := ed_hist e ! (k - 1), ed_pos := int k - 1\<rparr>"
    have "fold ed_key (concat (replicate (Suc k) [0xE0, 0x48])) e = ed_recall 1 ?e"
      unfolding c using Suc False assms(1) by (simp add: ed_up)
    then show ?thesis using Suc.prems ne by (simp add: ed_recall_def Let_def)
  qed
qed simp

text \<open>
  C38: the command history.  After any commands have been entered, pressing the up arrow \<open>k\<close> times, up to ten,
  puts the \<open>k\<close>-th newest of them on the command line, complete and unchanged.
\<close>

theorem history_recall:
  assumes "editor_ok w" and "\<not> e0_mode w" and lines: "\<forall>l \<in> set ls. a_line l" and k: "1 \<le> k" "k \<le> min MAX_HISTORY (length ls)"
  shows "\<exists>w'. run_keys mc (concat (replicate k [0xE0, 0x48])) (fold (\<lambda>l. add_to_history (line_buffer l)) ls w) = Some (Inr w') \<and>
    editor_ok w' \<and> take (command_length w') (command_buffer w') = ls ! (length ls - k)"
proof -
  let ?v = "fold (\<lambda>l. add_to_history (line_buffer l)) ls w"
  have ls: "ls \<noteq> []" using k by auto
  have v: "editor_ok ?v" "editor_of ?v = (editor_of w)\<lparr>ed_hist := take MAX_HISTORY (rev ls @ ed_hist (editor_of w)), ed_pos := -1\<rparr>"
    using enter_lines [OF assms(1) lines] ls by simp_all
  obtain w' where w': "run_keys mc (concat (replicate k [0xE0, 0x48])) ?v = Some (Inr w')" "editor_ok w'"
      "editor_of w' = fold ed_key (concat (replicate k [0xE0, 0x48])) (editor_of ?v)"
    using run_keys_refines [OF v(1)] by blast
  have "k \<le> length (ed_hist (editor_of ?v))" using k v(2) by simp linarith
  then have "editor_of w' = (editor_of ?v)\<lparr>ed_line := ed_hist (editor_of ?v) ! (k - 1), ed_pos := int k - 1\<rparr>"
    unfolding w'(3) using ed_ups [of "editor_of ?v" k] k v(2) assms(2) by (simp add: editor_of_def)
  then have "ed_line (editor_of w') = take MAX_HISTORY (rev ls @ ed_hist (editor_of w)) ! (k - 1)" using v(2) by simp
  also have "\<dots> = (rev ls @ ed_hist (editor_of w)) ! (k - 1)" using k by (intro nth_take) linarith
  also have "\<dots> = rev ls ! (k - 1)" using k by (intro nth_append_left) (simp, linarith)
  also have "\<dots> = ls ! (length ls - k)"
  proof -
    have "k - 1 < length ls" "length ls - Suc (k - 1) = length ls - k" using k by linarith+
    then show ?thesis by (simp only: rev_nth)
  qed
  finally show ?thesis using w'(1,2) by (simp add: editor_of_def)
qed

theorem history_recall_witness:
  "\<exists>w'. run_keys quiet_machine [0xE0, 0x48, 0xE0, 0x48] (add_to_history (line_buffer (str ''pwd'')) (add_to_history (line_buffer (str ''ls'')) kbd_start)) =
     Some (Inr w') \<and> take (command_length w') (command_buffer w') = str ''ls''"
proof -
  have e: "\<not> e0_mode kbd_start" by (simp add: kbd_start_def kstate0_def gworld.defs)
  have l: "\<forall>l \<in> set [str ''ls'', str ''pwd'']. a_line l" by (simp add: a_line_def str_def)
  from history_recall [OF kbd_start_ok e l, of 2 quiet_machine] show ?thesis by (auto simp: numeral_2_eq_2)
qed

end
