(* ===== verification/Boot.thy ===== *)
theory Boot
  imports KeyboardProps NetRx RexfsInv
begin

text \<open>
  The boot sequence of \<open>kernel_main\<close>, from the state the loader leaves to the point where
  interrupts are enabled.  It composes every component: the terminal, the frame allocator, the
  processor tables, the heap, paging, the file system and the network adapter.  The theorem is that
  it ends, and in a state in which the invariants of all components hold, so the theorems about them
  apply from then on.
\<close>

section \<open>Printing\<close>

text \<open>Every output function keeps the cursor on the screen.\<close>

definition prints :: "(console \<Rightarrow> console) \<Rightarrow> bool" where
  "prints f \<longleftrightarrow> (\<forall>s. console_ok s \<longrightarrow> console_ok (f s))"

lemma fold_prints: "(\<forall>x \<in> set xs. prints (f x)) \<Longrightarrow> prints (fold f xs)"
  unfolding prints_def by (induction xs) auto

lemma prints_comp: "prints f \<Longrightarrow> prints g \<Longrightarrow> prints (f \<circ> g)"
  by (simp add: prints_def)

lemma prints_char_color: "prints (print_char_color c attr)"
  unfolding prints_def using print_char_color_ok by blast

lemma prints_char: "prints (print_char c)"
  unfolding prints_def print_char_def using print_char_color_ok by blast

lemma prints_text:
  "prints (print_string_color t attr)" "prints (print_string t)" "prints (print_hex n)"
  by (simp_all add: prints_def print_string_def print_string_color_def print_hex_def fold_print_char_color_ok)

lemma prints_int: "prints (print_int n)"
proof -
  have "prints (fold print_char (rev (int_digits n)))" by (rule fold_prints) (simp add: prints_char)
  then show ?thesis using prints_char unfolding prints_def print_int_def by simp
qed

lemma prints_klog: "prints (klog status msg color)"
  using prints_char prints_text unfolding prints_def klog_def by simp

lemma prints_prompt: "prints (\<lambda>c. c\<lparr>prompt_min_offset := cursor_offset c\<rparr>)"
  by (simp add: prints_def console_ok_def)

lemmas prints_all = prints_comp prints_char_color prints_char prints_text prints_int prints_klog prints_prompt

section \<open>Port traffic\<close>

text \<open>Code that talks to a device and changes nothing else.\<close>

definition dev_only :: "('d, 'a) dworld_scheme \<Rightarrow> ('d, 'a) dworld_scheme \<Rightarrow> bool" where
  "dev_only w v \<longleftrightarrow> (\<exists>d. v = w\<lparr>dev := d\<rparr>)"

lemma dev_only_refl [simp]: "dev_only w w"
  unfolding dev_only_def by (rule exI [of _ "dev w"]) simp

lemma dev_only_trans [trans]: "dev_only u v \<Longrightarrow> dev_only v w \<Longrightarrow> dev_only u w"
  by (auto simp: dev_only_def)

lemma dev_only_out: "dev_only u w \<Longrightarrow> dev_only u (outb dv p b w)" "dev_only u w \<Longrightarrow> dev_only u (outw dv p x w)"
  "dev_only u w \<Longrightarrow> dev_only u (outl dv p y w)"
  by (auto simp: dev_only_def outb_def outw_def outl_def)

lemma dev_only_in: "dev_only u w \<Longrightarrow> dev_only u (snd (inb dv p w))" "dev_only u w \<Longrightarrow> dev_only u (snd (inw dv p w))"
  "dev_only u w \<Longrightarrow> dev_only u (snd (inl dv p w))"
  by (auto simp: dev_only_def inb_def inw_def inl_def Let_def split: prod.splits)

lemma dev_only_config:
  "dev_only u w \<Longrightarrow> dev_only u (snd (pci_read_config32 dv b s f off w))"
  "dev_only u w \<Longrightarrow> dev_only u (snd (pci_read_config16 dv b s f off w))"
  "dev_only u w \<Longrightarrow> dev_only u (snd (pci_read_config8 dv b s f off w))"
  by (simp_all add: pci_read_config32_def pci_read_config16_def pci_read_config8_def case_prod_beta Let_def dev_only_in dev_only_out)

lemma dev_only_write_config: "dev_only u w \<Longrightarrow> dev_only u (pci_write_config16 dv b s f off x w)"
  by (simp add: pci_write_config16_def case_prod_beta Let_def dev_only_out dev_only_config)

lemma dev_only_funcs: "dev_only u w \<Longrightarrow> dev_only u (snd (scan_funcs dv mx bus sl fs (out, w)))"
  by (induction fs arbitrary: out w) (simp_all add: case_prod_beta Let_def dev_only_config)

lemma dev_only_slot: "dev_only u (snd st) \<Longrightarrow> dev_only u (snd (scan_slot dv mx bus sl st))"
  by (simp add: scan_slot_def case_prod_beta Let_def dev_only_config dev_only_funcs)

lemma fold_keeps: "P s \<Longrightarrow> (\<And>x s. P s \<Longrightarrow> P (f x s)) \<Longrightarrow> P (fold f xs s)"
  by (induction xs arbitrary: s) auto

lemma dev_only_scan: "dev_only w (snd (pci_scan_devices dv mx w))"
  unfolding pci_scan_devices_def
  by (rule fold_keeps [where P = "\<lambda>s. dev_only w (snd s)"], simp) (rule fold_keeps [where P = "\<lambda>s. dev_only w (snd s)"], simp, rule dev_only_slot)

section \<open>The network adapter\<close>

text \<open>
  What initialising the adapter leaves alone: everything but its own variables, the device, the heap,
  the event ring, the terminal and one interrupt gate.
\<close>

definition boot_kept :: "('d, 'a) nworld_scheme \<Rightarrow> ('d, 'a) nworld_scheme \<Rightarrow> bool" where
  "boot_kept w v \<longleftrightarrow> (console_ok (con w) \<longrightarrow> console_ok (con v)) \<and> (trace_ok w \<longrightarrow> trace_ok v) \<and> nworld.more v = nworld.more w \<and>
     fs_mounted v = fs_mounted w \<and> disk v = disk w \<and> cr0 v = cr0 w \<and> cr3 v = cr3 w \<and>
     boot_page_directory v = boot_page_directory w \<and> boot_page_table v = boot_page_table w \<and> length (idt v) = length (idt w) \<and>
     arp_cache v = arp_cache w \<and> tcp_remote_ip v = tcp_remote_ip w \<and> scheduler_active v = scheduler_active w"

lemma trace_ok_fields [simp]:
  "trace_ok (w1\<lparr>dev := d\<rparr>) = trace_ok w1" "trace_ok (con_update f w0) = trace_ok w0"
  "trace_ok (w\<lparr>rtl8139_present := b\<rparr>) = trace_ok w" "trace_ok (w\<lparr>rtl8139_io_base := i\<rparr>) = trace_ok w"
  "trace_ok (w\<lparr>rtl8139_bus := x\<rparr>) = trace_ok w" "trace_ok (w\<lparr>rtl8139_slot := y\<rparr>) = trace_ok w"
  "trace_ok (w\<lparr>rtl8139_func := z\<rparr>) = trace_ok w" "trace_ok (w\<lparr>my_mac := mac\<rparr>) = trace_ok w"
  "trace_ok (w\<lparr>rx_buffer := p\<rparr>) = trace_ok w" "trace_ok (w\<lparr>tx_buffers := t\<rparr>) = trace_ok w"
  "trace_ok (w\<lparr>tx_index := j\<rparr>) = trace_ok w" "trace_ok (w\<lparr>rx_offset := k\<rparr>) = trace_ok w"
  by (simp_all add: trace_ok_def)

text \<open>The parts of the initialisation that do not allocate leave the heap and the buffers alone, too.\<close>

definition net_kept :: "('d, 'a) nworld_scheme \<Rightarrow> ('d, 'a) nworld_scheme \<Rightarrow> bool" where
  "net_kept w v \<longleftrightarrow> boot_kept w v \<and> kheap v = kheap w \<and> rx_buffer v = rx_buffer w \<and> tx_buffers v = tx_buffers w"

lemma boot_kept_trans: "boot_kept u v \<Longrightarrow> boot_kept v w \<Longrightarrow> boot_kept u w"
  by (simp add: boot_kept_def)

lemma net_kept_refl [simp]: "net_kept w w"
  by (simp add: net_kept_def boot_kept_def)

lemma net_kept_trans: "net_kept u v \<Longrightarrow> net_kept v w \<Longrightarrow> net_kept u w"
  by (auto simp: net_kept_def intro: boot_kept_trans)

lemma net_kept_dev: "net_kept u w \<Longrightarrow> dev_only w v \<Longrightarrow> net_kept u v"
  by (auto simp: dev_only_def net_kept_def boot_kept_def)

lemma net_kept_con: "net_kept u w \<Longrightarrow> prints f \<Longrightarrow> net_kept u (con_update f w)"
  by (simp add: prints_def net_kept_def boot_kept_def)

lemma net_kept_fields [simp]:
  "net_kept u (w\<lparr>rtl8139_present := b\<rparr>) = net_kept u w" "net_kept u (w\<lparr>rtl8139_io_base := i\<rparr>) = net_kept u w"
  "net_kept u (w\<lparr>rtl8139_bus := x\<rparr>) = net_kept u w" "net_kept u (w\<lparr>rtl8139_slot := y\<rparr>) = net_kept u w"
  "net_kept u (w\<lparr>rtl8139_func := z\<rparr>) = net_kept u w" "net_kept u (w\<lparr>my_mac := mac\<rparr>) = net_kept u w"
  by (simp_all add: net_kept_def boot_kept_def)

lemma net_kept_config:
  "net_kept u w \<Longrightarrow> net_kept u (snd (pci_read_config32 dv b s f off w))"
  "net_kept u w \<Longrightarrow> net_kept u (snd (pci_read_config16 dv b s f off w))"
  "net_kept u w \<Longrightarrow> net_kept u (snd (pci_read_config8 dv b s f off w))"
  "net_kept u w \<Longrightarrow> net_kept u (pci_write_config16 dv b s f off x w)"
  by (erule net_kept_dev, simp add: dev_only_config dev_only_write_config)+

lemma enable_io_kept: "net_kept u w \<Longrightarrow> net_kept u (snd (rtl8139_enable_io dv w))"
  by (simp add: rtl8139_enable_io_def case_prod_beta Let_def net_kept_config net_kept_con prints_all)

lemma probe_kept: "net_kept w (snd (rtl8139_probe dv w))"
proof -
  have "net_kept w (snd (pci_scan_devices dv 32 w))" by (rule net_kept_dev [OF _ dev_only_scan]) simp
  then show ?thesis
    by (simp add: rtl8139_probe_def case_prod_beta Let_def enable_io_kept split: option.split)
qed

lemma probe_found: "fst (rtl8139_probe dv w) = rtl8139_present (snd (rtl8139_probe dv w))"
  by (simp add: rtl8139_probe_def case_prod_beta Let_def split: option.split)

lemma read_mac_kept: "length (fst (rtl8139_read_mac dv w)) = 6" "dev_only w (snd (rtl8139_read_mac dv w))"
proof -
  let ?f = "\<lambda>i (mac, v). let (x, v1) = inb dv (rtl8139_io_base v + of_nat i) v in (mac @ [x], v1)"
  have "length (fst (fold ?f xs s)) = length (fst s) + length xs \<and> (dev_only w (snd s) \<longrightarrow> dev_only w (snd (fold ?f xs s)))" for xs s
    by (induction xs arbitrary: s) (simp_all add: case_prod_beta Let_def dev_only_in)
  from this [of "[0..<6]" "([], w)"] show "length (fst (rtl8139_read_mac dv w)) = 6" "dev_only w (snd (rtl8139_read_mac dv w))"
    by (simp_all add: rtl8139_read_mac_def)
qed

text \<open>The reset bit of the command register reads as zero after finitely many reads.\<close>

definition reset_ends :: "'d ports \<Rightarrow> bool" where
  "reset_ends dv \<longleftrightarrow> (\<forall>io d. \<exists>n. fst (p_inb dv (io + 0x37) (((\<lambda>d. snd (p_inb dv (io + 0x37) d)) ^^ n) d)) AND 0x10 = 0)"

lemma wait_reset_loop:
  assumes "fst (p_inb dv (rtl8139_io_base w + 0x37) (((\<lambda>d. snd (p_inb dv (rtl8139_io_base w + 0x37) d)) ^^ n) (dev w))) AND 0x10 = 0"
  shows "\<exists>d. wait_reset dv w = Some (w\<lparr>dev := d\<rparr>)"
  using assms
proof (induction n arbitrary: w)
  case 0
  then show ?case by (subst wait_reset.simps) (auto simp: inb_def Let_def split: prod.splits)
next
  case (Suc n)
  let ?d = "snd (p_inb dv (rtl8139_io_base w + 0x37) (dev w))"
  have "\<exists>d. wait_reset dv (w\<lparr>dev := ?d\<rparr>) = Some (w\<lparr>dev := ?d\<rparr>\<lparr>dev := d\<rparr>)"
    using Suc.prems by (intro Suc.IH) (simp add: funpow_Suc_right del: funpow.simps)
  then show ?case by (subst wait_reset.simps) (auto simp: inb_def Let_def split: prod.splits)
qed

lemma wait_reset_ends: "reset_ends dv \<Longrightarrow> \<exists>d. wait_reset dv w = Some (w\<lparr>dev := d\<rparr>)"
  using wait_reset_loop unfolding reset_ends_def by blast

text \<open>Allocating the buffers keeps what the probe found.\<close>

definition alloc_kept :: "('d, 'a) nworld_scheme \<Rightarrow> ('d, 'a) nworld_scheme \<Rightarrow> bool" where
  "alloc_kept w v \<longleftrightarrow> boot_kept w v \<and> rtl8139_io_base v = rtl8139_io_base w \<and> rtl8139_present v = rtl8139_present w \<and> my_mac v = my_mac w"

lemma alloc_kept_trans: "alloc_kept u v \<Longrightarrow> alloc_kept v w \<Longrightarrow> alloc_kept u w"
  by (auto simp: alloc_kept_def intro: boot_kept_trans)

lemma alloc_kept_fields [simp]:
  "alloc_kept u (w\<lparr>rx_buffer := p\<rparr>) = alloc_kept u w" "alloc_kept u (w\<lparr>tx_buffers := t\<rparr>) = alloc_kept u w"
  "alloc_kept u (w\<lparr>tx_index := i\<rparr>) = alloc_kept u w" "alloc_kept u (w\<lparr>rx_offset := i\<rparr>) = alloc_kept u w"
  "alloc_kept (w\<lparr>rx_buffer := p\<rparr>) u = alloc_kept w u"
  by (simp_all add: alloc_kept_def boot_kept_def)

lemma kmalloc_trace_ok: "kmalloc n w = Some (p, v) \<Longrightarrow> trace_ok w \<Longrightarrow> trace_ok v"
  by (auto simp: kmalloc_def split: option.splits if_splits intro!: sys_trace_ok) (simp add: trace_ok_def)

lemma kmalloc_boot:
  fixes w :: "('d, 'a) nworld_scheme"
  assumes "heap_inv (kheap w) bs" and "alloc_list n bs = Some (p, bs')"
  shows "\<exists>v. kmalloc n w = Some (p + META, v) \<and> heap_inv (kheap v) bs' \<and> alloc_kept w v \<and> rx_buffer v = rx_buffer w \<and> tx_buffers v = tx_buffers w"
proof -
  obtain v where v: "kmalloc n w = Some (p + META, v)" "heap_inv (kheap v) bs'" using kmalloc_cases(2) [OF assms] by blast
  obtain h where "v = sys_trace (str ''[MEM] Dynamic Heap Allocation'') (w\<lparr>kheap := h, total_bytes_allocated := total_bytes_allocated w + of_nat n\<rparr>)"
    using v(1) by (auto simp: kmalloc_def split: option.splits if_splits)
  then have "\<exists>k t r i c. v = w\<lparr>kheap := k, total_bytes_allocated := t, trace_ring := r, trace_idx := i, trace_count := c\<rparr>"
    unfolding sys_trace_def by (intro exI) simp
  then show ?thesis using v kmalloc_trace_ok [OF v(1)] by (auto simp: alloc_kept_def boot_kept_def)
qed

lemma alloc_tx_boot:
  assumes "heap_inv (kheap w) bs" and "alloc_list 2048 bs = Some (p, bs')" and "tx_buffers w ! i = 0"
  shows "\<exists>v. alloc_tx i w = Some v \<and> heap_inv (kheap v) bs' \<and> alloc_kept w v \<and> rx_buffer v = rx_buffer w \<and> tx_buffers v = (tx_buffers w)[i := p + META]"
proof -
  obtain v where v: "kmalloc 2048 w = Some (p + META, v)" "heap_inv (kheap v) bs'" "alloc_kept w v" "rx_buffer v = rx_buffer w" "tx_buffers v = tx_buffers w"
    using kmalloc_boot [OF assms(1,2)] by blast
  with assms(3) show ?thesis by (simp add: alloc_tx_def)
qed

text \<open>The heap after the adapter has its buffers: one of 8208 bytes and four of 2048.\<close>

definition net_blocks :: "nat \<Rightarrow> blk list" where
  "net_blocks a = [(a, 8208, False), (a + 8220, 2048, False), (a + 10280, 2048, False), (a + 12340, 2048, False),
     (a + 14400, 2048, False), (a + 16460, 1032104, True)]"

lemma buffers_boot:
  assumes "heap_inv (kheap w) [(a, HEAP_SIZE - META, True)]" and "rx_buffer w = 0" and "tx_buffers w = [0, 0, 0, 0]"
  shows "\<exists>v. rtl8139_buffers w = Some v \<and> heap_inv (kheap v) (net_blocks a) \<and> alloc_kept w v \<and>
    rx_buffer v = a + 12 \<and> tx_buffers v = [a + 8232, a + 10292, a + 12352, a + 14412] \<and> tx_index v = 0"
proof -
  let ?b0 = "[(a, 8208, False), (a + 8220, 1040344, True)]"
  let ?b1 = "[(a, 8208, False), (a + 8220, 2048, False), (a + 10280, 1038284, True)]"
  let ?b2 = "[(a, 8208, False), (a + 8220, 2048, False), (a + 10280, 2048, False), (a + 12340, 1036224, True)]"
  let ?b3 = "[(a, 8208, False), (a + 8220, 2048, False), (a + 10280, 2048, False), (a + 12340, 2048, False), (a + 14400, 1034164, True)]"
  obtain w0 where w0: "kmalloc 8208 w = Some (a + 12, w0)" "alloc_kept w w0" "tx_buffers w0 = [0, 0, 0, 0]" "heap_inv (kheap w0) ?b0"
    using kmalloc_boot [OF assms(1), of 8208 a ?b0] assms(3) by auto
  let ?w1 = "w0\<lparr>rx_buffer := a + 12\<rparr>"
  obtain w2 where w2: "alloc_tx 0 ?w1 = Some w2" "alloc_kept w0 w2" "rx_buffer w2 = a + 12" "tx_buffers w2 = [a + 8232, 0, 0, 0]" "heap_inv (kheap w2) ?b1"
    using alloc_tx_boot [of ?w1 ?b0 "a + 8220" ?b1 0] w0(3,4) by auto
  obtain w3 where w3: "alloc_tx 1 w2 = Some w3" "alloc_kept w2 w3" "rx_buffer w3 = a + 12" "tx_buffers w3 = [a + 8232, a + 10292, 0, 0]" "heap_inv (kheap w3) ?b2"
    using alloc_tx_boot [OF w2(5), of "a + 10280" ?b2 1] w2(3,4) by auto
  obtain w4 where w4: "alloc_tx 2 w3 = Some w4" "alloc_kept w3 w4" "rx_buffer w4 = a + 12" "tx_buffers w4 = [a + 8232, a + 10292, a + 12352, 0]" "heap_inv (kheap w4) ?b3"
    using alloc_tx_boot [OF w3(5), of "a + 12340" ?b3 2] w3(3,4) by auto
  obtain w5 where w5: "alloc_tx 3 w4 = Some w5" "alloc_kept w4 w5" "rx_buffer w5 = a + 12"
    "tx_buffers w5 = [a + 8232, a + 10292, a + 12352, a + 14412]" "heap_inv (kheap w5) (net_blocks a)"
    using alloc_tx_boot [OF w4(5), of "a + 14400" "net_blocks a" 3] w4(3,4) by (auto simp: net_blocks_def)
  have "alloc_kept w w5" using w0(2) w2(2) w3(2) w4(2) w5(2) by (meson alloc_kept_trans)
  then show ?thesis using assms(2) w0(1) w2(1) w3(1) w4(1) w5 by (simp add: rtl8139_buffers_def)
qed

lemma dev_only_unmask: "dev_only u w \<Longrightarrow> dev_only u (unmask_irq dv irq w)"
  by (simp add: unmask_irq_def case_prod_beta Let_def dev_only_in dev_only_out)

lemma boot_kept_dev: "boot_kept u w \<Longrightarrow> dev_only w v \<Longrightarrow> boot_kept u v"
  by (auto simp: boot_kept_def dev_only_def)

lemma present_dev: "dev_only w v \<Longrightarrow> rtl8139_present v = rtl8139_present w"
  by (auto simp: dev_only_def)

text \<open>What the driver has set up when the adapter is there.\<close>

definition adapter_up :: "nat \<Rightarrow> ('d, 'a) nworld_scheme \<Rightarrow> bool" where
  "adapter_up a v \<longleftrightarrow> heap_inv (kheap v) (net_blocks a) \<and> rx_buffer v = a + 12 \<and>
     tx_buffers v = [a + 8232, a + 10292, a + 12352, a + 14412] \<and> tx_index v = 0 \<and> length (my_mac v) = 6"

lemma adapter_up_dev: "adapter_up a w \<Longrightarrow> dev_only w v \<Longrightarrow> adapter_up a v"
  by (auto simp: adapter_up_def dev_only_def)

lemma set_idt_gate_kept [simp]:
  "boot_kept u (set_idt_gate v i w) = boot_kept u w" "adapter_up a (set_idt_gate v i w) = adapter_up a w"
  "rtl8139_present (set_idt_gate v i w) = rtl8139_present w" "rtl8139_io_base (set_idt_gate v i w) = rtl8139_io_base w"
  by (simp_all add: set_idt_gate_def boot_kept_def adapter_up_def trace_ok_def)

lemma init_boot:
  fixes w :: "('d, 'a) nworld_scheme"
  assumes "heap_inv (kheap w) [(a, HEAP_SIZE - META, True)]" and "rx_buffer w = 0" and "tx_buffers w = [0, 0, 0, 0]" and "reset_ends dv"
  shows "\<exists>v. rtl8139_init dv isr w = Some v \<and> boot_kept w v \<and>
    (if rtl8139_present v then adapter_up a v else heap_inv (kheap v) [(a, HEAP_SIZE - META, True)])"
proof (cases "fst (rtl8139_probe dv w)")
  case False
  then have "rtl8139_init dv isr w = Some (snd (rtl8139_probe dv w))"
    by (simp add: rtl8139_init_def case_prod_beta Let_def)
  moreover have "\<not> rtl8139_present (snd (rtl8139_probe dv w))" using False by (simp add: probe_found)
  ultimately show ?thesis using probe_kept [of w dv] assms(1) by (simp add: net_kept_def)
next
  case True
  let ?w1 = "snd (rtl8139_probe dv w)"
  let ?m = "rtl8139_read_mac dv ?w1"
  let ?w2 = "(snd ?m)\<lparr>my_mac := fst ?m\<rparr>"
  let ?i = "pci_read_config8 dv (rtl8139_bus (snd ?m)) (rtl8139_slot (snd ?m)) (rtl8139_func (snd ?m)) 0x3C ?w2"
  let ?w3 = "kprint [10] (kprint_int (uint (fst ?i)) (kprint (str ''[RTL8139] Initializing hardware. IRQ: '') (snd ?i)))"
  have "dev_only ?w2 (snd ?i)" "dev_only ?w1 (snd ?m)" by (simp_all add: dev_only_config read_mac_kept)
  then have mac: "length (my_mac ?w3) = 6" "rtl8139_present ?w3"
    using read_mac_kept(1) True by (auto simp: dev_only_def probe_found)
  have "net_kept w (snd ?i)"
    by (intro net_kept_config) (simp add: net_kept_dev [OF probe_kept read_mac_kept(2)])
  then have k3: "net_kept w ?w3" by (simp add: net_kept_con prints_all)
  then have "heap_inv (kheap ?w3) [(a, HEAP_SIZE - META, True)]" "rx_buffer ?w3 = 0" "tx_buffers ?w3 = [0, 0, 0, 0]"
    using assms unfolding net_kept_def by metis+
  then obtain w4 where w4: "rtl8139_buffers ?w3 = Some w4" "alloc_kept ?w3 w4" "adapter_up a w4"
    using buffers_boot [of ?w3 a] mac(1) by (auto simp: adapter_up_def alloc_kept_def)
  obtain d where d: "wait_reset dv (outb dv (rtl8139_io_base w4 + 0x37) 0x10 w4) = Some (outb dv (rtl8139_io_base w4 + 0x37) 0x10 w4\<lparr>dev := d\<rparr>)"
    using wait_reset_ends [OF assms(4)] by blast
  let ?w5 = "outb dv (rtl8139_io_base w4 + 0x37) 0x10 w4\<lparr>dev := d\<rparr>"
  let ?io = "rtl8139_io_base ?w5"
  let ?w6 = "outb dv (?io + 0x37) 0x0C (outl dv (?io + 0x44) 0x0000068F (outw dv (?io + 0x3C) 0x007F (outl dv (?io + 0x30) (of_nat (rx_buffer ?w5)) ?w5)))"
  have "dev_only w4 ?w5" by (auto simp: dev_only_def outb_def)
  then have 6: "dev_only w4 ?w6" by (intro dev_only_out)
  let ?v = "unmask_irq dv (fst ?i) (set_idt_gate (32 + fst ?i) isr ?w6)"
  have 7: "dev_only (set_idt_gate (32 + fst ?i) isr ?w6) ?v" by (simp add: dev_only_unmask)
  have "rtl8139_init dv isr w = Some ?v"
    using True w4(1) d by (simp add: rtl8139_init_def case_prod_beta Let_def)
  moreover have "boot_kept w ?v"
  proof -
    have "boot_kept w w4" using k3 w4(2) unfolding net_kept_def alloc_kept_def by (blast intro: boot_kept_trans)
    then have "boot_kept w ?w6" by (rule boot_kept_dev [OF _ 6])
    then show ?thesis by (intro boot_kept_dev [OF _ 7]) simp
  qed
  moreover have "rtl8139_present ?v"
    using present_dev [OF 7] present_dev [OF 6] mac(2) w4(2) by (simp add: alloc_kept_def)
  moreover have "adapter_up a ?v"
  proof -
    have "adapter_up a ?w6" by (rule adapter_up_dev [OF w4(3) 6])
    then show ?thesis by (intro adapter_up_dev [OF _ 7]) simp
  qed
  ultimately show ?thesis by auto
qed

section \<open>Tables, file system and the rest of the state\<close>

lemma init_gdt_kept: "net_kept u w \<Longrightarrow> net_kept u (init_gdt g t w)"
  by (simp add: net_kept_def boot_kept_def init_gdt_def gdt_set_gate_def write_tss_def Let_def trace_ok_def)

lemma init_idt_kept: "net_kept u w \<Longrightarrow> net_kept u (init_idt dv i st w)"
proof -
  assume k: "net_kept u w"
  have gate: "net_kept u (set_idt_gate x y v) = net_kept u v" "net_kept u (set_idt_gate_user x y v) = net_kept u v"
    "net_kept u (v\<lparr>idtr := r\<rparr>) = net_kept u v" for x y v r
    by (simp_all add: net_kept_def boot_kept_def set_idt_gate_def set_idt_gate_user_def trace_ok_def)
  have out: "net_kept u v \<Longrightarrow> net_kept u (outb dv p b v)" for p b v by (erule net_kept_dev) (simp add: dev_only_out)
  have "net_kept u (fold (\<lambda>(port, v). outb dv port v) pic_commands w)"
    by (rule fold_keeps [where P = "net_kept u", OF k]) (simp add: case_prod_beta out)
  then have "net_kept u (fold (\<lambda>i. set_idt_gate (of_nat i) h) [0..<256] (fold (\<lambda>(port, v). outb dv port v) pic_commands w))" for h
    by (rule fold_keeps [where P = "net_kept u"]) (simp add: gate)
  then show ?thesis by (simp add: init_idt_def Let_def gate out)
qed

text \<open>A disk carries a file system the kernel mounts when magic and version agree.\<close>

definition mountable :: "bytes \<Rightarrow> bool" where
  "mountable b \<longleftrightarrow> sb_magic (decode_superblock b) = REXFS_MAGIC \<and> sb_version (decode_superblock b) = REXFS_VERSION"

lemma sys_trace_nworld [simp]:
  fixes w :: "('d, 'a) nworld_scheme"
  shows "nworld.more (sys_trace e w) = nworld.more w" "cr0 (sys_trace e w) = cr0 w" "cr3 (sys_trace e w) = cr3 w" "idt (sys_trace e w) = idt w"
    "boot_page_directory (sys_trace e w) = boot_page_directory w" "boot_page_table (sys_trace e w) = boot_page_table w"
    "arp_cache (sys_trace e w) = arp_cache w" "tcp_remote_ip (sys_trace e w) = tcp_remote_ip w"
    "rx_buffer (sys_trace e w) = rx_buffer w" "tx_buffers (sys_trace e w) = tx_buffers w" "scheduler_active (sys_trace e w) = scheduler_active w"
  by (simp_all add: sys_trace_def)

lemma trace_ok_fs [simp]:
  "trace_ok (w\<lparr>disk := d\<rparr>) = trace_ok w" "trace_ok (w\<lparr>fs_mounted := b\<rparr>) = trace_ok w" "trace_ok (w\<lparr>active_sb := s\<rparr>) = trace_ok w"
  "trace_ok (w\<lparr>current_dir_id := i\<rparr>) = trace_ok w" "trace_ok (w0\<lparr>total_disk_reads := r\<rparr>) = trace_ok w0"
  "trace_ok (w0\<lparr>total_disk_writes := r\<rparr>) = trace_ok w0"
  by (simp_all add: trace_ok_def)

lemma prints_color: "console_ok s \<Longrightarrow> console_ok (print_string_color t attr s)"
  using prints_text(1) by (simp add: prints_def)

lemma rexfs_init_boot:
  fixes w :: "('d, 'a) nworld_scheme"
  assumes "\<not> fs_mounted w"
  shows "fs_mounted (rexfs_init w) = mountable (disk w 1)"
    and "boot_kept w ((rexfs_init w)\<lparr>fs_mounted := fs_mounted w, disk := disk w\<rparr>)"
    and "kheap (rexfs_init w) = kheap w" "rx_buffer (rexfs_init w) = rx_buffer w" "tx_buffers (rexfs_init w) = tx_buffers w"
  using assms
  by (simp_all add: rexfs_init_def rexfs_mount_def read_sector_def write_sector_def mountable_def boot_kept_def Let_def sys_trace_ok prints_color)

lemma kstate_more:
  fixes w :: "'d kstate"
  assumes "nworld.more v = nworld.more w"
  shows "pmm_state v = pmm_state w" "editor_ok v = editor_ok w" "editor_of v = editor_of w" "mouse_ok v = mouse_ok w"
    "daemon_tasks v = daemon_tasks w"
  using assms by (cases w, cases v, simp add: editor_ok_def editor_of_def mouse_ok_def)+

section \<open>The boot sequence\<close>

text \<open>
  The state the loader leaves: the initialised and zeroed globals, with any content of the screen, of
  memory and of the disk, and any state of the devices; \<open>base\<close> is the address of \<open>kernel_heap\<close>.
\<close>

definition loaded :: "(int \<Rightarrow> u8) \<Rightarrow> (int \<Rightarrow> u8) \<Rightarrow> nat \<Rightarrow> (nat \<Rightarrow> u8) \<Rightarrow> (nat \<Rightarrow> bytes) \<Rightarrow> 'd \<Rightarrow> 'd kstate" where
  "loaded vram screen base memory sectors d =
     kstate0 (gworld0 screen (rworld0 (nworld0 (halworld0 (dworld0 ((fsworld0 vram base)\<lparr>
       kheap := \<lparr>blocks = \<lambda>_. None, heap_head = 0, kernel_heap = base\<rparr>, disk := sectors, ram := memory\<rparr>) d)))))"

text \<open>The line editor with an empty line and no history.\<close>

definition ed_start :: editor where
  "ed_start = \<lparr>ed_line = [], ed_shift = False, ed_e0 = False, ed_ready = False, ed_hist = [], ed_pos = -1\<rparr>"

text \<open>Each layer of the initial state keeps the fields of the layers below it.\<close>

lemma layers [simp]:
  "con (dworld0 f d) = con f" "trace_ring (dworld0 f d) = trace_ring f" "trace_idx (dworld0 f d) = trace_idx f" "trace_count (dworld0 f d) = trace_count f" "kheap (dworld0 f d) = kheap f" "fs_mounted (dworld0 f d) = fs_mounted f" "disk (dworld0 f d) = disk f" "scheduler_active (dworld0 f d) = scheduler_active f"
  "con (halworld0 v) = con v" "trace_ring (halworld0 v) = trace_ring v" "trace_idx (halworld0 v) = trace_idx v" "trace_count (halworld0 v) = trace_count v" "kheap (halworld0 v) = kheap v" "fs_mounted (halworld0 v) = fs_mounted v" "disk (halworld0 v) = disk v" "scheduler_active (halworld0 v) = scheduler_active v"
  "con (nworld0 h) = con h" "trace_ring (nworld0 h) = trace_ring h" "trace_idx (nworld0 h) = trace_idx h" "trace_count (nworld0 h) = trace_count h" "kheap (nworld0 h) = kheap h" "fs_mounted (nworld0 h) = fs_mounted h" "disk (nworld0 h) = disk h" "scheduler_active (nworld0 h) = scheduler_active h" "idt (nworld0 h) = idt h"
  "con (rworld0 n) = con n" "trace_ring (rworld0 n) = trace_ring n" "trace_idx (rworld0 n) = trace_idx n" "trace_count (rworld0 n) = trace_count n" "kheap (rworld0 n) = kheap n" "fs_mounted (rworld0 n) = fs_mounted n" "disk (rworld0 n) = disk n" "scheduler_active (rworld0 n) = scheduler_active n" "idt (rworld0 n) = idt n" "rx_buffer (rworld0 n) = rx_buffer n" "tx_buffers (rworld0 n) = tx_buffers n" "arp_cache (rworld0 n) = arp_cache n" "tcp_remote_ip (rworld0 n) = tcp_remote_ip n"
  "con (gworld0 scr r) = con r" "trace_ring (gworld0 scr r) = trace_ring r" "trace_idx (gworld0 scr r) = trace_idx r" "trace_count (gworld0 scr r) = trace_count r" "kheap (gworld0 scr r) = kheap r" "fs_mounted (gworld0 scr r) = fs_mounted r" "disk (gworld0 scr r) = disk r" "scheduler_active (gworld0 scr r) = scheduler_active r" "idt (gworld0 scr r) = idt r" "rx_buffer (gworld0 scr r) = rx_buffer r" "tx_buffers (gworld0 scr r) = tx_buffers r" "arp_cache (gworld0 scr r) = arp_cache r" "tcp_remote_ip (gworld0 scr r) = tcp_remote_ip r"
  "con (kstate0 g) = con g" "trace_ring (kstate0 g) = trace_ring g" "trace_idx (kstate0 g) = trace_idx g" "trace_count (kstate0 g) = trace_count g" "kheap (kstate0 g) = kheap g" "fs_mounted (kstate0 g) = fs_mounted g" "disk (kstate0 g) = disk g" "scheduler_active (kstate0 g) = scheduler_active g" "idt (kstate0 g) = idt g" "rx_buffer (kstate0 g) = rx_buffer g" "tx_buffers (kstate0 g) = tx_buffers g" "arp_cache (kstate0 g) = arp_cache g" "tcp_remote_ip (kstate0 g) = tcp_remote_ip g" "mouse_x (kstate0 g) = mouse_x g" "mouse_y (kstate0 g) = mouse_y g" "mouse_cycle (kstate0 g) = mouse_cycle g" "mouse_byte (kstate0 g) = mouse_byte g" "vga_active (kstate0 g) = vga_active g" "daemon_tasks (kstate0 g) = daemon_tasks g"
  by (simp_all add: dworld0_def halworld0_def nworld0_def rworld0_def gworld0_def kstate0_def fsworld.defs dworld.defs halworld.defs nworld.defs rworld.defs gworld.defs)

lemma loaded_facts:
  assumes "w = loaded vram screen base memory sectors d"
  shows "console_ok (con w)" "trace_ok w" "kernel_heap (kheap w) = base" "\<not> fs_mounted w" "disk w = sectors"
    "rx_buffer w = 0" "tx_buffers w = [0, 0, 0, 0]" "length (idt w) = 256" "editor_ok w" "mouse_ok w"
    "\<forall>e \<in> set (arp_cache w). length (ae_mac e) = 6" "length (tcp_remote_ip w) = 4" "\<not> scheduler_active w" "daemon_tasks w = replicate 4 0"
    "editor_of w = ed_start"
proof -
  have "replicate 4 (0 :: nat) = [0, 0, 0, 0]" by (simp add: numeral_eq_Suc)
  then have n: "rx_buffer (nworld0 h) = 0" "tx_buffers (nworld0 h) = [0, 0, 0, 0]" "length (tcp_remote_ip (nworld0 h)) = 4"
    "\<forall>e \<in> set (arp_cache (nworld0 h)). length (ae_mac e) = 6" for h :: "'a halworld"
    by (simp_all add: nworld0_def halworld.defs)
  have h: "length (idt (halworld0 v)) = 256" for v :: "'a dworld" by (simp add: halworld0_def dworld.defs)
  have f: "con (fsworld0 vram base) = console0 vram" "kernel_heap (kheap (fsworld0 vram base)) = base" "\<not> fs_mounted (fsworld0 vram base)"
    "trace_ring (fsworld0 vram base) = replicate 12 (replicate 64 0)" "trace_idx (fsworld0 vram base) = 0" "trace_count (fsworld0 vram base) = 0"
    "\<not> scheduler_active (fsworld0 vram base)"
    by (simp_all add: fsworld0_def sworld0_def hworld0_def kworld0_def init_heap_def sworld.defs hworld.defs kworld.defs)
  show "console_ok (con w)" "trace_ok w" "kernel_heap (kheap w) = base" "\<not> fs_mounted w" "disk w = sectors"
    "rx_buffer w = 0" "tx_buffers w = [0, 0, 0, 0]" "length (idt w) = 256"
    "\<forall>e \<in> set (arp_cache w). length (ae_mac e) = 6" "length (tcp_remote_ip w) = 4" "\<not> scheduler_active w"
    using n h f by (simp_all add: assms loaded_def console_ok_def trace_ok_def console0_def)
  show "daemon_tasks w = replicate 4 0" by (simp add: assms loaded_def) (simp add: gworld0_def rworld.defs)
  show "editor_of w = ed_start" by (simp add: assms loaded_def editor_of_def ed_start_def) (simp add: kstate0_def gworld.defs)
  show "mouse_ok w" by (simp add: assms loaded_def mouse_ok_def) (simp add: gworld0_def rworld.defs)
  have "\<not> vga_active w" by (simp add: assms loaded_def) (simp add: gworld0_def rworld.defs)
  then show "editor_ok w" by (simp add: assms loaded_def editor_ok_def) (simp add: kstate0_def gworld.defs cstr_def)
qed

lemma adapter_live:
  assumes "adapter_up a v"
  shows "heap_live (kheap v) = insert (rx_buffer v, 8208) ((\<lambda>b. (b, 2048)) ` set (tx_buffers v))" "distinct (rx_buffer v # tx_buffers v)"
  using assms heap_live_eq [of "kheap v" "net_blocks a"] by (auto simp: adapter_up_def net_blocks_def live_of_def)

lemma adapter_net_ok:
  assumes "adapter_up a v" and "a + HEAP_SIZE < W32" and "rtl8139_present v" and "rtl8139_io_base v \<noteq> 0"
    and "\<forall>e \<in> set (arp_cache v). length (ae_mac e) = 6" and "length (tcp_remote_ip v) = 4"
  shows "net_ok v"
  using assms by (auto simp: adapter_up_def net_ok_def tx_ok_def)

lemma klog3_con: "\<exists>f. print_prompt (kputc 10 (klog3 w)) = con_update f w \<and> prints f"
proof -
  have "print_prompt (kputc 10 (klog3 w)) = con_update ((\<lambda>c. c\<lparr>prompt_min_offset := cursor_offset c\<rparr>) \<circ>
      (print_string_color (str ''~# '') COLOR_LIGHT_CYAN \<circ> (print_string (str '':'') \<circ> (print_string_color (str ''root@newrex'') COLOR_LIGHT_RED \<circ>
      (print_char 10 \<circ> (klog (str '' OK '') (str ''Device subsystem initialized'') COLOR_LIGHT_GREEN \<circ>
      (klog (str '' OK '') (str ''Memory subsystem initialized'') COLOR_LIGHT_GREEN \<circ> klog (str '' OK '') (str ''Core initialized'') COLOR_LIGHT_GREEN))))))) w"
    by (simp add: print_prompt_def klog3_def Let_def)
  then show ?thesis by - (rule exI, rule conjI, assumption, intro prints_all)
qed

lemma hardware_dev: "dev_only w (init_advanced_hardware dv w)"
  by (simp add: init_advanced_hardware_def case_prod_beta Let_def dev_only_in dev_only_out)

lemma boot_keptD:
  assumes "boot_kept w v"
  shows "console_ok (con w) \<Longrightarrow> console_ok (con v)" "trace_ok w \<Longrightarrow> trace_ok v" "nworld.more v = nworld.more w"
    "fs_mounted v = fs_mounted w" "disk v = disk w" "cr0 v = cr0 w" "cr3 v = cr3 w"
    "boot_page_directory v = boot_page_directory w" "boot_page_table v = boot_page_table w" "length (idt v) = length (idt w)"
    "arp_cache v = arp_cache w" "tcp_remote_ip v = tcp_remote_ip w" "scheduler_active v = scheduler_active w"
  using assms by (simp_all add: boot_kept_def)

text \<open>The steps between the frame allocator and the network adapter.\<close>

lemma boot_middle:
  fixes w :: "'d kstate"
  assumes "console_ok (con w)" "trace_ok w" "\<not> fs_mounted w" "rx_buffer w = 0" "tx_buffers w = [0, 0, 0, 0]" "kernel_heap (kheap w) = base"
    "0 < base" "base + HEAP_SIZE < W32" "pd AND 0xFFF = 0" "pt AND 0xFFF = 0" "reset_ends dv"
    and w4: "w4 = init_idt dv ia st (init_gdt ga ta w)"
  shows "\<exists>w6 v. vmm_init pd pt (w4\<lparr>kheap := init_heap (kheap w4)\<rparr>) = Inr w6 \<and> rtl8139_init dv isr (rexfs_init w6) = Some v \<and>
    console_ok (con v) \<and> trace_ok v \<and> nworld.more v = nworld.more w \<and> fs_mounted v = mountable (disk w 1) \<and>
    cr3 v = unat pd \<and> bit (cr0 v) 31 \<and> (\<forall>x. page_walk pt v x = (if x < 0x400000 then Some (x, False) else None)) \<and>
    arp_cache v = arp_cache w \<and> tcp_remote_ip v = tcp_remote_ip w \<and> length (idt v) = length (idt w) \<and> scheduler_active v = scheduler_active w \<and>
    (if rtl8139_present v then adapter_up base v else heap_inv (kheap v) [(base, HEAP_SIZE - META, True)])"
proof -
  have k4: "net_kept w w4" unfolding w4 by (intro init_idt_kept init_gdt_kept net_kept_refl)
  let ?w5 = "w4\<lparr>kheap := init_heap (kheap w4)\<rparr>"
  let ?w6 = "paged pd pt ?w5"
  have 6: "vmm_init pd pt ?w5 = Inr ?w6" "bit (cr0 ?w6) 31" using vmm_init_result assms(9,10) by blast+
  have t6: "trace_ok ?w6 = trace_ok w4" by (simp add: paged_def trace_ok_def)
  note k = boot_keptD [OF conjunct1 [OF k4 [unfolded net_kept_def]]]
  have f6: "console_ok (con ?w6)" "trace_ok ?w6" "nworld.more ?w6 = nworld.more w" "\<not> fs_mounted ?w6" "disk ?w6 = disk w" "cr3 ?w6 = unat pd"
    "length (idt ?w6) = length (idt w)" "arp_cache ?w6 = arp_cache w" "tcp_remote_ip ?w6 = tcp_remote_ip w"
    "scheduler_active ?w6 = scheduler_active w"
    using k assms(1-3) t6 by (simp_all add: paged_def)
  have h6: "heap_inv (kheap ?w6) [(base, HEAP_SIZE - META, True)]" "rx_buffer ?w6 = 0" "tx_buffers ?w6 = [0, 0, 0, 0]"
    using init_heap_inv [of "kheap w4"] k4 assms by (simp_all add: net_kept_def paged_def)
  let ?r = "rexfs_init ?w6"
  note r = rexfs_init_boot [OF f6(4)]
  note rk = boot_keptD [OF r(2)]
  obtain v where v: "rtl8139_init dv isr ?r = Some v" "boot_kept ?r v"
    "if rtl8139_present v then adapter_up base v else heap_inv (kheap v) [(base, HEAP_SIZE - META, True)]"
    using init_boot [of ?r base dv isr] h6 r(3-5) assms(11) by auto
  note vk = boot_keptD [OF v(2)]
  have pg: "boot_page_directory v = (replicate 1024 0)[0 := pt OR 1 OR 2]" "boot_page_table v = identity_table"
    using vk(8,9) rk(8,9) by (simp_all add: paged_def)
  have "console_ok (con v)" "trace_ok v" using vk(1,2) rk(1,2) f6(1,2) by simp_all
  moreover have "nworld.more v = nworld.more w" "fs_mounted v = mountable (disk w 1)" "cr3 v = unat pd" "bit (cr0 v) 31"
    "arp_cache v = arp_cache w" "tcp_remote_ip v = tcp_remote_ip w" "length (idt v) = length (idt w)"
    "scheduler_active v = scheduler_active w"
    using vk rk f6 6(2) r(1) by simp_all
  ultimately show ?thesis using 6(1) v(1,3) page_walk_identity [OF assms(10) pg] by blast
qed

text \<open>The last steps: the messages, the prompt, the last event and the mouse.\<close>

lemma boot_end:
  fixes v :: "'d kstate"
  assumes "console_ok (con v)" "trace_ok v"
    and w': "w' = init_advanced_hardware dv (sys_trace e (print_prompt (kputc 10 (klog3 v))))"
  shows "console_ok (con w') \<and> trace_ok w' \<and> last (trace_events w') = take 63 (cstr e) \<and> nworld.more w' = nworld.more v \<and>
    fs_mounted w' = fs_mounted v \<and> cr3 w' = cr3 v \<and> cr0 w' = cr0 v \<and> boot_page_directory w' = boot_page_directory v \<and>
    boot_page_table w' = boot_page_table v \<and> kheap w' = kheap v \<and> rtl8139_present w' = rtl8139_present v \<and>
    rtl8139_io_base w' = rtl8139_io_base v \<and> rx_buffer w' = rx_buffer v \<and> tx_buffers w' = tx_buffers v \<and> length (idt w') = length (idt v) \<and>
    scheduler_active w' = scheduler_active v \<and> net_ok w' = net_ok v"
proof -
  obtain f where f: "print_prompt (kputc 10 (klog3 v)) = con_update f v" "prints f" using klog3_con by blast
  let ?s = "sys_trace e (con_update f v)"
  obtain d where d: "w' = ?s\<lparr>dev := d\<rparr>" using hardware_dev [of ?s dv] unfolding w' f(1) dev_only_def by blast
  have "trace_events w' = trace_events ?s" unfolding d by (simp add: trace_events_def)
  then have "last (trace_events w') = take 63 (cstr e)"
    using trace_events_sys_trace [of "con_update f v" e] assms(2) by (simp add: last_n_def)
  moreover have "trace_ok w'" unfolding d using assms(2) by (simp add: sys_trace_ok)
  moreover have "net_ok w' = net_ok v" unfolding d by (simp add: net_ok_def tx_ok_def sys_trace_def)
  ultimately show ?thesis using f(2) assms(1) unfolding d by (simp add: prints_def) (simp add: sys_trace_def)
qed

text \<open>The first steps: the banner and the frame allocator, whose new state is \<open>q\<close>.\<close>

definition entered :: "nat \<Rightarrow> pmm \<Rightarrow> 'd kstate \<Rightarrow> 'd kstate" where
  "entered info q w = (kprint_color (str ''Booting monolithic core...'' @ [10, 10]) COLOR_LIGHT_GRAY
     (kprint_color (str ''Newrex Operator Kernel v5.0 (x86_32)'' @ [10]) COLOR_LIGHT_CYAN
       ((con_update clear_screen w)\<lparr>saved_boot_magic := 0x2BADB002\<rparr>)))\<lparr>saved_multiboot_info_ptr := info, pmm_state := q\<rparr>"

lemma entered_facts:
  assumes "console_ok (con w)" and "trace_ok w" and "\<not> fs_mounted w"
  shows "console_ok (con (entered info q w))" "trace_ok (entered info q w)" "\<not> fs_mounted (entered info q w)"
    "rx_buffer (entered info q w) = rx_buffer w" "tx_buffers (entered info q w) = tx_buffers w"
    "kernel_heap (kheap (entered info q w)) = kernel_heap (kheap w)" "disk (entered info q w) = disk w" "pmm_state (entered info q w) = q"
    "length (idt (entered info q w)) = length (idt w)" "arp_cache (entered info q w) = arp_cache w" "tcp_remote_ip (entered info q w) = tcp_remote_ip w"
    "editor_ok (entered info q w) = editor_ok w" "mouse_ok (entered info q w) = mouse_ok w" "editor_of (entered info q w) = editor_of w"
    "daemon_tasks (entered info q w) = daemon_tasks w" "scheduler_active (entered info q w) = scheduler_active w"
proof -
  have "console_ok (clear_screen (con w))" using assms(1) by (simp add: clear_screen_def console_ok_def)
  then show "console_ok (con (entered info q w))" by (simp add: entered_def prints_color)
qed (use assms in \<open>simp_all add: entered_def trace_ok_def editor_ok_def editor_of_def mouse_ok_def\<close>)

lemma kernel_boot_spec:
  assumes "0 < base" and "base + HEAP_SIZE < W32" and "m_page_directory mc AND 0xFFF = 0" and "m_page_table mc AND 0xFFF = 0"
    and "reset_ends (m_ports mc)" and "info \<noteq> 0" and "bit (mbi_flags (mbi_at (m_word mc) info)) 6"
    and "mmap_laid (m_word mc) (mmap_addr (mbi_at (m_word mc) info))
           ((mmap_addr (mbi_at (m_word mc) info) + mmap_length (mbi_at (m_word mc) info)) mod W32) es"
  shows "\<exists>w'. kernel_boot mc 0x2BADB002 info (loaded vram screen base memory sectors d) = Some (Inr w') \<and>
    console_ok (con w') \<and> trace_ok w' \<and> last (trace_events w') = str ''[SYS] Kernel Boot Sequence Complete'' \<and>
    heap_ok (kheap w') \<and> pmm_ok (pmm_state w') \<and> editor_ok w' \<and> editor_of w' = ed_start \<and> mouse_ok w' \<and> length (idt w') = 256 \<and>
    \<not> scheduler_active w' \<and> daemon_tasks w' = replicate 4 0 \<and>
    cr3 w' = unat (m_page_directory mc) \<and> bit (cr0 w') 31 \<and>
    (\<forall>x. page_walk (m_page_table mc) w' x = (if x < 0x400000 then Some (x, False) else None)) \<and>
    fs_mounted w' = mountable (sectors 1) \<and>
    (if rtl8139_present w'
     then heap_live (kheap w') = insert (rx_buffer w', 8208) ((\<lambda>b. (b, 2048)) ` set (tx_buffers w')) \<and>
       distinct (rx_buffer w' # tx_buffers w') \<and> (rtl8139_io_base w' \<noteq> 0 \<longrightarrow> net_ok w')
     else heap_live (kheap w') = {})"
proof -
  let ?w = "loaded vram screen base memory sectors d"
  note f = loaded_facts [of ?w, OF refl]
  obtain q where q: "pmm_init_from_mmap (m_word mc) info (pmm_state ?w) = Some q" "pmm_ok q"
    using pmm_init_from_mmap_spec [OF assms(6,7,8)] by blast
  define w3 where "w3 = entered info q ?w"
  note g = entered_facts [of ?w info q, folded w3_def, unfolded f(3,5,6,7,8), OF f(1,2,4)]
  let ?w4 = "init_idt (m_ports mc) (m_idt mc) (m_stubs mc) (init_gdt (m_gdt mc) (m_tss mc) w3)"
  obtain w6 v where m: "vmm_init (m_page_directory mc) (m_page_table mc) (?w4\<lparr>kheap := init_heap (kheap ?w4)\<rparr>) = Inr w6"
    "rtl8139_init (m_ports mc) (m_rtl8139_isr mc) (rexfs_init w6) = Some v" "console_ok (con v)" "trace_ok v" "nworld.more v = nworld.more w3"
    "fs_mounted v = mountable (disk w3 1)" "cr3 v = unat (m_page_directory mc)" "bit (cr0 v) 31"
    "\<forall>x. page_walk (m_page_table mc) v x = (if x < 0x400000 then Some (x, False) else None)"
    "arp_cache v = arp_cache w3" "tcp_remote_ip v = tcp_remote_ip w3" "length (idt v) = length (idt w3)" "scheduler_active v = scheduler_active w3"
    "if rtl8139_present v then adapter_up base v else heap_inv (kheap v) [(base, HEAP_SIZE - META, True)]"
    using boot_middle [OF g(1-6) assms(1-5), of ?w4 "m_idt mc" "m_stubs mc" "m_gdt mc" "m_tss mc" "m_rtl8139_isr mc"] by (elim meta_impE exE conjE) (rule refl, rule that)
  define w' where "w' = init_advanced_hardware (m_ports mc) (sys_trace (str ''[SYS] Kernel Boot Sequence Complete'') (print_prompt (kputc 10 (klog3 v))))"
  note l = boot_end [OF m(3,4) w'_def]
  have "kernel_boot mc 0x2BADB002 info ?w = Some (Inr w')"
    using q(1) m(1,2) by (simp add: kernel_boot_def w3_def entered_def w'_def Let_def comp_assoc)
  moreover have "pmm_ok (pmm_state w')" "editor_ok w'" "mouse_ok w'" "editor_of w' = ed_start" "daemon_tasks w' = replicate 4 0" "\<not> scheduler_active w'"
    using kstate_more [of w' w3] l m(5,13) g(8,12-16) f(9,10,13-15) q(2) by simp_all
  moreover have "page_walk (m_page_table mc) w' x = page_walk (m_page_table mc) v x" for x
    using l by (simp add: page_walk_def Let_def)
  moreover have "heap_ok (kheap w')" using l m(14) by (auto simp: heap_ok_def adapter_up_def split: if_splits)
  moreover have "if rtl8139_present w' then heap_live (kheap w') = insert (rx_buffer w', 8208) ((\<lambda>b. (b, 2048)) ` set (tx_buffers w')) \<and>
       distinct (rx_buffer w' # tx_buffers w') \<and> (rtl8139_io_base w' \<noteq> 0 \<longrightarrow> net_ok w') else heap_live (kheap w') = {}"
    using l m(10,11,14) g(10,11) f(11,12) adapter_live [of base v] adapter_net_ok [of base v] assms(2) heap_live_eq [of "kheap v" "[(base, HEAP_SIZE - META, True)]"]
    by (auto simp: live_of_def split: if_splits)
  moreover have "last (trace_events w') = str ''[SYS] Kernel Boot Sequence Complete''" using l by (simp add: cstr_def str_def)
  ultimately show ?thesis using l m(6-9,12) g(7,9) by auto
qed


text \<open>A machine with an RTL8139 on the bus and the memory map of a 32 MB computer.\<close>

definition card_machine :: "(u32 \<times> (u32 \<Rightarrow> u32)) machine" where
  "card_machine = \<lparr>m_ports = card_ports, m_peek = (\<lambda>w. ram w), m_poke = (\<lambda>a v w. w\<lparr>ram := poke8 a v (ram w)\<rparr>), m_call = (\<lambda>_ w. Some w),
     m_hlt = Some, m_poll = (\<lambda>w. w), m_cpuid = (\<lambda>_. (0, 0, 0, 0)), m_word = sample_mmap, m_stack_space = 0x110000,
     m_page_directory = 0x112000, m_page_table = 0x113000, m_gdt = 0x114000, m_tss = 0x115000, m_idt = 0x116000, m_stubs = stubs0,
     m_rtl8139_isr = 0x101000, m_after_gui_buffer = replicate 156 0\<rparr>"

lemma card_machine_facts:
  "m_word card_machine = sample_mmap" "m_page_directory card_machine = 0x112000" "m_page_table card_machine = 0x113000"
  "reset_ends (m_ports card_machine)"
  by (simp_all add: card_machine_def reset_ends_def card_ports_def)


end
