(* ===== verification/Interrupts.thy ===== *)
theory Interrupts
  imports Boot SchedProps
begin

text \<open>
  The kernel between two commands: interrupts of the timer, the keyboard, the mouse and the network
  adapter arrive in any order while devices change on their own.  The interleavings are the runs of a
  step relation whose steps are the handlers; the invariants of the components are kept along every
  run, and what the user types does not depend on what else happens.
\<close>

section \<open>What the network leaves alone\<close>

definition rx_frame :: "('d, 'a) nworld_scheme \<Rightarrow> ('d, 'a) nworld_scheme \<Rightarrow> bool" where
  "rx_frame w v \<longleftrightarrow> (console_ok (con w) \<longrightarrow> console_ok (con v)) \<and> (trace_ok w \<longrightarrow> trace_ok v) \<and> kheap v = kheap w \<and>
     nworld.more v = nworld.more w \<and> tasks v = tasks w \<and> current_task v = current_task w \<and> task_queue v = task_queue w \<and>
     scheduler_active v = scheduler_active w"

named_theorems rx_frames

lemma rx_frame_refl [simp, rx_frames]: "rx_frame w w"
  by (simp add: rx_frame_def)

lemma rx_frame_trans: "rx_frame u v \<Longrightarrow> rx_frame v w \<Longrightarrow> rx_frame u w"
  by (simp add: rx_frame_def)

lemma rx_frame_dev: "rx_frame u w \<Longrightarrow> dev_only w v \<Longrightarrow> rx_frame u v"
  by (auto simp: dev_only_def rx_frame_def)

lemma rx_frame_con [rx_frames]: "rx_frame u w \<Longrightarrow> prints f \<Longrightarrow> rx_frame u (con_update f w)"
  by (simp add: prints_def rx_frame_def)

lemma rx_frame_fields [simp]:
  "rx_frame u (w\<lparr>ram := m\<rparr>) = rx_frame u w" "rx_frame u (w\<lparr>wire := fs\<rparr>) = rx_frame u w" "rx_frame u (w\<lparr>tx_index := i\<rparr>) = rx_frame u w"
  "rx_frame u (w\<lparr>arp_cache := c\<rparr>) = rx_frame u w" "rx_frame u (w\<lparr>tcp_state := s\<rparr>) = rx_frame u w" "rx_frame u (w\<lparr>tcp_ack := a\<rparr>) = rx_frame u w"
  "rx_frame u (w\<lparr>tcp_seq := q\<rparr>) = rx_frame u w" "rx_frame u (w\<lparr>tcp_remote_ip := ip\<rparr>) = rx_frame u w"
  "rx_frame u (w\<lparr>tcp_remote_port := p\<rparr>) = rx_frame u w" "rx_frame u (w\<lparr>net_ping_replies := n\<rparr>) = rx_frame u w"
  "rx_frame u (w\<lparr>rx_offset := k\<rparr>) = rx_frame u w"
  by (simp_all add: rx_frame_def trace_ok_def)

text \<open>The same for code that may fail: whenever it returns a state, the state is framed.\<close>

definition rx_opt :: "('d, 'a) nworld_scheme \<Rightarrow> ('d, 'a) nworld_scheme option \<Rightarrow> bool" where
  "rx_opt u r \<longleftrightarrow> (\<forall>v. r = Some v \<longrightarrow> rx_frame u v)"

lemma rx_opt_intros [rx_frames]:
  "rx_opt u None" "rx_frame u w \<Longrightarrow> rx_opt u (Some w)" "rx_opt u x \<Longrightarrow> rx_opt u y \<Longrightarrow> rx_opt u (if b then x else y)"
  by (simp_all add: rx_opt_def)

lemma rx_opt_pure [rx_frames]: "(\<And>x. rx_opt u (f x)) \<Longrightarrow> rx_opt u (Option.bind m f)"
  by (cases m) (simp_all add: rx_opt_def)

lemma rx_opt_bind: "rx_opt u m \<Longrightarrow> (\<And>x. rx_frame u x \<Longrightarrow> rx_opt u (f x)) \<Longrightarrow> rx_opt u (Option.bind m f)"
  by (cases m) (simp_all add: rx_opt_def)

lemma rx_opt_map: "rx_opt u m \<Longrightarrow> (\<And>x. rx_frame u x \<Longrightarrow> rx_frame u (f x)) \<Longrightarrow> rx_opt u (map_option f m)"
  by (cases m) (simp_all add: rx_opt_def)

lemma wait_tx_dev:
  fixes w :: "('d, 'a) nworld_scheme"
  assumes "wait_tx dv port w = Some v"
  shows "dev_only w v"
proof (rule wait_tx.raw_induct [where P = "\<lambda>dv port w v. dev_only w v", OF _ assms])
  fix wt and dv :: "'d ports" and port and w v :: "('d, 'a) nworld_scheme"
  assume ih: "\<And>dv port w v. wt dv port w = Some v \<Longrightarrow> dev_only w v"
    and r: "(case inw dv port w of (x, w1) \<Rightarrow> if x AND 0x2000 = 0 then wt dv port w1 else Some w1) = Some v"
  have "dev_only w (snd (inw dv port w))" by (simp add: dev_only_in)
  then show "dev_only w v"
    using ih [of dv port "snd (inw dv port w)" v] r by (auto simp: case_prod_beta split: if_splits intro: dev_only_trans)
qed

lemma send_packet_frame:
  assumes "rx_frame u w"
  shows "rx_opt u (rtl8139_send_packet dv f w)"
  unfolding rx_opt_def
proof (intro allI impI)
  fix v
  assume r: "rtl8139_send_packet dv f w = Some v"
  show "rx_frame u v"
  proof (cases "\<not> rtl8139_present w \<or> rtl8139_io_base w = 0")
    case False
    let ?tsd = "rtl8139_io_base w + 0x10 + of_nat (tx_index w) * 4"
    obtain w1 where w1: "wait_tx dv ?tsd w = Some w1" using r False by (auto simp: rtl8139_send_packet_def Let_def split: option.splits)
    have "rx_frame u w1" by (rule rx_frame_dev [OF assms wait_tx_dev [OF w1]])
    let ?w2 = "w1\<lparr>ram := poke_bytes (tx_buffers w1 ! tx_index w1) f (ram w1)\<rparr>"
    let ?w4 = "outl dv ?tsd (of_nat (length f)) (outl dv (rtl8139_io_base ?w2 + 0x20 + of_nat (tx_index ?w2) * 4) (of_nat (tx_buffers w1 ! tx_index w1)) ?w2)"
    have "v = ?w4\<lparr>wire := wire ?w4 @ [peek_bytes (ram ?w4) (tx_buffers w1 ! tx_index w1) (length f)], tx_index := (tx_index ?w4 + 1) mod 4\<rparr>"
      using r False w1 by (simp add: rtl8139_send_packet_def Let_def)
    moreover have "rx_frame u ?w4" by (rule rx_frame_dev [of _ ?w2]) (simp_all add: \<open>rx_frame u w1\<close> dev_only_out)
    ultimately show ?thesis by simp
  qed (use assms r in \<open>simp add: rtl8139_send_packet_def\<close>)
qed

lemma send_tcp_frame: "rx_frame u w \<Longrightarrow> rx_opt u (send_tcp_packet dv ip sp dp sq ack fl w)"
  unfolding send_tcp_packet_def Let_def by (intro rx_opt_pure send_packet_frame)

lemma print_data_frame: "rx_frame u w \<Longrightarrow> rx_frame u (print_data xs w)"
  unfolding print_data_def by (induction xs arbitrary: w) (simp_all add: rx_frame_con prints_all)

lemma print_ip_frame: "rx_frame u w \<Longrightarrow> rx_frame u (print_ip ip w)"
  by (simp add: print_ip_def rx_frame_con prints_all)

lemmas print_frames = rx_frame_con print_data_frame print_ip_frame prints_all

lemma arp_add_frame: "rx_frame u w \<Longrightarrow> rx_frame u (arp_cache_add ip mac w)"
  by (simp add: arp_cache_add_def split: option.split)

lemma handle_arp_frame: "rx_frame u w \<Longrightarrow> rx_opt u (handle_arp_packet dv packet sz w)"
  unfolding handle_arp_packet_def Let_def by (intro rx_opt_intros send_packet_frame arp_add_frame)

lemma handle_udp_frame: "rx_frame u w \<Longrightarrow> rx_opt u (handle_udp_packet packet po w)"
  unfolding handle_udp_packet_def Let_def by (intro rx_opt_intros print_frames)

lemma tcp_syn_frame: "rx_frame u w \<Longrightarrow> rx_opt u (tcp_syn dv ip sp sq w)"
  unfolding tcp_syn_def Let_def by (intro rx_opt_map send_tcp_frame) simp_all

lemma tcp_data_frame: "rx_frame u w \<Longrightarrow> rx_opt u (tcp_data dv packet po ihl sq w)"
  unfolding tcp_data_def Let_def by (intro rx_opt_intros send_tcp_frame) (simp_all add: print_frames)

lemma tcp_fin_frame: "rx_frame u w \<Longrightarrow> rx_opt u (tcp_fin dv sq w)"
  unfolding tcp_fin_def Let_def by (intro rx_opt_map send_tcp_frame) (simp_all add: print_frames)

lemma handle_tcp_frame: "rx_frame u w \<Longrightarrow> rx_opt u (handle_tcp_packet dv packet po ihl w)"
  unfolding handle_tcp_packet_def Let_def
  by (intro rx_opt_intros rx_opt_bind tcp_syn_frame tcp_data_frame tcp_fin_frame) (simp_all add: print_frames)

lemma handle_icmp_frame: "rx_frame u w \<Longrightarrow> rx_opt u (handle_icmp dv stack packet sz ihl w)"
  unfolding handle_icmp_def Let_def
  by (intro rx_opt_intros rx_opt_pure send_packet_frame print_frames) simp_all

lemma handle_ethernet_frame: "rx_frame u w \<Longrightarrow> rx_opt u (handle_ethernet_packet dv stack packet sz w)"
  unfolding handle_ethernet_packet_def handle_ipv4_packet_def Let_def
  by (intro rx_opt_intros handle_arp_frame handle_icmp_frame handle_udp_frame handle_tcp_frame)

lemma handle_receive_frame:
  fixes w :: "('d, 'a) nworld_scheme"
  assumes "rtl8139_handle_receive dv stack temp w = Some v"
  shows "rx_frame w v"
proof (rule rtl8139_handle_receive.raw_induct [where P = "\<lambda>dv stack temp w v. rx_frame w v", OF _ assms])
  fix rec and dv :: "'d ports" and stack temp and w v :: "('d, 'a) nworld_scheme"
  assume ih: "\<And>dv stack temp w v. rec dv stack temp w = Some v \<Longrightarrow> rx_frame w v"
    and r: "(case inb dv (rtl8139_io_base w + 0x37) w of (cmd, w1) \<Rightarrow>
      if cmd AND 1 \<noteq> 0 then Some w1
      else
        let m = p_mem dv (dev w1) (ram w1); header = peek_bytes m (rx_buffer w1 + rx_offset w1) 4; sz = unat (rd16 header 2)
        in if rd16 header 0 AND 1 = 0 then Some w1
           else case rx_copy m (rx_buffer w1) (rx_offset w1) sz temp of
             None \<Rightarrow> None
           | Some packet \<Rightarrow>
               (case handle_ethernet_packet dv stack packet (int sz - 4) w1 of
                  None \<Rightarrow> None
                | Some w2 \<Rightarrow>
                    let off = next_rx_offset (rx_offset w2) sz
                    in rec dv stack temp (outw dv (rtl8139_io_base w2 + 0x38) (of_nat off - 16) (w2\<lparr>rx_offset := off\<rparr>)))) = Some v"
  let ?w1 = "snd (inb dv (rtl8139_io_base w + 0x37) w)"
  have w1: "rx_frame w ?w1" by (rule rx_frame_dev [OF rx_frame_refl]) (simp add: dev_only_in)
  show "rx_frame w v"
  proof (cases "v = ?w1")
    case False
    then obtain packet sz w2 off where "handle_ethernet_packet dv stack packet sz ?w1 = Some w2"
        "rec dv stack temp (outw dv (rtl8139_io_base w2 + 0x38) (of_nat off - 16) (w2\<lparr>rx_offset := off\<rparr>)) = Some v"
      using r by (auto simp: case_prod_beta Let_def split: if_splits option.splits)
    moreover from this(1) have "rx_frame w (w2\<lparr>rx_offset := off\<rparr>)" using handle_ethernet_frame [OF w1] by (simp add: rx_opt_def)
    then have "rx_frame w (outw dv (rtl8139_io_base w2 + 0x38) (of_nat off - 16) (w2\<lparr>rx_offset := off\<rparr>))"
      by (rule rx_frame_dev) (simp add: dev_only_out)
    ultimately show ?thesis using ih rx_frame_trans by blast
  qed (simp add: w1)
qed

lemma rtl8139_isr_frame: "rx_opt w (rtl8139_isr_handler dv stack temp w)"
proof -
  let ?s = "inw dv (rtl8139_io_base w + 0x3E) w"
  let ?w2 = "outw dv (rtl8139_io_base (snd ?s) + 0x3E) (fst ?s) (snd ?s)"
  have w2: "rx_frame w ?w2" by (rule rx_frame_dev [OF rx_frame_refl]) (simp add: dev_only_in dev_only_out)
  have "rx_opt w (rtl8139_handle_receive dv stack temp ?w2)"
    using handle_receive_frame rx_frame_trans [OF w2] unfolding rx_opt_def by blast
  moreover have "rx_frame w (outb dv 0xA0 0x20 (outb dv 0x20 0x20 v))" if "rx_frame w v" for v
    by (rule rx_frame_dev [OF that]) (simp add: dev_only_out)
  ultimately show ?thesis using w2 unfolding rtl8139_isr_handler_def Let_def case_prod_beta
    by (intro rx_opt_map rx_opt_intros)
qed

section \<open>The interrupts\<close>

datatype event = Key u8 | Mouse | Tick | Frame | Device

text \<open>The scan code that the keyboard handler will read.\<close>

definition scancode :: "'d machine \<Rightarrow> 'd kstate \<Rightarrow> u8" where
  "scancode mc w = fst (inb (m_ports mc) 0x60 (outb (m_ports mc) 0x20 0x20 w))"

text \<open>
  A step is a handler that returns, or a device that changes its state.  \<open>stack\<close> and \<open>temp\<close> are
  the uninitialised arrays of the network code; the stack pointer of a tick is arbitrary.
\<close>

inductive interrupt :: "'d machine \<Rightarrow> bytes \<Rightarrow> bytes \<Rightarrow> 'd kstate \<Rightarrow> event \<Rightarrow> 'd kstate \<Rightarrow> bool" for mc stack temp where
  key: "keyboard_isr_handler mc w = Some (Inr v) \<Longrightarrow> interrupt mc stack temp w (Key (scancode mc w)) v"
| mouse: "mouse_isr_handler (m_ports mc) w = Some (Inr v) \<Longrightarrow> interrupt mc stack temp w Mouse v"
| tick: "timer_isr_handler (m_ports mc) (m_call mc) esp w = Some (esp', v) \<Longrightarrow> interrupt mc stack temp w Tick v"
| frame: "rtl8139_isr_handler (m_ports mc) stack temp w = Some v \<Longrightarrow> interrupt mc stack temp w Frame v"
| device: "interrupt mc stack temp w Device (w\<lparr>dev := d\<rparr>)"

inductive runs :: "'d machine \<Rightarrow> bytes \<Rightarrow> bytes \<Rightarrow> 'd kstate \<Rightarrow> event list \<Rightarrow> 'd kstate \<Rightarrow> bool" for mc stack temp where
  start: "runs mc stack temp w [] w"
| step: "runs mc stack temp w es v \<Longrightarrow> interrupt mc stack temp v e v' \<Longrightarrow> runs mc stack temp w (es @ [e]) v'"

definition keys :: "event list \<Rightarrow> u8 list" where
  "keys es = concat (map (\<lambda>e. case e of Key sc \<Rightarrow> [sc] | _ \<Rightarrow> []) es)"

text \<open>
  The invariant between commands.  The scheduler has not been started, or its queue is the well-formed
  ring \<open>ts\<close>; no daemon has been installed, because a daemon is arbitrary code.
\<close>

definition idle_ok :: "nat list \<Rightarrow> 'd kstate \<Rightarrow> bool" where
  "idle_ok ts w \<longleftrightarrow> console_ok (con w) \<and> trace_ok w \<and> heap_ok (kheap w) \<and> pmm_ok (pmm_state w) \<and> editor_ok w \<and> mouse_ok w \<and>
     daemon_tasks w = replicate 4 0 \<and> (\<not> scheduler_active w \<or> sched_inv w ts)"

lemma sched_inv_cong:
  assumes "kheap v = kheap w" "tasks v = tasks w" "current_task v = current_task w" "task_queue v = task_queue w" "scheduler_active v = scheduler_active w"
  shows "sched_inv v ts = sched_inv w ts"
  using assms by (simp add: sched_inv_def sched_ok_def ring_def t_state_of_def)

text \<open>What the keyboard, the network and the devices leave alone.\<close>

definition sys_frame :: "'d kstate \<Rightarrow> 'd kstate \<Rightarrow> bool" where
  "sys_frame w v \<longleftrightarrow> (console_ok (con w) \<longrightarrow> console_ok (con v)) \<and> (trace_ok w \<longrightarrow> trace_ok v) \<and> kheap v = kheap w \<and>
     pmm_state v = pmm_state w \<and> (mouse_ok w \<longrightarrow> mouse_ok v) \<and> daemon_tasks v = daemon_tasks w \<and> tasks v = tasks w \<and>
     current_task v = current_task w \<and> task_queue v = task_queue w \<and> scheduler_active v = scheduler_active w"

lemma sys_frame_idle: "sys_frame w v \<Longrightarrow> idle_ok ts w \<Longrightarrow> editor_ok v \<Longrightarrow> idle_ok ts v"
  unfolding idle_ok_def sys_frame_def using sched_inv_cong [of v w ts] by simp

lemma rx_sys_frame: "rx_frame w v \<Longrightarrow> sys_frame w v \<and> editor_ok v = editor_ok w \<and> editor_of v = editor_of w" for w :: "'d kstate"
  using kstate_more [of v w] by (simp add: rx_frame_def sys_frame_def)

lemma fold_prints_char: "prints (fold print_char xs)" "prints (print_char c ^^ n)"
proof -
  show "prints (fold print_char xs)" by (rule fold_prints) (simp add: prints_char)
  show "prints (print_char c ^^ n)" using prints_char unfolding prints_def by (induction n) auto
qed

lemma sys_frame_refl [simp]: "sys_frame w w"
  by (simp add: sys_frame_def)

lemma sys_frame_con: "sys_frame u w \<Longrightarrow> prints f \<Longrightarrow> sys_frame u (con_update f w)"
  by (simp add: sys_frame_def prints_def)

lemma sys_frame_fields [simp]:
  "sys_frame u (w\<lparr>command_buffer := b\<rparr>) = sys_frame u w" "sys_frame u (w\<lparr>command_length := n\<rparr>) = sys_frame u w"
  "sys_frame u (w\<lparr>command_ready := r\<rparr>) = sys_frame u w" "sys_frame u (w\<lparr>history_pos := p\<rparr>) = sys_frame u w"
  "sys_frame u (w\<lparr>shift_active := s\<rparr>) = sys_frame u w" "sys_frame u (w\<lparr>e0_mode := m\<rparr>) = sys_frame u w" "sys_frame u (w\<lparr>dev := d\<rparr>) = sys_frame u w"
  by (simp_all add: sys_frame_def trace_ok_def mouse_ok_def)

lemma type_char_frame: "type_char c w = Some v \<Longrightarrow> sys_frame u w \<Longrightarrow> sys_frame u v"
  by (auto simp: type_char_def sys_frame_con prints_all split: if_splits)

lemma load_history_frame: "load_history dir w = Some v \<Longrightarrow> sys_frame u w \<Longrightarrow> sys_frame u v"
  unfolding load_history_def Let_def
  by (auto split: if_splits simp: sys_frame_con fold_prints_char prints_comp)

lemma key_frame:
  assumes "handle_scancode mc sc w = Some (Inr v)" and "\<not> vga_active w" and "sys_frame u w"
  shows "sys_frame u v"
  using assms unfolding handle_scancode_def Let_def
  by (auto split: if_splits dest: load_history_frame [where u = u] type_char_frame [where u = u])

lemma keyboard_step:
  assumes "editor_ok w"
  shows "\<exists>v. keyboard_isr_handler mc w = Some (Inr v) \<and> sys_frame w v \<and> editor_ok v \<and> editor_of v = ed_key (scancode mc w) (editor_of w) \<and>
    (command_ready v \<and> \<not> command_ready w \<longrightarrow> cstr (command_buffer v) = ed_line (editor_of v))"
proof -
  let ?r = "inb (m_ports mc) 0x60 (outb (m_ports mc) 0x20 0x20 w)"
  have "dev_only w (snd ?r)" by (intro dev_only_in dev_only_out dev_only_refl)
  then obtain d where d: "snd ?r = w\<lparr>dev := d\<rparr>" unfolding dev_only_def by blast
  have ok: "editor_ok (snd ?r)" "editor_of (snd ?r) = editor_of w" "\<not> vga_active (snd ?r)" "sys_frame w (snd ?r)"
    using assms unfolding d by (simp_all add: editor_ok_def editor_of_def)
  have cr: "command_ready (snd ?r) = command_ready w" unfolding d by simp
  obtain v where v: "handle_scancode mc (fst ?r) (snd ?r) = Some (Inr v)" "editor_ok v" "editor_of v = ed_key (fst ?r) (editor_of (snd ?r))"
    "command_ready v \<and> \<not> command_ready (snd ?r) \<longrightarrow> cstr (command_buffer v) = ed_line (editor_of v)"
    using handle_scancode_refines [OF ok(1)] by blast
  have "keyboard_isr_handler mc w = Some (Inr v)" using v(1) by (simp add: keyboard_isr_handler_def case_prod_beta)
  then show ?thesis using v ok(2) cr key_frame [OF v(1) ok(3,4)] by (simp add: scancode_def)
qed

lemma mouse_step:
  assumes "mouse_ok w" and "\<not> vga_active w"
  shows "\<exists>d b c. mouse_isr_handler dv w = Some (Inr (w\<lparr>dev := d, mouse_byte := b, mouse_cycle := c\<rparr>)) \<and> length b = 3 \<and> c < 3"
proof -
  let ?s = "inb dv 0x64 (outb dv 0x20 0x20 (outb dv 0xA0 0x20 w))"
  let ?r = "inb dv 0x60 (snd ?s)"
  have "dev_only w (snd ?s)" by (intro dev_only_in dev_only_out dev_only_refl)
  then obtain d1 where d1: "snd ?s = w\<lparr>dev := d1\<rparr>" unfolding dev_only_def by blast
  have "dev_only w (snd ?r)" by (intro dev_only_in dev_only_out dev_only_refl)
  then obtain d2 where d2: "snd ?r = w\<lparr>dev := d2\<rparr>" unfolding dev_only_def by blast
  have same: "w\<lparr>dev := d\<rparr> = w\<lparr>dev := d, mouse_byte := mouse_byte w, mouse_cycle := mouse_cycle w\<rparr>" for d by simp
  consider "fst ?s AND 0x20 = 0" | "fst ?s AND 0x20 \<noteq> 0" "mouse_cycle w = 0 \<and> fst ?r AND 0x08 = 0"
    | "fst ?s AND 0x20 \<noteq> 0" "\<not> (mouse_cycle w = 0 \<and> fst ?r AND 0x08 = 0)" by blast
  then show ?thesis
  proof cases
    case 1
    then have "mouse_isr_handler dv w = Some (Inr (w\<lparr>dev := d1\<rparr>))" by (simp add: mouse_isr_handler_def case_prod_beta Let_def d1 del: port_frame)
    then show ?thesis using assms(1) same [of d1] unfolding mouse_ok_def by metis
  next
    case 2
    then have "mouse_isr_handler dv w = Some (Inr (w\<lparr>dev := d2\<rparr>))" by (simp add: mouse_isr_handler_def case_prod_beta Let_def d2 del: port_frame)
    then show ?thesis using assms(1) same [of d2] unfolding mouse_ok_def by metis
  next
    case 3
    let ?c = "if mouse_cycle w = 2 then 0 else mouse_cycle w + 1"
    have "mouse_isr_handler dv w = Some (Inr (w\<lparr>dev := d2, mouse_byte := (mouse_byte w)[mouse_cycle w := fst ?r], mouse_cycle := ?c\<rparr>))"
      using 3 assms by (cases "mouse_cycle w = 0") (simp_all add: mouse_isr_handler_def case_prod_beta Let_def d2 mouse_ok_def del: port_frame)
    then show ?thesis using assms(1) unfolding mouse_ok_def by (intro exI conjI) (assumption, simp_all)
  qed
qed

lemma no_daemons: "daemon_tasks w = replicate 4 0 \<Longrightarrow> run_background_tasks call w = Some w"
  by (simp add: run_background_tasks_def upt_rec numeral_eq_Suc)

lemma switch_step:
  assumes "heap_ok (kheap w)" and "\<not> scheduler_active w \<or> sched_inv w ts"
  shows "\<exists>e t c s p. task_switch esp w = Some (e, w\<lparr>tasks := t, current_task := c, tss_esp0 := s, cr3 := p\<rparr>) \<and>
    (\<not> scheduler_active w \<or> sched_inv (w\<lparr>tasks := t, current_task := c, tss_esp0 := s, cr3 := p\<rparr>) ts)"
proof (cases "scheduler_active w")
  case False
  then have "task_switch esp w = Some (esp, w\<lparr>tasks := tasks w, current_task := current_task w, tss_esp0 := tss_esp0 w, cr3 := cr3 w\<rparr>)"
    by (simp add: task_switch_def)
  then show ?thesis using False by blast
next
  case True
  then have inv: "sched_inv w ts" and ok: "sched_ok w ts" using assms(2) by (auto simp: sched_inv_def)
  then obtain i where i: "i < length ts" "ts ! i = current_task w" unfolding sched_ok_def in_set_conv_nth by blast
  obtain nt where nt: "tasks w (choice w ts i) = Some nt" using sched_ok_task [OF ok choice_in [OF i(1)]] by blast
  obtain e w' where w': "task_switch esp w = Some (e, w')" "sched_inv w' ts"
      "w' = w\<lparr>tasks := tasks w', current_task := choice w ts i, tss_esp0 := tss_esp0 w', cr3 := cr3 w'\<rparr>"
    using task_switch_ok [OF ok i refl nt, of esp] by blast
  show ?thesis by (intro exI conjI disjI2, subst w'(3) [symmetric], rule w'(1), subst w'(3) [symmetric], rule w'(2))
qed

lemma timer_step:
  assumes "idle_ok ts w"
  shows "\<exists>e v. timer_isr_handler dv call esp w = Some (e, v) \<and> idle_ok ts v \<and> editor_of v = editor_of w"
proof -
  have vga: "\<not> vga_active w" using assms by (simp add: idle_ok_def editor_ok_def)
  define a where "a = system_ticks w + 1"
  define b where "b = (if a mod 18 = 0 then uptime_seconds w + 1 else uptime_seconds w)"
  let ?w = "w\<lparr>system_ticks := a, uptime_seconds := b\<rparr>"
  have bg: "run_background_tasks call ?w = Some ?w" using assms by (intro no_daemons) (simp add: idle_ok_def)
  have h: "heap_ok (kheap ?w)" "\<not> scheduler_active ?w \<or> sched_inv ?w ts"
    using assms sched_inv_cong [of ?w w ts] by (auto simp: idle_ok_def)
  obtain e t c s p where sw: "task_switch esp ?w = Some (e, ?w\<lparr>tasks := t, current_task := c, tss_esp0 := s, cr3 := p\<rparr>)"
    "\<not> scheduler_active ?w \<or> sched_inv (?w\<lparr>tasks := t, current_task := c, tss_esp0 := s, cr3 := p\<rparr>) ts"
    using switch_step [OF h] by blast
  let ?v = "outb dv 0x20 0x20 (?w\<lparr>tasks := t, current_task := c, tss_esp0 := s, cr3 := p\<rparr>)"
  have "timer_isr_handler dv call esp w = Some (e, ?v)"
    using vga bg sw(1) by (cases "(system_ticks w + 1) mod 18 = 0") (simp_all add: timer_isr_handler_def a_def b_def)
  moreover have "sched_inv ?v ts = sched_inv (?w\<lparr>tasks := t, current_task := c, tss_esp0 := s, cr3 := p\<rparr>) ts"
    by (rule sched_inv_cong) (simp_all add: outb_def)
  then have "idle_ok ts ?v" using assms sw(2) by (auto simp: idle_ok_def outb_def editor_ok_def mouse_ok_def trace_ok_def)
  moreover have "editor_of ?v = editor_of w" by (simp add: editor_of_def outb_def)
  ultimately show ?thesis by blast
qed

section \<open>Every interleaving\<close>

lemma keys_snoc [simp]: "keys (es @ [Key sc]) = keys es @ [sc]" "keys (es @ [Mouse]) = keys es" "keys (es @ [Tick]) = keys es"
  "keys (es @ [Frame]) = keys es" "keys (es @ [Device]) = keys es" "keys [] = []"
  by (simp_all add: keys_def)

lemma interrupt_idle:
  assumes "interrupt mc stack temp w e v" and "idle_ok ts w"
  shows "idle_ok ts v \<and> editor_of v = fold ed_key (keys [e]) (editor_of w)"
proof -
  have ok: "editor_ok w" "mouse_ok w" "\<not> vga_active w" using assms(2) by (simp_all add: idle_ok_def editor_ok_def)
  show ?thesis using assms(1)
  proof (cases rule: interrupt.cases)
    case key
    then show ?thesis using keyboard_step [OF ok(1), of mc] sys_frame_idle [OF _ assms(2)] by (auto simp: keys_def)
  next
    case mouse
    obtain d b c where v: "v = w\<lparr>dev := d, mouse_byte := b, mouse_cycle := c\<rparr>" "length b = 3" "c < 3"
      using mouse_step [OF ok(2,3), of "m_ports mc"] mouse by auto
    have "sys_frame w v" using v by (simp add: sys_frame_def trace_ok_def mouse_ok_def)
    then show ?thesis using sys_frame_idle [OF _ assms(2), of v] ok(1) mouse(1) v(1) by (simp add: editor_ok_def editor_of_def keys_def)
  next
    case (tick esp esp')
    then show ?thesis using timer_step [OF assms(2), of "m_ports mc" "m_call mc" esp] by (auto simp: keys_def)
  next
    case frame
    then have "rx_frame w v" using rtl8139_isr_frame [of w] by (simp add: rx_opt_def)
    then show ?thesis using rx_sys_frame [of w v] sys_frame_idle [OF _ assms(2), of v] ok(1) frame(1) by (simp add: keys_def)
  next
    case (device d)
    then show ?thesis using sys_frame_idle [OF _ assms(2), of v] ok(1) by (simp add: keys_def editor_ok_def editor_of_def)
  qed
qed

lemma runs_idle:
  assumes "runs mc stack temp w es v" and "idle_ok ts w"
  shows "idle_ok ts v \<and> editor_of v = fold ed_key (keys es) (editor_of w)"
  using assms
proof (induction rule: runs.induct)
  case (step w es v e v')
  then show ?case using interrupt_idle [OF step.hyps(2), of ts] by (cases e) (auto simp: keys_def)
qed simp


text \<open>The kernel is idle when it has booted.\<close>

lemma boot_idle:
  assumes "0 < base" and "base + HEAP_SIZE < W32" and "m_page_directory mc AND 0xFFF = 0" and "m_page_table mc AND 0xFFF = 0"
    and "reset_ends (m_ports mc)" and "info \<noteq> 0" and "bit (mbi_flags (mbi_at (m_word mc) info)) 6"
    and "mmap_laid (m_word mc) (mmap_addr (mbi_at (m_word mc) info))
           ((mmap_addr (mbi_at (m_word mc) info) + mmap_length (mbi_at (m_word mc) info)) mod W32) es"
  shows "\<exists>w'. kernel_boot mc 0x2BADB002 info (loaded vram screen base memory sectors d) = Some (Inr w') \<and> idle_ok [] w' \<and> editor_of w' = ed_start"
  using kernel_boot_spec [OF assms, of vram screen memory sectors d] unfolding idle_ok_def by metis

lemma card_machine_boots:
  "\<exists>w'. kernel_boot card_machine 0x2BADB002 0x1000 (loaded (\<lambda>_. 0) (\<lambda>_. 0) 0x200000 (\<lambda>_. 0) (\<lambda>_. replicate 512 0) (0, one_card)) = Some (Inr w') \<and>
     idle_ok [] w' \<and> editor_of w' = ed_start"
  by (rule boot_idle [of _ card_machine _ sample_entries]) (simp_all add: card_machine_facts sample_mmap_laid)

lemma card_machine_scancode [simp]: "scancode card_machine w = 0"
  by (simp add: scancode_def card_machine_def card_ports_def)


section \<open>Typing a command\<close>

text \<open>The characters that a key without shift types, and the scan code of the key.\<close>

definition typeable :: "u8 \<Rightarrow> bool" where
  "typeable c \<longleftrightarrow> c \<in> set scancode_to_ascii_normal \<and> c \<noteq> 0 \<and> c \<noteq> 8 \<and> c \<noteq> 10"

definition scan_of :: "u8 \<Rightarrow> u8" where
  "scan_of c = of_nat (length (takeWhile (\<lambda>x. x \<noteq> c) scancode_to_ascii_normal))"

lemma scan_of_table:
  assumes "typeable c"
  shows "scancode_to_ascii_normal ! unat (scan_of c) = c" "unat (scan_of c) < 58" "scan_of c \<noteq> 0x2A" "scan_of c \<noteq> 0x36"
proof -
  let ?n = "length (takeWhile (\<lambda>x. x \<noteq> c) scancode_to_ascii_normal)"
  have "takeWhile (\<lambda>x. x \<noteq> c) scancode_to_ascii_normal \<noteq> scancode_to_ascii_normal"
    using assms by (simp add: typeable_def takeWhile_eq_all_conv)
  then have n: "?n < 58" using length_takeWhile_le [of _ scancode_to_ascii_normal] takeWhile_eq_take [of "\<lambda>x. x \<noteq> c" scancode_to_ascii_normal]
    by (metis (no_types) layouts(1) le_neq_implies_less take_all_iff order_refl)
  then have u: "unat (scan_of c) = ?n" by (simp add: scan_of_def unat_of_nat take_bit_nat_eq_self)
  then show at: "scancode_to_ascii_normal ! unat (scan_of c) = c" "unat (scan_of c) < 58"
    using nth_length_takeWhile [of "\<lambda>x. x \<noteq> c" scancode_to_ascii_normal] n by (simp_all add: layouts)
  have "scancode_to_ascii_normal ! 0x2A = 0" "scancode_to_ascii_normal ! 0x36 = 0" by (simp_all add: scancode_to_ascii_normal_def str_def)
  then show "scan_of c \<noteq> 0x2A" "scan_of c \<noteq> 0x36" using at(1) assms by (auto simp: typeable_def)
qed

lemma key_types:
  assumes "typeable c" and "\<not> ed_shift e" and "\<not> ed_e0 e" and "length (ed_line e) < 255"
  shows "ed_key (scan_of c) e = e\<lparr>ed_line := ed_line e @ [c]\<rparr>"
proof -
  note t = scan_of_table [OF assms(1)]
  then have "scan_of c \<noteq> 0xE0" "scan_of c \<noteq> 0xAA" "scan_of c \<noteq> 0xB6" by auto
  then show ?thesis using assms t by (simp add: ed_key_def ed_type_def typeable_def)
qed

lemma keys_type:
  assumes "\<forall>c \<in> set t. typeable c" and "\<not> ed_shift e" and "\<not> ed_e0 e" and "length (ed_line e) + length t \<le> 255"
  shows "fold ed_key (map scan_of t) e = e\<lparr>ed_line := ed_line e @ t\<rparr>"
  using assms
proof (induction t arbitrary: e)
  case (Cons c t)
  then have "ed_key (scan_of c) e = e\<lparr>ed_line := ed_line e @ [c]\<rparr>" by (intro key_types) simp_all
  then show ?case using Cons by simp
qed simp

inductive_cases runs_snocE: "runs mc stack temp w (es @ [e]) v"
inductive_cases key_interruptE: "interrupt mc stack temp w (Key sc) v"

lemma enter_hands_over:
  assumes "runs mc stack temp w (es @ [Key 0x1C]) v" and "idle_ok ts w" and "editor_of w = ed_start"
    and "keys es = map scan_of t" and "\<forall>c \<in> set t. typeable c" and "length t \<le> 255"
  shows "idle_ok ts v \<and> command_ready v \<and> cstr (command_buffer v) = t"
proof -
  obtain u where u: "runs mc stack temp w es u" "interrupt mc stack temp u (Key 0x1C) v" using assms(1) by (auto elim: runs_snocE)
  have iu: "idle_ok ts u" "editor_of u = ed_start\<lparr>ed_line := t\<rparr>"
    using runs_idle [OF u(1) assms(2)] keys_type [OF assms(5), of ed_start] assms(3,4,6) by (simp_all add: ed_start_def)
  have k: "keyboard_isr_handler mc u = Some (Inr v)" "scancode mc u = 0x1C" using u(2) by (auto elim: key_interruptE)
  have eu: "editor_ok u" using iu(1) by (simp add: idle_ok_def)
  have ev: "editor_of v = ed_start\<lparr>ed_line := t, ed_ready := True\<rparr>"
    using keyboard_step [OF eu, of mc] k iu(2)
    by (simp add: ed_key_def ed_type_def ed_start_def scancode_to_ascii_normal_def str_def)
  have "command_ready v" "\<not> command_ready u" using arg_cong [OF ev, of ed_ready] arg_cong [OF iu(2), of ed_ready]
    by (simp_all add: editor_of_def ed_start_def)
  then have "cstr (command_buffer v) = ed_line (editor_of v)" using keyboard_step [OF eu, of mc] k by auto
  then show ?thesis using ev \<open>command_ready v\<close> runs_idle [OF assms(1,2)] by simp
qed

end
